(* ===== verification/Prelude.thy ===== *)
theory Prelude
  imports Main "HOL-Library.Word" "HOL-Library.Multiset"
begin

text \<open>
  Shared vocabulary of the development: the machine integer types of the C++ sources as
  words, the collection \<open>word_nat\<close> of rewrite rules that read word arithmetic as arithmetic
  on natural numbers, and the generic lemmas on lists and folds the component theories use.
\<close>

unbundle bit_operations_syntax

type_synonym u8 = "8 word"
type_synonym u16 = "16 word"
type_synonym u32 = "32 word"
type_synonym u64 = "64 word"

text \<open>
  The 32-byte plain-data types of \<open>include/CryptoTypes.h\<close> (\<open>Hash\<close>, \<open>PublicKey\<close>,
  \<open>KeyImage\<close>) and the 64-byte \<open>Signature\<close>. Equality of the C++ types compares the bytes,
  so a value is the little-endian integer of its bytes.
\<close>

type_synonym Hash = "256 word"
type_synonym PublicKey = "256 word"
type_synonym KeyImage = "256 word"
type_synonym Signature = "512 word"

named_theorems word_nat \<open>word operations read as operations on natural numbers\<close>

section \<open>Words as natural numbers\<close>

lemma unat_add_mod [word_nat]:
  "unat (a + b :: 'a::len word) = (unat a + unat b) mod 2 ^ LENGTH('a)"
  by (simp add: unat_word_ariths)

lemma unat_mult_mod [word_nat]:
  "unat (a * b :: 'a::len word) = (unat a * unat b) mod 2 ^ LENGTH('a)"
  by (simp add: unat_word_ariths)

lemma unat_div_nat [word_nat]: "unat (a div b :: 'a::len word) = unat a div unat b"
  by (rule unat_div)

lemma unat_mod_nat [word_nat]: "unat (a mod b :: 'a::len word) = unat a mod unat b"
  by (rule unat_mod)

lemma unat_drop_bit_nat: "unat (drop_bit n (a :: 'a::len word)) = unat a div 2 ^ n"
  by (metis drop_bit_eq_div unat_drop_bit_eq)

lemma unat_take_bit_nat: "unat (take_bit n (a :: 'a::len word)) = unat a mod 2 ^ n"
proof -
  have "uint (take_bit n a) = take_bit n (uint a)"
    by (simp add: unsigned_take_bit_eq)
  then show ?thesis
    by (metis take_bit_eq_mod unsigned_take_bit_eq)
qed

lemma unat_push_bit_nat:
  "unat (push_bit n (a :: 'a::len word)) = (unat a * 2 ^ n) mod 2 ^ LENGTH('a)"
  by (metis push_bit_eq_mult take_bit_eq_mod unsigned_push_bit_eq)

lemma unat_ucast_nat: "unat (ucast (a :: 'a::len word) :: 'b::len word) = unat a mod 2 ^ LENGTH('b)"
  by (simp only: unsigned_ucast_eq take_bit_eq_mod)

lemma unat_le_max: "unat (a :: 'a::len word) < 2 ^ LENGTH('a)"
  by simp

lemma unat_le_max64: "unat (a :: u64) < 18446744073709551616"
  using unat_le_max [of a] by simp

lemma unat_le_max32: "unat (a :: u32) < 4294967296"
  using unat_le_max [of a] by simp

lemma unat_le_max8: "unat (a :: u8) < 256"
  using unat_le_max [of a] by simp

lemma unat_ucast_32_64 [simp]: "unat (ucast (r :: u32) :: u64) = unat r"
  using unat_le_max32 [of r] by (simp add: unat_ucast_nat)

lemma unat_add_exact:
  "unat a + unat b < 2 ^ LENGTH('a) \<Longrightarrow> unat (a + b :: 'a::len word) = unat a + unat b"
  by (simp add: unat_add_mod)

lemma unat_mult_exact:
  "unat a * unat b < 2 ^ LENGTH('a) \<Longrightarrow> unat (a * b :: 'a::len word) = unat a * unat b"
  by (simp add: unat_mult_mod)

lemma unat_sub_exact: "b \<le> a \<Longrightarrow> unat (a - b :: 'a::len word) = unat a - unat b"
  by (rule unat_sub)

text \<open>An unsigned sum that is smaller than a summand has wrapped around, and only then.\<close>

lemma drop_bit_measure:
  "0 < unat (v :: 'a::len word) \<Longrightarrow> 0 < n \<Longrightarrow> (drop_bit n v, v) \<in> measure unat"
  using div_less_dividend [of "2 ^ n" "unat v"] one_less_power [of "2 :: nat" n]
  by (simp add: unat_drop_bit_nat)

lemma quotient_eq: "q * d + r = n \<Longrightarrow> r < d \<Longrightarrow> n div d = (q :: nat)"
  by auto

lemma add_carry_iff:
  "(a + b :: 'a::len word) < a \<longleftrightarrow> 2 ^ LENGTH('a) \<le> unat a + unat b"
  by (metis no_plus_overflow_unat_size not_le word_size)

lemma unat_of_nat_less: "n < 2 ^ LENGTH('a) \<Longrightarrow> unat (of_nat n :: 'a::len word) = n"
  by (simp add: unat_of_nat)

lemma unat_eqI: "unat a = unat b \<Longrightarrow> a = (b :: 'a::len word)"
  by (simp add: word_unat_eq_iff)

section \<open>Sums of words\<close>

text \<open>The sum a loop \<open>total += x\<close> computes is the sum of the values modulo the width.\<close>

lemma unat_fold_add:
  "unat (fold (\<lambda>x acc. acc + f x) xs (a :: 'a::len word))
     = (unat a + (\<Sum>x\<leftarrow>xs. unat (f x))) mod 2 ^ LENGTH('a)"
proof (induction xs arbitrary: a)
  case Nil
  then show ?case by simp
next
  case (Cons x xs)
  have "unat (fold (\<lambda>x acc. acc + f x) (x # xs) a)
      = (unat (a + f x) + (\<Sum>x\<leftarrow>xs. unat (f x))) mod 2 ^ LENGTH('a)"
    by (simp add: Cons.IH)
  also have "\<dots> = (unat a + unat (f x) + (\<Sum>x\<leftarrow>xs. unat (f x))) mod 2 ^ LENGTH('a)"
    by (simp add: unat_add_mod mod_add_left_eq)
  finally show ?case by (simp add: add.assoc)
qed

section \<open>Lists\<close>

lemma takeWhile_all_True: "\<forall>x\<in>set xs. P x \<Longrightarrow> takeWhile P xs = xs"
  by simp

lemma sorted_takeWhile_filter:
  "sorted (map f xs) \<Longrightarrow> takeWhile (\<lambda>x. f x \<le> k) xs = filter (\<lambda>x. f x \<le> k) xs"
proof (induction xs)
  case (Cons x xs)
  show ?case
  proof (cases "f x \<le> k")
    case True
    then show ?thesis using Cons by simp
  next
    case False
    then have "\<forall>y\<in>set xs. \<not> f y \<le> k" using Cons.prems by fastforce
    then show ?thesis using False by simp
  qed
qed simp

lemma sorted_le_last: "sorted (map f xs) \<Longrightarrow> x \<in> set xs \<Longrightarrow> f x \<le> f (last xs)"
  by (induction xs) (auto simp: last_in_set split: if_splits)

lemma decreasing_last: "sorted_wrt (>) xs \<Longrightarrow> x \<in> set xs \<Longrightarrow> last xs \<le> (x :: 'a::linorder)"
proof (induction xs)
  case (Cons y xs)
  then show ?case by (cases "xs = []") (auto intro: less_imp_le)
qed simp

section \<open>Undoable updates\<close>

text \<open>
  Several containers of the node are changed when a block or transaction is pushed and must be
  restored exactly when it is popped. The interface: a fallible \<open>push\<close>, a \<open>pop\<close> that gets the
  same argument (some ignore it) and an invariant \<open>inv n s\<close> with room for \<open>n\<close> further pushes.
  What clients need is that popping in reverse order undoes any successful sequence of pushes.
\<close>

fun run_ops :: "('x \<Rightarrow> 's \<Rightarrow> 's option) \<Rightarrow> 'x list \<Rightarrow> 's \<Rightarrow> 's option" where
  "run_ops f [] s = Some s"
| "run_ops f (x # xs) s = (case f x s of None \<Rightarrow> None | Some s' \<Rightarrow> run_ops f xs s')"

lemma run_ops_append:
  "run_ops f (xs @ ys) s = (case run_ops f xs s of None \<Rightarrow> None | Some s' \<Rightarrow> run_ops f ys s')"
  by (induction xs arbitrary: s) (auto split: option.splits)

locale undo_stack =
  fixes inv :: "nat \<Rightarrow> 's \<Rightarrow> bool"
    and push :: "'x \<Rightarrow> 's \<Rightarrow> 's option"
    and pop :: "'x \<Rightarrow> 's \<Rightarrow> 's option"
  assumes push_inv: "inv (Suc n) s \<Longrightarrow> push x s = Some s' \<Longrightarrow> inv n s'"
    and pop_push: "inv (Suc n) s \<Longrightarrow> push x s = Some s' \<Longrightarrow> pop x s' = Some s"
begin

lemma run_push_inv:
  "inv (n + length xs) s \<Longrightarrow> run_ops push xs s = Some s' \<Longrightarrow> inv n s'"
  by (induction xs arbitrary: s) (auto split: option.splits dest: push_inv)

lemma undo_all:
  "inv (length xs) s \<Longrightarrow> run_ops push xs s = Some s' \<Longrightarrow> run_ops pop (rev xs) s' = Some s"
proof (induction xs arbitrary: s)
  case Nil
  then show ?case by simp
next
  case (Cons x xs)
  then obtain t where t: "push x s = Some t" "run_ops push xs t = Some s'"
    by (auto split: option.splits)
  with Cons.prems(1) have "inv (length xs) t" by (auto dest: push_inv)
  with Cons.IH t have "run_ops pop (rev xs) s' = Some t" by blast
  moreover have "pop x t = Some s" using Cons.prems(1) t(1) by (auto dest: pop_push)
  ultimately show ?case by (simp add: run_ops_append)
qed

end

end
