(* ===== verification/IntUtil.thy ===== *)
theory IntUtil
  imports Prelude
begin

text \<open>
  The 128-bit helpers of \<open>src/Common/int-util.h\<close>: \<open>mul128\<close> multiplies two 64-bit values by
  the schoolbook method on 32-bit halves, \<open>div128_32\<close> is long division in base \<open>2 ^ 32\<close>.
  The out-parameters of the C code are components of the result.
\<close>

definition hi_dword :: "u64 \<Rightarrow> u64" where
  "hi_dword val = drop_bit 32 val"

definition lo_dword :: "u64 \<Rightarrow> u64" where
  "lo_dword val = val AND 0xFFFFFFFF"

text \<open>\<open>mul128 multiplier multiplicand\<close> returns \<open>(product_lo, product_hi)\<close>.\<close>

definition mul128 :: "u64 \<Rightarrow> u64 \<Rightarrow> u64 \<times> u64" where
  "mul128 multiplier multiplicand =
    (let a = hi_dword multiplier; b = lo_dword multiplier;
         c = hi_dword multiplicand; d = lo_dword multiplicand;
         ac = a * c; ad = a * d; bc = b * c; bd = b * d;
         adbc = ad + bc;
         adbc_carry = (if adbc < ad then 1 else 0);
         product_lo = bd + push_bit 32 adbc;
         product_lo_carry = (if product_lo < bd then 1 else 0);
         product_hi = ac + drop_bit 32 adbc + push_bit 32 adbc_carry + product_lo_carry
     in (product_lo, product_hi))"

text \<open>\<open>div_with_reminder dividend divisor remainder\<close> returns \<open>(quotient, remainder)\<close>.\<close>

definition div_with_reminder :: "u64 \<Rightarrow> u32 \<Rightarrow> u32 \<Rightarrow> u64 \<times> u32" where
  "div_with_reminder dividend divisor remainder =
    (let dividend = dividend OR push_bit 32 (ucast remainder)
     in (dividend div ucast divisor, ucast (dividend mod ucast divisor)))"

text \<open>\<open>div128_32\<close> returns \<open>(remainder, quotient_hi, quotient_lo)\<close>.\<close>

definition div128_32 :: "u64 \<Rightarrow> u64 \<Rightarrow> u32 \<Rightarrow> u32 \<times> u64 \<times> u64" where
  "div128_32 dividend_hi dividend_lo divisor =
    (let (q3, r3) = div_with_reminder (hi_dword dividend_hi) divisor 0;
         (q2, r2) = div_with_reminder (lo_dword dividend_hi) divisor r3;
         (q1, r1) = div_with_reminder (hi_dword dividend_lo) divisor r2;
         (q0, r0) = div_with_reminder (lo_dword dividend_lo) divisor r1
     in (r0, push_bit 32 q3 OR q2, push_bit 32 q1 OR q0))"

section \<open>Halves\<close>

lemma unat_hi_dword: "unat (hi_dword v) = unat v div 2 ^ 32"
  by (simp only: hi_dword_def unat_drop_bit_nat)

lemma lo_dword_take_bit: "lo_dword v = take_bit 32 v"
  by (simp add: lo_dword_def take_bit_eq_mask mask_eq_exp_minus_1)

lemma unat_lo_dword: "unat (lo_dword v) = unat v mod 2 ^ 32"
  by (simp only: lo_dword_take_bit unat_take_bit_nat)

lemma hi_dword_less: "unat (hi_dword v) < 2 ^ 32"
  using unat_le_max64 [of v] by (simp only: unat_hi_dword) auto

lemma lo_dword_less: "unat (lo_dword v) < 2 ^ 32"
  by (simp only: unat_lo_dword) simp

lemma dword_split: "unat v = unat (hi_dword v) * 2 ^ 32 + unat (lo_dword v)"
  by (simp only: unat_hi_dword unat_lo_dword) simp

section \<open>Multiplication\<close>

text \<open>The product of two 32-bit halves fits in 64 bits with room for one more carry.\<close>

lemma half_product_less:
  fixes x y :: nat
  assumes "x < 2 ^ 32" and "y < 2 ^ 32"
  shows "x * y \<le> (2 ^ 32 - 1) * (2 ^ 32 - 1)"
  using assms by (intro mult_le_mono) auto

lemma unat_half_product:
  "unat (a :: u64) < 2 ^ 32 \<Longrightarrow> unat b < 2 ^ 32 \<Longrightarrow> unat (a * b) = unat a * unat b"
proof (rule unat_mult_exact)
  assume "unat a < 2 ^ 32" "unat b < 2 ^ 32"
  then have "unat a * unat b \<le> (2 ^ 32 - 1) * (2 ^ 32 - 1)" by (rule half_product_less)
  then show "unat a * unat b < 2 ^ LENGTH(64)" by simp
qed

text \<open>A carry: the wrapped sum and the test "smaller than a summand" recover the exact sum.\<close>

lemma carry_recovers_sum:
  fixes x y M :: nat
  assumes "x < M" and "y < M"
  shows "x + y = (if (x + y) mod M < x then 1 else 0) * M + (x + y) mod M"
proof (cases "x + y < M")
  case True
  then show ?thesis by simp
next
  case False
  with assms have "(x + y) mod M = x + y - M" by (simp add: mod_if)
  with False assms show ?thesis by simp
qed

text \<open>
  The arithmetic core, over natural numbers: adding the cross terms \<open>ad + bc\<close> with its carry
  and the low product with its carry gives the exact 128-bit product.
\<close>

lemma mul128_nat:
  fixes ac ad bc bd B :: nat
  assumes B: "0 < B" and ad: "ad < B * B" and bc: "bc < B * B" and bd: "bd < B * B"
    and s: "s = (ad + bc) mod (B * B)" and c1: "c1 = (if s < ad then 1 else 0)"
    and lo: "lo = (bd + (s * B) mod (B * B)) mod (B * B)"
    and c2: "c2 = (if lo < bd then 1 else 0)"
  shows "(ac + s div B + c1 * B + c2) * (B * B) + lo = ac * (B * B) + (ad + bc) * B + bd"
proof -
  have 1: "ad + bc = c1 * (B * B) + s"
    using carry_recovers_sum [OF ad bc] by (simp add: s c1)
  have "(s * B) mod (B * B) < B * B" using B by simp
  then have 3: "bd + (s * B) mod (B * B) = c2 * (B * B) + lo"
    using carry_recovers_sum [OF bd] by (simp add: lo c2)
  have 4: "s * B = (s div B) * (B * B) + (s * B) mod (B * B)"
    using div_mult_mod_eq [of "s * B" "B * B"] B by simp
  have "(ac + s div B + c1 * B + c2) * (B * B) + lo
      = ac * (B * B) + c1 * (B * B) * B + (s div B) * (B * B) + (c2 * (B * B) + lo)"
    by (simp add: algebra_simps)
  also have "\<dots> = ac * (B * B) + c1 * (B * B) * B + s * B + bd"
    using 3 4 by linarith
  also have "\<dots> = ac * (B * B) + (c1 * (B * B) + s) * B + bd"
    by (simp add: algebra_simps)
  finally show ?thesis using 1 by simp
qed

lemma unat_mult_split:
  fixes m n :: u64
  defines "B \<equiv> (2 :: nat) ^ 32"
  shows "unat m * unat n = unat (hi_dword m) * unat (hi_dword n) * (B * B)
    + (unat (hi_dword m) * unat (lo_dword n) + unat (lo_dword m) * unat (hi_dword n)) * B
    + unat (lo_dword m) * unat (lo_dword n)"
proof -
  have "unat m = unat (hi_dword m) * B + unat (lo_dword m)"
    and "unat n = unat (hi_dword n) * B + unat (lo_dword n)"
    unfolding B_def by (rule dword_split)+
  then show ?thesis by (simp only:) (simp add: algebra_simps)
qed

lemma mul128_exact:
  assumes "mul128 m n = (lo, hi)"
  shows "unat hi * 2 ^ 64 + unat lo = unat m * unat n"
proof -
  define B where "B = (2 :: nat) ^ 32"
  have BB: "B * B = 2 ^ LENGTH(64)" and B0: "0 < B" by (simp_all add: B_def)
  define a b c d where defs: "a = hi_dword m" "b = lo_dword m" "c = hi_dword n" "d = lo_dword n"
  have lt: "unat a < B" "unat b < B" "unat c < B" "unat d < B"
    unfolding B_def defs by (rule hi_dword_less lo_dword_less)+
  have prod: "unat (x * y) = unat x * unat y" "unat x * unat y < B * B"
    if "unat x < B" "unat y < B" for x y :: u64
    using that unat_half_product [of x y] mult_strict_mono [of "unat x" B "unat y" B] B0
    by (simp_all only: B_def)
  define s where "s = a * d + b * c"
  have us: "unat s = (unat a * unat d + unat b * unat c) mod (B * B)"
    by (simp only: s_def unat_add_mod prod lt BB)
  define c1 :: nat where "c1 = (if unat s < unat a * unat d then 1 else 0)"
  have lo: "lo = b * d + push_bit 32 s"
    and hi: "hi = a * c + drop_bit 32 s + push_bit 32 (if s < a * d then 1 else 0)
                  + (if lo < b * d then 1 else 0)"
    using assms by (auto simp only: mul128_def Let_def defs s_def prod.inject)
  have ulo: "unat lo = (unat b * unat d + (unat s * B) mod (B * B)) mod (B * B)"
    by (simp only: lo unat_add_mod prod lt BB unat_push_bit_nat B_def [symmetric])
  define c2 :: nat where "c2 = (if unat lo < unat b * unat d then 1 else 0)"
  have carry1: "unat (push_bit 32 (if s < a * d then 1 else (0 :: u64))) = c1 * B"
    by (simp add: c1_def B_def word_less_nat_alt prod(1) [OF lt(1,4)])
  have carry2: "unat (if lo < b * d then 1 else (0 :: u64)) = c2"
    by (simp add: c2_def word_less_nat_alt prod(1) [OF lt(2,4)])
  have uhi: "unat hi = (unat a * unat c + unat s div B + c1 * B + c2) mod (B * B)"
    by (simp only: hi unat_add_mod prod lt unat_drop_bit_nat carry1 carry2 BB B_def [symmetric]
        mod_add_left_eq)
  have core: "(unat a * unat c + unat s div B + c1 * B + c2) * (B * B) + unat lo = unat m * unat n"
    using mul128_nat [OF B0 prod(2) [OF lt(1,4)] prod(2) [OF lt(2,3)] prod(2) [OF lt(2,4)] us
        c1_def ulo c2_def, of "unat a * unat c"]
      unat_mult_split [of m n] by (simp only: defs B_def [symmetric])
  have "unat m * unat n < (B * B) * (B * B)"
    unfolding BB using unat_le_max [of m] unat_le_max [of n]
    by (intro mult_strict_mono) simp_all
  then have "(unat a * unat c + unat s div B + c1 * B + c2) * (B * B) < (B * B) * (B * B)"
    using core by linarith
  then have "unat a * unat c + unat s div B + c1 * B + c2 < B * B"
    using mult_less_cancel2 by blast
  then have "unat hi = unat a * unat c + unat s div B + c1 * B + c2"
    by (simp only: uhi mod_less)
  then show ?thesis using core BB by simp
qed

lemma mul128_lo:
  assumes "mul128 m n = (lo, hi)"
  shows "unat lo = unat m * unat n mod 2 ^ 64"
proof -
  have "unat lo < 2 ^ 64" using unat_le_max [of lo] by simp
  then have "(unat hi * 2 ^ 64 + unat lo) mod 2 ^ 64 = unat lo" by (simp only: mod_mult_self3 mod_less)
  then show ?thesis by (simp only: mul128_exact [OF assms])
qed

lemma mul128_hi:
  assumes "mul128 m n = (lo, hi)"
  shows "unat hi = unat m * unat n div 2 ^ 64"
proof -
  have "unat lo < 2 ^ 64" using unat_le_max [of lo] by simp
  then have "(unat hi * 2 ^ 64 + unat lo) div 2 ^ 64 = unat hi" by simp
  then show ?thesis by (simp only: mul128_exact [OF assms])
qed

section \<open>Long division\<close>

text \<open>A value below \<open>2 ^ n\<close> shares no bit with one shifted left by \<open>n\<close>: OR is addition.\<close>

lemma or_push_bit_eq_add:
  fixes x y :: "'a::len word"
  assumes "unat x < 2 ^ n"
  shows "x OR push_bit n y = x + push_bit n y"
proof (rule disjunctive_add_eq_or [symmetric], rule bit_eqI)
  fix k
  have x: "take_bit n x = x"
    using assms by (metis mod_less unat_take_bit_nat unat_eqI)
  show "bit (x AND push_bit n y) k = bit 0 k"
    by (subst x [symmetric]) (auto simp: bit_simps)
qed

lemma unat_or_push_bit:
  fixes x y :: "'a::len word"
  assumes "unat x < 2 ^ n" and "unat x + unat y * 2 ^ n < 2 ^ LENGTH('a)"
  shows "unat (x OR push_bit n y) = unat x + unat y * 2 ^ n"
  using assms by (simp only: or_push_bit_eq_add unat_add_mod unat_push_bit_nat) simp

lemma div_with_reminder_exact:
  assumes "div_with_reminder x d r = (q, r')" and "unat x < 2 ^ 32" and "unat r < unat d"
  shows "unat r * 2 ^ 32 + unat x = unat q * unat d + unat r'"
    and "unat r' < unat d" and "unat q < 2 ^ 32"
proof -
  define v where "v = x OR push_bit 32 (ucast r :: u64)"
  have "unat r * 2 ^ 32 \<le> (2 ^ 32 - 1) * 2 ^ 32" using unat_le_max32 [of r] by simp
  then have v: "unat v = unat x + unat r * 2 ^ 32"
    unfolding v_def using assms(2) by (subst unat_or_push_bit) simp_all
  have q: "q = v div ucast d" and r': "r' = ucast (v mod ucast d :: u64)"
    using assms(1) by (simp_all add: div_with_reminder_def v_def Let_def)
  have uq: "unat q = unat v div unat d" by (simp add: q unat_div_nat)
  have "unat v mod unat d < 2 ^ 32"
    using assms(3) unat_le_max32 [of d]
    by (intro order.strict_trans [OF mod_less_divisor]) simp_all
  then have ur: "unat r' = unat v mod unat d"
    by (simp add: r' unat_ucast_nat unat_mod_nat)
  show "unat r * 2 ^ 32 + unat x = unat q * unat d + unat r'"
    using v uq ur by (simp add: div_mult_mod_eq)
  show "unat r' < unat d" using assms(3) ur by simp
  have "unat v < (unat r + 1) * 2 ^ 32" using v assms(2) by simp
  also have "\<dots> \<le> unat d * 2 ^ 32" using assms(3) by (intro mult_le_mono1) simp
  finally have "unat v < 2 ^ 32 * unat d" by (simp add: mult.commute)
  then show "unat q < 2 ^ 32"
    using uq less_mult_imp_div_less by metis
qed

lemma div128_32_exact:
  assumes "div128_32 hi lo d = (r, qhi, qlo)" and "d \<noteq> 0"
  shows "unat hi * 2 ^ 64 + unat lo = (unat qhi * 2 ^ 64 + unat qlo) * unat d + unat r"
    and "unat r < unat d"
proof -
  obtain q3 r3 where s3: "div_with_reminder (hi_dword hi) d 0 = (q3, r3)" by (meson surj_pair)
  obtain q2 r2 where s2: "div_with_reminder (lo_dword hi) d r3 = (q2, r2)" by (meson surj_pair)
  obtain q1 r1 where s1: "div_with_reminder (hi_dword lo) d r2 = (q1, r1)" by (meson surj_pair)
  obtain q0 r0 where s0: "div_with_reminder (lo_dword lo) d r1 = (q0, r0)" by (meson surj_pair)
  have d: "unat (0 :: u32) < unat d" using assms(2) by (simp add: unat_gt_0)
  note e3 = div_with_reminder_exact [OF s3 hi_dword_less d]
  note e2 = div_with_reminder_exact [OF s2 lo_dword_less e3(2)]
  note e1 = div_with_reminder_exact [OF s1 hi_dword_less e2(2)]
  note e0 = div_with_reminder_exact [OF s0 lo_dword_less e1(2)]
  have eqs: "r = r0" "qhi = q2 OR push_bit 32 q3" "qlo = q0 OR push_bit 32 q1"
    using assms(1) by (auto simp: div128_32_def s3 s2 s1 s0 or.commute)
  have join: "unat (x OR push_bit 32 y) = unat x + unat y * 2 ^ 32"
    if "unat x < 2 ^ 32" "unat y < 2 ^ 32" for x y :: u64
    using that by (intro unat_or_push_bit) simp_all
  have "unat hi = unat (hi_dword hi) * 2 ^ 32 + unat (lo_dword hi)"
    and "unat lo = unat (hi_dword lo) * 2 ^ 32 + unat (lo_dword lo)"
    by (rule dword_split)+
  moreover have "unat qhi = unat q2 + unat q3 * 2 ^ 32" "unat qlo = unat q0 + unat q1 * 2 ^ 32"
    unfolding eqs by (rule join [OF e2(3) e3(3)], rule join [OF e0(3) e1(3)])
  ultimately show "unat hi * 2 ^ 64 + unat lo = (unat qhi * 2 ^ 64 + unat qlo) * unat d + unat r"
    using e3(1) e2(1) e1(1) e0(1) by (simp add: eqs(1) algebra_simps)
  show "unat r < unat d" using e0(2) by (simp add: eqs(1))
qed

section \<open>Properties\<close>

text \<open>
  C23. The portable 64 by 64 multiplication is exact: the two result words are the
  128-bit product, although the cross sum \<open>adbc\<close> and the low word may both wrap. The function's
  assertion on \<open>product_hi\<close> holds for every input.
\<close>

theorem mul128_correct:
  "case mul128 m n of (product_lo, product_hi) \<Rightarrow>
     unat product_hi * 2 ^ 64 + unat product_lo = unat m * unat n
     \<and> hi_dword m * hi_dword n \<le> product_hi"
proof -
  obtain lo hi where r: "mul128 m n = (lo, hi)" by (meson surj_pair)
  note exact = mul128_exact [OF r]
  have "unat (hi_dword m * hi_dword n) = unat (hi_dword m) * unat (hi_dword n)"
    by (rule unat_half_product) (rule hi_dword_less)+
  also have "\<dots> * 2 ^ 64 = (unat (hi_dword m) * 2 ^ 32) * (unat (hi_dword n) * 2 ^ 32)" by simp
  also have "\<dots> \<le> unat m * unat n"
    by (rule mult_le_mono) (metis dword_split le_add1)+
  finally have "unat (hi_dword m * hi_dword n) * 2 ^ 64 \<le> unat hi * 2 ^ 64 + unat lo"
    using exact by simp
  then have "unat (hi_dword m * hi_dword n) \<le> unat hi" using unat_le_max64 [of lo] by simp
  with r exact show ?thesis by (simp add: word_le_nat_alt)
qed

text \<open>
  C24. Dividing a 128-bit number by a non-zero 32-bit divisor with \<open>div128_32\<close>
  gives the exact 128-bit quotient and a remainder below the divisor.
\<close>

theorem div128_32_correct:
  assumes "divisor \<noteq> 0"
  shows "case div128_32 dividend_hi dividend_lo divisor of (remainder, quotient_hi, quotient_lo) \<Rightarrow>
     unat dividend_hi * 2 ^ 64 + unat dividend_lo
       = (unat quotient_hi * 2 ^ 64 + unat quotient_lo) * unat divisor + unat remainder
     \<and> unat remainder < unat divisor"
  by (cases "div128_32 dividend_hi dividend_lo divisor") (use div128_32_exact assms in auto)

theorem div128_32_correct_witness:
  "(7 :: u32) \<noteq> 0
    \<and> (case div128_32 5 100 7 of (remainder, quotient_hi, quotient_lo) \<Rightarrow>
         5 * 2 ^ 64 + 100 = (unat quotient_hi * 2 ^ 64 + unat quotient_lo) * 7 + unat remainder
         \<and> unat remainder < 7)"
  using div128_32_correct [of 7 5 100] by simp

end
