(* ===== verification/Varint.thy ===== *)
theory Varint
  imports IntUtil
begin

text \<open>
  Variable-length integers: the stream readers and writers of \<open>src/Common/StreamTools.cpp\<close>
  (used by the binary serializers) and the iterator versions of \<open>src/Common/Varint.h\<close> (used by
  the address codec and the transaction extra field). The four \<open>readVarint\<close> overloads differ
  in the width of their result only and are one function on \<open>'a word\<close>. The abstract encoding
  they all implement is \<open>varint_bytes\<close>.
\<close>

datatype varint_error = ReadFailed | ValueOverflow | UnrepresentableValue

function writeVarint :: "u64 \<Rightarrow> u8 list" where
  "writeVarint value =
    (if 0x80 \<le> value then ucast (value OR 0x80) # writeVarint (drop_bit 7 value)
     else [ucast value])"
  by pat_completeness auto
termination
  by (relation "measure unat") (simp, rule drop_bit_measure, auto simp: word_le_nat_alt)

declare writeVarint.simps [simp del]

function writeVarint32 :: "u32 \<Rightarrow> u8 list" where
  "writeVarint32 value =
    (if 0x80 \<le> value then ucast (value OR 0x80) # writeVarint32 (drop_bit 7 value)
     else [ucast value])"
  by pat_completeness auto
termination
  by (relation "measure unat") (simp, rule drop_bit_measure, auto simp: word_le_nat_alt)

declare writeVarint32.simps [simp del]

text \<open>
  The loop of \<open>readVarint\<close>: \<open>shift\<close> and \<open>temp\<close> are its local variables, the byte list is the
  rest of the input stream. \<open>sizeof(temp) * 8\<close> is the width of the result.
\<close>

fun readVarint_loop :: "nat \<Rightarrow> 'a::len word \<Rightarrow> u8 list \<Rightarrow> varint_error + 'a word \<times> u8 list" where
  "readVarint_loop shift temp [] = Inl ReadFailed"
| "readVarint_loop shift temp (piece # rest) =
    (if LENGTH('a) - 7 \<le> shift \<and> 2 ^ (LENGTH('a) - shift) \<le> unat piece then Inl ValueOverflow
     else
       let temp = temp OR push_bit shift (ucast (piece AND 0x7f)) in
       if piece AND 0x80 = 0 then
         if piece = 0 \<and> shift \<noteq> 0 then Inl UnrepresentableValue else Inr (temp, rest)
       else readVarint_loop (shift + 7) temp rest)"

definition readVarint :: "u8 list \<Rightarrow> varint_error + 'a::len word \<times> u8 list" where
  "readVarint bytes = readVarint_loop 0 0 bytes"

text \<open>\<open>write_varint\<close> of \<open>Varint.h\<close> at \<open>T = uint64_t\<close>.\<close>

function write_varint :: "u64 \<Rightarrow> u8 list" where
  "write_varint i =
    (if 0x80 \<le> i then ((ucast i AND 0x7f) OR 0x80) # write_varint (drop_bit 7 i)
     else [ucast i])"
  by pat_completeness auto
termination
  by (relation "measure unat") (simp, rule drop_bit_measure, auto simp: word_le_nat_alt)

declare write_varint.simps [simp del]

definition get_varint_data :: "u64 \<Rightarrow> u8 list" where
  "get_varint_data v = write_varint v"

text \<open>
  \<open>read_varint<bits>\<close> of \<open>Varint.h\<close> at \<open>bits = digits\<close>: the returned count (-1 overflow,
  -2 non-canonical), the value accumulated in \<open>i\<close> and the iterator \<open>first\<close>.
\<close>

fun read_varint_loop ::
    "nat \<Rightarrow> int \<Rightarrow> 'a::len word \<Rightarrow> u8 list \<Rightarrow> int \<times> 'a word \<times> u8 list" where
  "read_varint_loop shift read i [] = (read, i, [])"
| "read_varint_loop shift read i (byte # first) =
    (if LENGTH('a) \<le> shift + 7 \<and> 2 ^ (LENGTH('a) - shift) \<le> unat byte then (-1, i, first)
     else if byte = 0 \<and> shift \<noteq> 0 then (-2, i, first)
     else
       let i = i OR push_bit shift (ucast (byte AND 0x7f)) in
       if byte AND 0x80 = 0 then (read + 1, i, first)
       else read_varint_loop (shift + 7) (read + 1) i first)"

definition read_varint :: "u8 list \<Rightarrow> int \<times> 'a::len word \<times> u8 list" where
  "read_varint bytes = read_varint_loop 0 0 0 bytes"

section \<open>The encoding\<close>

fun varint_bytes :: "nat \<Rightarrow> u8 list" where
  "varint_bytes n =
    (if n < 128 then [of_nat n] else of_nat (128 + n mod 128) # varint_bytes (n div 128))"

declare varint_bytes.simps [simp del]

lemma varint_bytes_small: "n < 128 \<Longrightarrow> varint_bytes n = [of_nat n]"
  by (subst varint_bytes.simps) simp

lemma varint_bytes_large:
  "128 \<le> n \<Longrightarrow> varint_bytes n = of_nat (128 + n mod 128) # varint_bytes (n div 128)"
  by (subst varint_bytes.simps) simp


text \<open>The byte written while more groups follow: seven bits and the continuation bit.\<close>

lemma bit_80: "bit (0x80 :: 'a::len word) n \<longleftrightarrow> n = 7 \<and> n < LENGTH('a)"
  using bit_exp_iff [where ?'a = "'a word", of 7 n] by (auto simp: possible_bit_def)

lemma mask_7: "(0x7f :: u8) = mask 7"
  by (simp add: mask_eq_exp_minus_1)

lemma byte_or_80: "(x :: u8) OR 0x80 = (x AND 0x7f) + 0x80"
proof -
  have "x OR 0x80 = (x AND 0x7f) OR 0x80"
    unfolding mask_7
    by (rule bit_word_eqI) (simp only: bit_or_iff bit_and_iff bit_mask_iff bit_80, auto)
  also have "\<dots> = (x AND 0x7f) + 0x80"
    by (rule disjunctive_add_eq_or [symmetric]) (simp add: and.assoc)
  finally show ?thesis .
qed

lemma unat_and_7f: "unat ((x :: u8) AND 0x7f) = unat x mod 128"
proof -
  have "x AND 0x7f = take_bit 7 x"
    by (simp add: take_bit_eq_mask mask_eq_exp_minus_1)
  then show ?thesis by (simp only: unat_take_bit_nat) simp
qed

lemma unat_byte_or_80: "unat ((x :: u8) OR 0x80) = 128 + unat x mod 128"
proof -
  have "unat (x AND 0x7f) + unat (0x80 :: u8) < 2 ^ LENGTH(8)"
    by (simp add: unat_and_7f)
  then show ?thesis unfolding byte_or_80 by (simp add: unat_add_exact unat_and_7f)
qed

lemma continuation_bit_iff: "(x :: u8) AND 0x80 = 0 \<longleftrightarrow> unat x < 128"
proof -
  have "x AND 0x80 = 0 \<longleftrightarrow> \<not> bit x 7"
    by (subst bit_eq_iff) (simp only: bit_and_iff bit_80 bit_0_eq, auto dest: spec [of _ 7])
  also have "bit x 7 \<longleftrightarrow> odd (unat x div 2 ^ 7)"
    using bit_unsigned_iff [where ?'a = nat, of x 7] bit_iff_odd [of "unat x" 7] by simp
  also have "\<not> odd (unat x div 2 ^ 7) \<longleftrightarrow> unat x < 128"
  proof -
    have "unat x div 128 = 0 \<or> unat x div 128 = 1" using unat_le_max8 [of x] by simp linarith
    then show ?thesis by auto
  qed
  finally show ?thesis .
qed

lemma group_byte:
  fixes v :: "'a::len word"
  shows "(ucast v OR 0x80 :: u8) = of_nat (128 + unat v mod 128)"
proof (rule unat_eqI)
  have "unat (of_nat (128 + unat v mod 128) :: u8) = 128 + unat v mod 128"
    by (rule unat_of_nat_less) simp
  moreover have "unat (ucast v :: u8) mod 128 = unat v mod 128"
    by (simp add: unat_ucast_nat mod_mod_cancel)
  ultimately show "unat (ucast v OR 0x80 :: u8) = unat (of_nat (128 + unat v mod 128) :: u8)"
    by (simp only: unat_byte_or_80)
qed

lemma ucast_or_80:
  "8 \<le> LENGTH('a) \<Longrightarrow> (ucast ((v :: 'a::len word) OR 0x80) :: u8) = ucast v OR 0x80"
  by (subst bit_eq_iff) (simp only: bit_or_iff bit_ucast_iff bit_80, auto)

lemma and_7f_or_80: "((x :: u8) AND 0x7f) OR 0x80 = x OR 0x80"
  unfolding mask_7 by (rule bit_word_eqI) (simp only: bit_or_iff bit_and_iff bit_mask_iff bit_80, auto)

lemma last_byte: "unat v < 128 \<Longrightarrow> (ucast v :: u8) = of_nat (unat v)"
  by (rule unat_eqI) (simp add: unat_ucast_nat unat_of_nat)

lemma ucast_group_byte:
  "ucast ((v :: u64) OR 0x80) = (of_nat (128 + unat v mod 128) :: u8)"
  "ucast ((w :: u32) OR 0x80) = (of_nat (128 + unat w mod 128) :: u8)"
  by (simp_all only: group_byte [symmetric], simp_all add: ucast_or_80)

lemma varint_cond [simp]:
  "0x80 \<le> (v :: u64) \<longleftrightarrow> 128 \<le> unat v" "0x80 \<le> (w :: u32) \<longleftrightarrow> 128 \<le> unat w"
  by (simp_all add: word_le_nat_alt)

lemma writeVarint_eq: "writeVarint v = varint_bytes (unat v)"
proof (induction v rule: writeVarint.induct)
  case (1 v)
  then show ?case
    by (cases "0x80 \<le> v")
      (simp_all only: writeVarint.simps [of v] varint_bytes_large varint_bytes_small
        varint_cond if_True if_False unat_drop_bit_nat ucast_group_byte last_byte, simp_all)
qed

lemma writeVarint32_eq: "writeVarint32 v = varint_bytes (unat v)"
proof (induction v rule: writeVarint32.induct)
  case (1 v)
  then show ?case
    by (cases "0x80 \<le> v")
      (simp_all only: writeVarint32.simps [of v] varint_bytes_large varint_bytes_small
        varint_cond if_True if_False unat_drop_bit_nat ucast_group_byte last_byte, simp_all)
qed

lemma write_varint_eq: "write_varint v = varint_bytes (unat v)"
proof (induction v rule: write_varint.induct)
  case (1 v)
  then show ?case
    by (cases "0x80 \<le> v")
      (simp_all only: write_varint.simps [of v] varint_bytes_large varint_bytes_small
        varint_cond if_True if_False unat_drop_bit_nat and_7f_or_80 group_byte last_byte, simp_all)
qed

section \<open>Reading back\<close>

lemma no_overflow:
  assumes "n * 2 ^ shift < (2 :: nat) ^ W" shows "n < 2 ^ (W - shift)"
proof (rule ccontr)
  assume "\<not> n < 2 ^ (W - shift)"
  then have "(2 :: nat) ^ (W - shift) * 2 ^ shift \<le> n * 2 ^ shift" by simp
  moreover have "(2 :: nat) ^ W \<le> 2 ^ (W - shift) * 2 ^ shift"
    by (simp flip: power_add)
  ultimately show False using assms by linarith
qed

lemma group_fits:
  assumes "(t :: nat) < 2 ^ shift" and "b < 2 ^ k" and "k + shift \<le> W"
  shows "t + b * 2 ^ shift < 2 ^ (k + shift)" and "t + b * 2 ^ shift < 2 ^ W"
proof -
  have "Suc b * 2 ^ shift \<le> 2 ^ k * 2 ^ shift" using assms by (intro mult_right_mono) auto
  then show *: "t + b * 2 ^ shift < 2 ^ (k + shift)" using assms by (simp add: power_add)
  show "t + b * 2 ^ shift < 2 ^ W"
    using less_le_trans [OF *] assms(3) by (simp add: power_increasing)
qed

lemma unat_group:
  assumes "unat (temp :: 'a::len word) < 2 ^ shift"
    and "unat temp + (unat piece mod 128) * 2 ^ shift < 2 ^ LENGTH('a)"
  shows "unat (temp OR push_bit shift (ucast (piece AND 0x7f :: u8)))
    = unat temp + (unat piece mod 128) * 2 ^ shift"
proof (cases "unat piece mod 128 = 0")
  case True
  then have "piece AND 0x7f = 0" by (metis unat_and_7f unat_eq_zero)
  with True show ?thesis by simp
next
  case False
  then have "unat piece mod 128 \<le> (unat piece mod 128) * 2 ^ shift" by simp
  with assms(2) have "unat piece mod 128 < 2 ^ LENGTH('a)" by linarith
  then have "unat (ucast (piece AND 0x7f) :: 'a word) = unat piece mod 128"
    by (simp add: unat_ucast_nat unat_and_7f)
  with assms show ?thesis by (simp add: unat_or_push_bit)
qed

lemma readVarint_loop_bytes:
  assumes "unat (temp :: 'a::len word) < 2 ^ shift"
    and "unat temp + n * 2 ^ shift < 2 ^ LENGTH('a)" and "shift \<noteq> 0 \<Longrightarrow> n \<noteq> 0"
  shows "\<exists>v. readVarint_loop shift temp (varint_bytes n @ rest) = Inr (v, rest)
    \<and> unat v = unat temp + n * 2 ^ shift"
  using assms
proof (induction n arbitrary: shift temp rule: varint_bytes.induct)
  case (1 n)
  have small: "n * 2 ^ shift < 2 ^ LENGTH('a)" using "1.prems"(2) by simp
  show ?case
  proof (cases "n < 128")
    case True
    define b :: u8 where "b = of_nat n"
    have b: "unat b = n" using True by (simp add: b_def unat_of_nat)
    then have "b AND 0x80 = 0" and "b = 0 \<longrightarrow> shift = 0"
      using True "1.prems"(3) by (auto simp: continuation_bit_iff) (metis neq0_conv)
    moreover have "\<not> 2 ^ (LENGTH('a) - shift) \<le> unat b"
      using no_overflow [OF small] b by simp
    moreover have "unat (temp OR push_bit shift (ucast (b AND 0x7f))) = unat temp + n * 2 ^ shift"
      using unat_group [of temp shift b] "1.prems" b True by simp
    ultimately show ?thesis
      using True by (auto simp: varint_bytes_small Let_def simp flip: b_def)
  next
    case False
    define b :: u8 where "b = of_nat (128 + n mod 128)"
    have b: "unat b = 128 + n mod 128" unfolding b_def by (rule unat_of_nat_less) simp
    then have cont: "b AND 0x80 \<noteq> 0" and bm: "unat b mod 128 = n mod 128"
      by (auto simp: continuation_bit_iff)
    have "shift + 7 < LENGTH('a)"
    proof -
      have "(2 :: nat) ^ (shift + 7) \<le> n * 2 ^ shift" using False by (simp add: power_add)
      with small have "(2 :: nat) ^ (shift + 7) < 2 ^ LENGTH('a)" by linarith
      then show ?thesis by simp
    qed
    then have ok: "\<not> LENGTH('a) - 7 \<le> shift" by simp
    have split: "(n mod 128) * 2 ^ shift + (n div 128) * 2 ^ (shift + 7) = n * 2 ^ shift"
    proof -
      have "(n mod 128) * 2 ^ shift + (n div 128) * 2 ^ (shift + 7)
          = (n div 128 * 128 + n mod 128) * 2 ^ shift"
        by (simp only: add_mult_distrib power_add) simp
      also have "n div 128 * 128 + n mod 128 = n" by (rule div_mult_mod_eq)
      finally show ?thesis .
    qed
    define t where "t = temp OR push_bit shift (ucast (b AND 0x7f))"
    have t: "unat t = unat temp + (n mod 128) * 2 ^ shift"
    proof -
      have "unat temp + (n mod 128) * 2 ^ shift < 2 ^ LENGTH('a)"
        using "1.prems"(2) split by linarith
      then show ?thesis unfolding t_def using unat_group [OF "1.prems"(1), of b] by (simp add: bm)
    qed
    have t2: "unat t < 2 ^ (shift + 7)"
      unfolding t using group_fits(1) [OF "1.prems"(1), of "n mod 128" 7 "shift + 7"]
      by (simp add: add.commute)
    have "unat t + n div 128 * 2 ^ (shift + 7) < 2 ^ LENGTH('a)"
      using "1.prems"(2) t split by linarith
    moreover have "n div 128 \<noteq> 0" using False by simp
    ultimately obtain v
      where v: "readVarint_loop (shift + 7) t (varint_bytes (n div 128) @ rest) = Inr (v, rest)"
        and uv: "unat v = unat t + n div 128 * 2 ^ (shift + 7)"
      using "1.IH" [OF False t2] by blast
    have "readVarint_loop shift temp (varint_bytes n @ rest)
        = readVarint_loop (shift + 7) t (varint_bytes (n div 128) @ rest)"
      using False cont ok by (simp only: varint_bytes_large not_less append_Cons
        readVarint_loop.simps Let_def simp_thms if_False flip: b_def t_def)
    moreover have "unat v = unat temp + n * 2 ^ shift" using uv t split by linarith
    ultimately show ?thesis using v by auto
  qed
qed

lemma group_piece:
  assumes "128 \<le> unat (piece :: u8)" shows "piece = of_nat (128 + unat piece mod 128)"
proof (rule unat_eqI)
  have "unat (of_nat (128 + unat piece mod 128) :: u8) = 128 + unat piece mod 128"
    by (rule unat_of_nat_less) simp
  moreover have "unat piece mod 128 = unat piece - 128"
    using assms unat_le_max8 [of piece] by (simp add: mod_if)
  ultimately show "unat piece = unat (of_nat (128 + unat piece mod 128) :: u8)" using assms by simp
qed

lemma readVarint_loop_canonical:
  assumes "readVarint_loop shift (temp :: 'a::len word) bytes = Inr (v, rest)"
    and "unat temp < 2 ^ shift" and "shift \<le> LENGTH('a)" and "8 \<le> LENGTH('a)"
  shows "\<exists>n. bytes = varint_bytes n @ rest \<and> unat v = unat temp + n * 2 ^ shift
    \<and> (shift \<noteq> 0 \<longrightarrow> n \<noteq> 0)"
  using assms
proof (induction shift temp bytes rule: readVarint_loop.induct)
  case (1 shift temp)
  then show ?case by simp
next
  case (2 shift temp piece bytes)
  define t where "t = temp OR push_bit shift (ucast (piece AND 0x7f))"
  have no: "\<not> (LENGTH('a) - 7 \<le> shift \<and> 2 ^ (LENGTH('a) - shift) \<le> unat piece)"
    using "2.prems"(1) by (auto split: if_splits)
  show ?case
  proof (cases "piece AND 0x80 = 0")
    case True
    then have p: "unat piece < 128" by (simp add: continuation_bit_iff)
    then have "unat temp + unat piece * 2 ^ shift < 2 ^ LENGTH('a)"
    proof (cases "LENGTH('a) - 7 \<le> shift")
      case True
      with no "2.prems"(3) show ?thesis
        by (intro group_fits(2) [OF "2.prems"(2), of _ "LENGTH('a) - shift"]) auto
    next
      case False
      with p show ?thesis by (intro group_fits(2) [OF "2.prems"(2), of _ 7]) auto
    qed
    then have "unat t = unat temp + unat piece * 2 ^ shift"
      unfolding t_def using unat_group [OF "2.prems"(2), of piece] p by simp
    moreover have "v = t" "bytes = rest" "shift \<noteq> 0 \<longrightarrow> unat piece \<noteq> 0"
      using "2.prems"(1) no True by (auto simp: Let_def t_def unat_eq_zero split: if_splits)
    ultimately show ?thesis using p by (intro exI [of _ "unat piece"]) (simp add: varint_bytes_small)
  next
    case False
    then have p: "128 \<le> unat piece" by (simp add: continuation_bit_iff)
    have shift: "shift + 7 \<le> LENGTH('a)"
    proof (rule ccontr)
      assume "\<not> shift + 7 \<le> LENGTH('a)"
      then have "(2 :: nat) ^ (LENGTH('a) - shift) \<le> 2 ^ 7" by (intro power_increasing) auto
      with p no \<open>\<not> shift + 7 \<le> LENGTH('a)\<close> show False by auto
    qed
    have "unat piece mod 128 < 2 ^ 7" by simp
    note fits = group_fits [OF "2.prems"(2) this, of "LENGTH('a)"]
    have t: "unat t = unat temp + (unat piece mod 128) * 2 ^ shift"
      unfolding t_def using unat_group [OF "2.prems"(2), of piece] fits(2) shift
      by (simp add: add.commute)
    have tb: "unat t < 2 ^ (shift + 7)"
      unfolding t using fits(1) shift by (simp add: add.commute)
    have "readVarint_loop (shift + 7) t bytes = Inr (v, rest)"
      using "2.prems"(1) no False by (auto simp: Let_def t_def split: if_splits)
    then obtain n where n: "bytes = varint_bytes n @ rest" "unat v = unat t + n * 2 ^ (shift + 7)" "n \<noteq> 0"
      using "2.IH" [OF no t_def False] tb shift "2.prems"(4) by auto
    define m where "m = unat piece mod 128 + 128 * n"
    have m: "m mod 128 = unat piece mod 128" "m div 128 = n" "128 \<le> m"
      using n(3) by (auto simp: m_def)
    have "piece = of_nat (128 + m mod 128)" unfolding m by (rule group_piece [OF p])
    then have "piece # bytes = varint_bytes m @ rest"
      using m n by (simp add: varint_bytes_large)
    moreover have "unat v = unat temp + m * 2 ^ shift"
      unfolding n(2) t m_def by (simp only: add_mult_distrib power_add) simp
    ultimately show ?thesis using m(3) by (intro exI [of _ m]) auto
  qed
qed

lemma readVarint_writes:
  assumes "n < 2 ^ LENGTH('a::len)"
  shows "readVarint (varint_bytes n @ rest) = Inr (of_nat n :: 'a word, rest)"
proof -
  obtain v :: "'a word" where v: "readVarint_loop 0 0 (varint_bytes n @ rest) = Inr (v, rest)"
      and "unat v = n"
    using readVarint_loop_bytes [of "0 :: 'a word" 0 n rest] assms by auto
  then have "v = of_nat n" by auto
  with v show ?thesis by (simp add: readVarint_def)
qed

lemma readVarint_sound:
  assumes "readVarint bytes = Inr (v :: 'a::len word, rest)" and "8 \<le> LENGTH('a)"
  shows "bytes = varint_bytes (unat v) @ rest"
  using readVarint_loop_canonical [OF assms(1) [unfolded readVarint_def]] assms(2) by auto

text \<open>The iterator reader and the stream reader take the same decisions byte by byte.\<close>

lemma read_varint_loop_ok:
  "readVarint_loop shift (i :: 'a::len word) bytes = Inr (v, rest) \<Longrightarrow>
    read_varint_loop shift k i bytes = (k + int (length bytes) - int (length rest), v, rest)"
  by (induction shift i bytes arbitrary: k rule: readVarint_loop.induct)
    (auto simp: Let_def le_diff_conv split: if_splits)

lemma read_varint_loop_overflow:
  "readVarint_loop shift (i :: 'a::len word) bytes = Inl ValueOverflow \<Longrightarrow>
    fst (read_varint_loop shift k i bytes) = -1"
  by (induction shift i bytes arbitrary: k rule: readVarint_loop.induct)
    (auto simp: Let_def le_diff_conv split: if_splits)

lemma read_varint_loop_unrepresentable:
  "readVarint_loop shift (i :: 'a::len word) bytes = Inl UnrepresentableValue \<Longrightarrow>
    fst (read_varint_loop shift k i bytes) = -2"
  by (induction shift i bytes arbitrary: k rule: readVarint_loop.induct)
    (auto simp: Let_def le_diff_conv split: if_splits)

lemma read_varint_loop_truncated:
  "readVarint_loop shift (i :: 'a::len word) bytes = Inl ReadFailed \<Longrightarrow>
    fst (read_varint_loop shift k i bytes) = k + int (length bytes)"
  by (induction shift i bytes arbitrary: k rule: readVarint_loop.induct)
    (auto simp: Let_def le_diff_conv split: if_splits)

lemmas read_varint_loop_cases = read_varint_loop_ok read_varint_loop_overflow
  read_varint_loop_unrepresentable read_varint_loop_truncated

lemma readVarint_iff:
  "8 \<le> LENGTH('a::len) \<Longrightarrow>
    readVarint bytes = Inr (v :: 'a word, rest) \<longleftrightarrow> bytes = varint_bytes (unat v) @ rest"
  using readVarint_writes [of "unat v" rest, where ?'a = 'a] readVarint_sound [of bytes v rest]
    unat_le_max [of v] by auto

section \<open>Properties\<close>

text \<open>
  C25. Reading a 64-bit varint succeeds with value \<open>v\<close> and remaining input
  \<open>rest\<close> exactly when the input is what \<open>writeVarint\<close> writes for \<open>v\<close> followed by \<open>rest\<close>. This is
  the round trip, and it says that the encoding is unique: no other byte sequence is read as \<open>v\<close>.
\<close>

theorem readVarint_correct:
  "readVarint bytes = Inr (v :: u64, rest) \<longleftrightarrow> bytes = writeVarint v @ rest"
  by (simp add: readVarint_iff writeVarint_eq)

text \<open>
  C26. The iterator reader of \<open>Varint.h\<close> agrees with the stream reader on
  complete input and on both error codes, but on input that ends before the last group it
  returns the number of bytes consumed (a success code when it is positive), where the stream
  reader fails.
\<close>

theorem read_varint_agrees:
  "case (readVarint bytes :: varint_error + u64 \<times> u8 list) of
     Inr (v, rest) \<Rightarrow> read_varint bytes = (int (length bytes) - int (length rest), v, rest)
   | Inl ValueOverflow \<Rightarrow> fst (read_varint bytes :: int \<times> u64 \<times> u8 list) = -1
   | Inl UnrepresentableValue \<Rightarrow> fst (read_varint bytes :: int \<times> u64 \<times> u8 list) = -2
   | Inl ReadFailed \<Rightarrow> fst (read_varint bytes :: int \<times> u64 \<times> u8 list) = int (length bytes)"
  unfolding readVarint_def read_varint_def
  by (auto split: sum.splits varint_error.splits dest: read_varint_loop_cases [where k = 0])

end
