(* ===== verification/Bytes.thy ===== *)
theory Bytes
  imports Prelude
begin

text \<open>
  Little-endian byte images of plain-old-data values, as the serializers, the hex helpers and the
  hash functions see them.
\<close>

fun le_nat :: "u8 list \<Rightarrow> nat" where
  "le_nat [] = 0"
| "le_nat (b # bs) = unat b + 256 * le_nat bs"

fun le_bytes :: "nat \<Rightarrow> nat \<Rightarrow> u8 list" where
  "le_bytes 0 v = []"
| "le_bytes (Suc n) v = of_nat (v mod 256) # le_bytes n (v div 256)"

definition pod_bytes :: "'a::len word \<Rightarrow> u8 list" where
  "pod_bytes w = le_bytes (LENGTH('a) div 8) (unat w)"

definition pod_of_bytes :: "u8 list \<Rightarrow> 'a::len word" where
  "pod_of_bytes bs = of_nat (le_nat bs)"

lemma length_le_bytes [simp]: "length (le_bytes n v) = n"
  by (induction n arbitrary: v) simp_all

lemma unat_of_nat_byte [simp]: "unat (of_nat (v mod 256) :: u8) = v mod 256"
  by (rule unat_of_nat_less) simp

lemma le_nat_le_bytes: "le_nat (le_bytes n v) = v mod 256 ^ n"
  by (induction n arbitrary: v) (simp_all add: mod_mult2_eq add.commute)

lemma le_bytes_le_nat: "le_bytes (length bs) (le_nat bs) = bs"
proof (induction bs)
  case (Cons b bs)
  have "unat b < 256" by (rule unat_le_max8)
  then have "(unat b + 256 * le_nat bs) mod 256 = unat b"
    and "(unat b + 256 * le_nat bs) div 256 = le_nat bs" by simp_all
  with Cons show ?case by simp
qed simp

lemma le_nat_less: "le_nat bs < 256 ^ length bs"
proof (induction bs)
  case (Cons b bs)
  then have "256 * Suc (le_nat bs) \<le> 256 * 256 ^ length bs" by (intro mult_le_mono2) simp
  with unat_le_max8 [of b] show ?case by simp
qed simp

lemma length_pod_bytes [simp]: "length (pod_bytes (w :: 'a::len word)) = LENGTH('a) div 8"
  by (simp add: pod_bytes_def)

lemma pow_256: "8 dvd n \<Longrightarrow> (256 :: nat) ^ (n div 8) = 2 ^ n"
  using power_mult [of "2 :: nat" 8 "n div 8"] by simp

lemma pod_of_pod_bytes:
  assumes "8 dvd LENGTH('a::len)"
  shows "pod_of_bytes (pod_bytes (w :: 'a word)) = w"
proof -
  have "(256 :: nat) ^ (LENGTH('a) div 8) = 2 ^ LENGTH('a)"
    using assms by (rule pow_256)
  then show ?thesis
    by (simp add: pod_bytes_def pod_of_bytes_def le_nat_le_bytes unat_le_max)
qed

lemma pod_bytes_of_bytes:
  assumes "length bs = LENGTH('a::len) div 8" and "8 dvd LENGTH('a)"
  shows "pod_bytes (pod_of_bytes bs :: 'a word) = bs"
proof -
  have "(256 :: nat) ^ (LENGTH('a) div 8) = 2 ^ LENGTH('a)"
    using assms(2) by (rule pow_256)
  then have "unat (of_nat (le_nat bs) :: 'a word) = le_nat bs"
    using le_nat_less [of bs] assms(1) by (simp add: unat_of_nat_less)
  then show ?thesis
    unfolding pod_bytes_def pod_of_bytes_def using le_bytes_le_nat [of bs] assms(1) by simp
qed

end
