(* ===== verification/String_Tools.thy ===== *)
theory String_Tools
  imports Bytes "HOL-Library.Char_ord"
begin

text \<open>
  Hexadecimal text and field extraction of \<open>src/Common/StringTools.cpp\<close>. A \<open>std::string\<close> is a
  character list; the overloads that return \<open>false\<close> and those that throw fail on the same
  inputs and are one function into an option.
\<close>

definition characterValues :: "u8 list" where
  "characterValues =
     replicate 48 0xff @ [0, 1, 2, 3, 4, 5, 6, 7, 8, 9] @ replicate 7 0xff
     @ [0x0a, 0x0b, 0x0c, 0x0d, 0x0e, 0x0f] @ replicate 26 0xff
     @ [0x0a, 0x0b, 0x0c, 0x0d, 0x0e, 0x0f] @ replicate 153 0xff"

definition fromHex_char :: "char \<Rightarrow> u8 option" where
  "fromHex_char character =
    (let v = characterValues ! of_char character in if 0x0f < v then None else Some v)"

fun fromHex_loop :: "string \<Rightarrow> u8 list option" where
  "fromHex_loop (c1 # c2 # text) =
    (case fromHex_char c1 of
       None \<Rightarrow> None
     | Some value1 \<Rightarrow>
         (case fromHex_char c2 of
            None \<Rightarrow> None
          | Some value2 \<Rightarrow>
              map_option ((#) (push_bit 4 value1 OR value2)) (fromHex_loop text)))"
| "fromHex_loop text = Some []"

definition fromHex :: "string \<Rightarrow> u8 list option" where
  "fromHex text = (if odd (length text) then None else fromHex_loop text)"

definition fromHex_buffer :: "string \<Rightarrow> nat \<Rightarrow> (u8 list \<times> nat) option" where
  "fromHex_buffer text bufferSize =
    (if odd (length text) then None
     else if bufferSize < length text div 2 then None
     else map_option (\<lambda>data. (data, length text div 2)) (fromHex_loop text))"

definition podFromHex :: "string \<Rightarrow> 'a::len word option" where
  "podFromHex text =
    (case fromHex_buffer text (LENGTH('a) div 8) of
       None \<Rightarrow> None
     | Some (data, outSize) \<Rightarrow> if outSize = LENGTH('a) div 8 then Some (pod_of_bytes data) else None)"

definition hex_digits :: string where
  "hex_digits = ''0123456789abcdef''"

fun toHex :: "u8 list \<Rightarrow> string" where
  "toHex [] = []"
| "toHex (b # data) = hex_digits ! unat (drop_bit 4 b) # hex_digits ! unat (b AND 15) # toHex data"

definition podToHex :: "'a::len word \<Rightarrow> string" where
  "podToHex s = toHex (pod_bytes s)"

text \<open>\<open>extract(text, delimiter)\<close>: the field before the delimiter, and what is left in \<open>text\<close>.\<close>

definition extract_field :: "string \<Rightarrow> char \<Rightarrow> string \<times> string" where
  "extract_field text delimiter =
    (let delimiterPosition = length (takeWhile (\<lambda>c. c \<noteq> delimiter) text) in
     if delimiterPosition \<noteq> length text
     then (take delimiterPosition text, drop (delimiterPosition + 1) text)
     else (text, []))"

text \<open>\<open>extract(text, delimiter, offset)\<close>: the returned field and the new offset.\<close>

definition extract_at :: "string \<Rightarrow> char \<Rightarrow> nat \<Rightarrow> string \<times> nat" where
  "extract_at text delimiter offset =
    (let delimiterPosition = offset + length (takeWhile (\<lambda>c. c \<noteq> delimiter) (drop offset text)) in
     if delimiterPosition < length text
     then (take delimiterPosition (drop (delimiterPosition + 1) text), delimiterPosition + 1)
     else (drop (length text) text, length text))"

section \<open>Hexadecimal round trips\<close>

lemma hex_nibble: "n < 16 \<Longrightarrow> fromHex_char (hex_digits ! n) = Some (of_nat n)"
proof -
  have "list_all (\<lambda>n. fromHex_char (hex_digits ! n) = Some (of_nat n)) [0..<16]"
    by (simp add: fromHex_char_def hex_digits_def characterValues_def upt_rec nth_append)
  then show "n < 16 \<Longrightarrow> fromHex_char (hex_digits ! n) = Some (of_nat n)"
    by (simp add: list_all_iff)
qed

lemma nibbles: "push_bit 4 (drop_bit 4 b) OR (b AND 15) = (b :: u8)"
proof -
  have "(15 :: u8) = mask 4" by (simp add: mask_eq_exp_minus_1)
  then show ?thesis
    by (simp only: flip: take_bit_eq_mask) (rule bit_word_eqI, auto simp: bit_simps)
qed

lemma nibble_bounds: "unat (drop_bit 4 (b :: u8)) < 16" "unat ((b :: u8) AND 15) < 16"
proof -
  show "unat (drop_bit 4 b) < 16" using unat_le_max8 [of b] by (simp add: unat_drop_bit_nat)
  have "(15 :: u8) = mask 4" by (simp add: mask_eq_exp_minus_1)
  then have "b AND 15 = take_bit 4 b" by (simp only: flip: take_bit_eq_mask)
  then show "unat (b AND 15) < 16" by (simp only: unat_take_bit_nat) simp
qed

lemma length_toHex [simp]: "length (toHex bs) = 2 * length bs"
  by (induction bs) simp_all

lemma fromHex_loop_toHex: "fromHex_loop (toHex bs) = Some bs"
  by (induction bs) (simp_all add: hex_nibble nibble_bounds nibbles)

lemma fromHex_loop_Some:
  "fromHex_loop text = Some bs \<Longrightarrow> even (length text) \<Longrightarrow> length bs = length text div 2"
  by (induction "text" arbitrary: bs rule: fromHex_loop.induct) (auto split: option.splits)

lemma podFromHex_podToHex:
  assumes "8 dvd LENGTH('a::len)" shows "podFromHex (podToHex (w :: 'a word)) = Some w"
  using pod_of_pod_bytes [OF assms, of w]
  by (simp add: podFromHex_def podToHex_def fromHex_buffer_def fromHex_loop_toHex)

lemma podFromHex_length:
  "podFromHex text = Some (w :: 'a::len word) \<Longrightarrow> length text = 2 * (LENGTH('a) div 8)"
  by (auto simp: podFromHex_def fromHex_buffer_def split: option.splits if_splits)

section \<open>Field extraction\<close>

text \<open>
  The two-argument version splits at the first delimiter. The version with an offset moves the
  offset before it takes the substring, so it returns the text after the delimiter.
\<close>

lemma extract_field_splits:
  assumes "delimiter \<notin> set field"
  shows "extract_field (field @ delimiter # text) delimiter = (field, text)"
proof -
  have "takeWhile (\<lambda>c. c \<noteq> delimiter) (field @ delimiter # text) = field"
    using assms by (subst takeWhile_append2) auto
  then show ?thesis by (simp add: extract_field_def)
qed

lemma extract_at_skips_field:
  assumes "delimiter \<notin> set field"
  shows "extract_at (pre @ field @ delimiter # text) delimiter (length pre)
    = (take (length pre + length field) text, length pre + length field + 1)"
proof -
  have "takeWhile (\<lambda>c. c \<noteq> delimiter) (field @ delimiter # text) = field"
    using assms by (subst takeWhile_append2) auto
  then show ?thesis by (simp add: extract_at_def Let_def)
qed

section \<open>Properties\<close>

text \<open>
  Hexadecimal text round-trips: decoding the hex text of any byte list gives
  the bytes, and a 256-bit hash printed with \<open>podToHex\<close> is read back by \<open>podFromHex\<close>.
\<close>

theorem hex_round_trip:
  "fromHex (toHex data) = Some data \<and> podFromHex (podToHex (h :: Hash)) = Some h"
  by (simp add: fromHex_def fromHex_loop_toHex podFromHex_podToHex)

end
