(* ===== verification/Checkpoint_List.thy ===== *)
theory Checkpoint_List
  imports String_Tools
begin

text \<open>
  The checkpoints of \<open>src/CryptoNoteCore/Checkpoints.cpp\<close>. The \<open>std::map\<close> of checkpoints is a list
  of pairs in ascending order of height, which is its invariant. The lists of checkpoints that the
  node compiles in are arguments.
\<close>

record Checkpoints =
  cp_testnet :: bool
  cp_points :: "(u32 \<times> Hash) list"

definition CRYPTONOTE_MINED_MONEY_UNLOCK_WINDOW :: u64 where
  "CRYPTONOTE_MINED_MONEY_UNLOCK_WINDOW = 10"

definition add_checkpoint :: "u32 \<Rightarrow> string \<Rightarrow> Checkpoints \<Rightarrow> bool \<times> Checkpoints" where
  "add_checkpoint height hash_str cp =
    (case podFromHex hash_str of
       None \<Rightarrow> (False, cp)
     | Some h \<Rightarrow>
         if map_of (cp_points cp) height \<noteq> None then (False, cp)
         else (True, cp\<lparr>cp_points := insort_key fst (height, h) (cp_points cp)\<rparr>))"

definition is_in_checkpoint_zone :: "u32 \<Rightarrow> Checkpoints \<Rightarrow> bool" where
  "is_in_checkpoint_zone height cp \<longleftrightarrow> cp_points cp \<noteq> [] \<and> height \<le> fst (last (cp_points cp))"

text \<open>\<open>check_block\<close>: the result and the output parameter \<open>is_a_checkpoint\<close>.\<close>

definition check_block :: "u32 \<Rightarrow> Hash \<Rightarrow> Checkpoints \<Rightarrow> bool \<times> bool" where
  "check_block height h cp =
    (case map_of (cp_points cp) height of
       None \<Rightarrow> (True, False)
     | Some expected \<Rightarrow> if expected = h then (True, True) else (False, True))"

definition check_block_simple :: "u32 \<Rightarrow> Hash \<Rightarrow> Checkpoints \<Rightarrow> bool" where
  "check_block_simple height h cp = fst (check_block height h cp)"

definition is_alternative_block_allowed :: "u32 \<Rightarrow> u32 \<Rightarrow> Checkpoints \<Rightarrow> bool" where
  "is_alternative_block_allowed blockchain_height block_height cp =
    (if block_height = 0 then False
     else
       let lowest_height = ucast (ucast blockchain_height - CRYPTONOTE_MINED_MONEY_UNLOCK_WINDOW);
           lowest_height = (if ucast blockchain_height < CRYPTONOTE_MINED_MONEY_UNLOCK_WINDOW then 0
             else lowest_height) in
       if block_height < lowest_height \<and> \<not> is_in_checkpoint_zone block_height cp then False
       else
         let below = takeWhile (\<lambda>p. \<not> blockchain_height < fst p) (cp_points cp) in
         if below = [] then True
         else
           let checkpoint_height = fst (last below) in
           checkpoint_height < block_height)"

definition getCheckpointHeights :: "Checkpoints \<Rightarrow> u32 list" where
  "getCheckpointHeights cp = map fst (cp_points cp)"

definition load_checkpoints ::
    "(u32 \<times> string) list \<Rightarrow> (u32 \<times> string) list \<Rightarrow> Checkpoints \<Rightarrow> bool \<times> Checkpoints" where
  "load_checkpoints TESTNET_CHECKPOINTS CHECKPOINTS cp =
    (let data = (if cp_testnet cp then TESTNET_CHECKPOINTS else CHECKPOINTS) in
     (True, fold (\<lambda>p cp. snd (add_checkpoint (fst p) (snd p) cp)) data cp))"

text \<open>
  The records of a DNS answer and the lines of a file, as pairs of a height and the text of a hash:
  the lookup, the file and the parsing of the number are left out. A record with a bad hash or for
  a known height is skipped; a line that cannot be added ends the reading of the file.
\<close>

definition load_checkpoints_from_dns :: "(u32 \<times> string) list \<Rightarrow> Checkpoints \<Rightarrow> Checkpoints" where
  "load_checkpoints_from_dns records cp =
    fold (\<lambda>(height, hash_str) cp.
      if podFromHex hash_str = (None :: Hash option) then cp
      else if map_of (cp_points cp) height \<noteq> None then cp
      else snd (add_checkpoint height hash_str cp)) records cp"

fun load_checkpoints_from_file :: "(u32 \<times> string) list \<Rightarrow> Checkpoints \<Rightarrow> bool \<times> Checkpoints" where
  "load_checkpoints_from_file [] cp = (True, cp)"
| "load_checkpoints_from_file ((height, hash_str) # records) cp =
    (let (added, cp) = add_checkpoint height hash_str cp in
     if \<not> added then (False, cp) else load_checkpoints_from_file records cp)"

definition set_testnet :: "bool \<Rightarrow> Checkpoints \<Rightarrow> Checkpoints" where
  "set_testnet testnet cp = cp\<lparr>cp_testnet := testnet\<rparr>"

definition cp_wf :: "Checkpoints \<Rightarrow> bool" where
  "cp_wf cp \<longleftrightarrow> sorted (map fst (cp_points cp)) \<and> distinct (map fst (cp_points cp))"

section \<open>Invariant and lookup\<close>

lemma map_of_insort_key:
  "k \<notin> fst ` set xs \<Longrightarrow> map_of (insort_key fst (k, v) xs) = (map_of xs)(k \<mapsto> v)"
  by (induction xs) (auto simp: fun_eq_iff)

lemma add_checkpoint_points:
  "map_of (cp_points (snd (add_checkpoint height hash_str cp))) =
    (case podFromHex hash_str of
       None \<Rightarrow> map_of (cp_points cp)
     | Some h \<Rightarrow> if map_of (cp_points cp) height = None then (map_of (cp_points cp))(height \<mapsto> h)
         else map_of (cp_points cp))"
  by (auto simp: add_checkpoint_def map_of_insort_key map_of_eq_None_iff split: option.splits)

lemma distinct_insort_fst:
  "distinct (map fst (insort_key fst p xs)) \<longleftrightarrow> fst p \<notin> fst ` set xs \<and> distinct (map fst xs)"
  by (induction xs) (auto simp: set_insort_key)

lemma add_checkpoint_wf: "cp_wf cp \<Longrightarrow> cp_wf (snd (add_checkpoint height hash_str cp))"
  by (auto simp: add_checkpoint_def cp_wf_def sorted_insort_key distinct_insort_fst
      map_of_eq_None_iff split: option.splits)

lemma add_checkpoint_testnet [simp]:
  "cp_testnet (snd (add_checkpoint height hash_str cp)) = cp_testnet cp"
  by (simp add: add_checkpoint_def split: option.splits)

lemma load_wf:
  "cp_wf cp \<Longrightarrow> cp_wf (fold (\<lambda>p cp. snd (add_checkpoint (fst p) (snd p) cp)) data cp)"
  by (induction data arbitrary: cp) (simp_all add: add_checkpoint_wf)

lemma load_dns_wf: "cp_wf cp \<Longrightarrow> cp_wf (load_checkpoints_from_dns records cp)"
  unfolding load_checkpoints_from_dns_def by (induction records arbitrary: cp) (auto simp: add_checkpoint_wf)

text \<open>Checkpoints that are there are kept: neither source replaces one.\<close>

lemma add_checkpoint_keeps:
  "map_of (cp_points cp) h = Some x \<Longrightarrow> map_of (cp_points (snd (add_checkpoint height hash_str cp))) h = Some x"
  by (auto simp: add_checkpoint_points split: option.splits)

lemma load_dns_keeps:
  "map_of (cp_points cp) h = Some x \<Longrightarrow> map_of (cp_points (load_checkpoints_from_dns records cp)) h = Some x"
  unfolding load_checkpoints_from_dns_def
  by (induction records arbitrary: cp) (auto simp: add_checkpoint_keeps)

lemma load_file_keeps:
  "map_of (cp_points cp) h = Some x \<Longrightarrow> map_of (cp_points (snd (load_checkpoints_from_file records cp))) h = Some x"
proof (induction records cp rule: load_checkpoints_from_file.induct)
  case (2 height hash_str records cp)
  then show ?case
    using add_checkpoint_keeps [of cp h x height hash_str] by (cases "add_checkpoint height hash_str cp") auto
qed simp

text \<open>What a loaded list contributes: the first entry of each height whose hash parses.\<close>

definition first_valid :: "(u32 \<times> string) list \<Rightarrow> u32 \<Rightarrow> Hash option" where
  "first_valid data height =
    (case filter (\<lambda>p. fst p = height \<and> podFromHex (snd p) \<noteq> (None :: Hash option)) data of
       [] \<Rightarrow> None | p # _ \<Rightarrow> podFromHex (snd p))"

lemma load_points:
  "map_of (cp_points (fold (\<lambda>p cp. snd (add_checkpoint (fst p) (snd p) cp)) data cp)) height =
    (case map_of (cp_points cp) height of Some h \<Rightarrow> Some h | None \<Rightarrow> first_valid data height)"
proof (induction data arbitrary: cp)
  case Nil
  then show ?case by (simp add: first_valid_def split: option.splits)
next
  case (Cons p data)
  show ?case
    by (cases "podFromHex (snd p) :: Hash option"; cases "map_of (cp_points cp) height")
      (auto simp: Cons.IH add_checkpoint_points first_valid_def split: option.splits)
qed

section \<open>Reorganisation depth\<close>

lemma last_below:
  assumes "sorted (map fst xs)" and "takeWhile (\<lambda>p. \<not> b < fst p) xs = ys"
  shows "(ys = [] \<or> fst (last ys) < (h :: u32)) \<longleftrightarrow> (\<forall>p\<in>set xs. fst p \<le> b \<longrightarrow> fst p < h)"
proof -
  have f: "ys = filter (\<lambda>p. fst p \<le> b) xs"
    using sorted_takeWhile_filter [OF assms(1), of b] assms(2) by (simp add: not_less)
  have s: "sorted (map fst ys)" unfolding f using assms(1) by (rule sorted_filter)
  have "\<forall>p\<in>set ys. fst p \<le> fst (last ys)"
    using sorted_le_last [OF s] by blast
  then have "(ys = [] \<or> fst (last ys) < h) \<longleftrightarrow> (\<forall>p\<in>set ys. fst p < h)"
    by (auto intro: le_less_trans)
  then show ?thesis by (auto simp: f)
qed

lemma zone_iff:
  "cp_wf cp \<Longrightarrow> is_in_checkpoint_zone h cp \<longleftrightarrow> (\<exists>p\<in>set (cp_points cp). h \<le> fst p)"
proof -
  assume wf: "cp_wf cp"
  have "\<forall>p\<in>set (cp_points cp). fst p \<le> fst (last (cp_points cp))"
    using wf sorted_le_last [of fst "cp_points cp"] by (simp add: cp_wf_def)
  then show ?thesis
    by (auto simp: is_in_checkpoint_zone_def intro: order_trans last_in_set)
qed

lemma lowest_height_iff:
  "(h :: u32) < (if (ucast (b :: u32) :: u64) < 10 then 0 else ucast (ucast b - 10 :: u64))
    \<longleftrightarrow> unat h + 10 < unat b"
proof (cases "(ucast b :: u64) < 10")
  case True
  then have "unat b < 10" by (simp add: word_less_nat_alt)
  with True show ?thesis by simp
next
  case False
  then have ge: "10 \<le> unat b" by (simp add: word_less_nat_alt)
  have "unat (ucast b - 10 :: u64) = unat b - 10"
    using False by (subst unat_sub_exact) (simp_all add: not_less)
  then have "unat (ucast (ucast b - 10 :: u64) :: u32) = unat b - 10"
    using unat_le_max32 [of b] by (simp add: unat_ucast_nat)
  with False ge show ?thesis by (simp add: word_less_nat_alt) linarith
qed

section \<open>Properties\<close>

text \<open>
  Loading a list of checkpoints keeps the map ordered with one entry
  per height, never changes a checkpoint that was already set, and otherwise stores the first
  entry of the list for that height whose hash text is valid; \<open>check_block\<close> then accepts a block
  at a checkpointed height exactly when its hash is the stored one, and every block elsewhere.
\<close>

theorem checkpoints_first_wins:
  assumes "cp_wf cp" and "load_checkpoints testnet mainnet cp = (r, cp')"
  shows "cp_wf cp' \<and> r
    \<and> (\<forall>height h. check_block height h cp' =
        (case (case map_of (cp_points cp) height of
                 Some old \<Rightarrow> Some old
               | None \<Rightarrow> first_valid (if cp_testnet cp then testnet else mainnet) height) of
           None \<Rightarrow> (True, False) | Some expected \<Rightarrow> (expected = h, True)))"
proof -
  have cp': "cp' = fold (\<lambda>p cp. snd (add_checkpoint (fst p) (snd p) cp))
      (if cp_testnet cp then testnet else mainnet) cp" and r
    using assms(2) by (auto simp: load_checkpoints_def Let_def)
  then show ?thesis
    using assms(1) by (auto simp: load_wf check_block_def load_points split: option.splits)
qed

theorem checkpoints_first_wins_witness:
  "cp_wf (snd (load_checkpoints [] [(5, podToHex (7 :: Hash)), (5, podToHex (8 :: Hash))]
      \<lparr>cp_testnet = False, cp_points = []\<rparr>))"
  using checkpoints_first_wins
    [of "\<lparr>cp_testnet = False, cp_points = []\<rparr>" "[]" "[(5, podToHex (7 :: Hash)), (5, podToHex (8 :: Hash))]",
      OF _ surjective_pairing]
  by (simp add: cp_wf_def)

text \<open>
  C30. An alternative block is allowed exactly when it is not at height
  0, it is at most ten blocks below the current height or inside the checkpoint zone, and it lies
  above every checkpoint that the main chain has reached. The 32-bit subtraction that computes the
  lowest height never matters when it wraps.
\<close>

theorem alternative_block_rule:
  assumes "cp_wf cp"
  shows "is_alternative_block_allowed blockchain_height block_height cp \<longleftrightarrow>
    block_height \<noteq> 0
    \<and> (unat blockchain_height \<le> unat block_height + 10
        \<or> (\<exists>p\<in>set (cp_points cp). block_height \<le> fst p))
    \<and> (\<forall>p\<in>set (cp_points cp). fst p \<le> blockchain_height \<longrightarrow> fst p < block_height)"
proof -
  have s: "sorted (map fst (cp_points cp))" using assms by (simp add: cp_wf_def)
  have "is_alternative_block_allowed blockchain_height block_height cp \<longleftrightarrow>
    block_height \<noteq> 0 \<and> \<not> (unat block_height + 10 < unat blockchain_height
        \<and> \<not> is_in_checkpoint_zone block_height cp)
    \<and> (takeWhile (\<lambda>p. \<not> blockchain_height < fst p) (cp_points cp) = []
      \<or> fst (last (takeWhile (\<lambda>p. \<not> blockchain_height < fst p) (cp_points cp))) < block_height)"
    by (simp only: is_alternative_block_allowed_def CRYPTONOTE_MINED_MONEY_UNLOCK_WINDOW_def
        lowest_height_iff Let_def) auto
  then show ?thesis
    using last_below [OF s refl, of blockchain_height block_height] zone_iff [OF assms]
    by (simp add: not_less)
qed

theorem alternative_block_rule_witness:
  "\<not> is_alternative_block_allowed 100 50 \<lparr>cp_testnet = False, cp_points = [(60, 1), (90, 2)]\<rparr>
   \<and> is_alternative_block_allowed 100 95 \<lparr>cp_testnet = False, cp_points = [(60, 1), (90, 2)]\<rparr>"
  using alternative_block_rule [of "\<lparr>cp_testnet = False, cp_points = [(60, 1), (90, 2)]\<rparr>" 100 50]
    alternative_block_rule [of "\<lparr>cp_testnet = False, cp_points = [(60, 1), (90, 2)]\<rparr>" 100 95]
  by (simp add: cp_wf_def)

end
