(* ===== verification/Block_Index.thy ===== *)
theory Block_Index
  imports Prelude
begin

text \<open>
  The height index of \<open>src/CryptoNoteCore/BlockIndex.h\<close> and \<open>BlockIndex.cpp\<close>: the hashes of the
  main chain by height, with the unique hash lookup of the multi-index container. The container
  is the list of hashes; that they are distinct is its invariant. A failed assertion, and
  \<open>back\<close> or \<open>pop\<close> on an empty container, is \<open>None\<close>.
\<close>

type_synonym BlockIndex = "Hash list"

definition BlockIndex_push :: "Hash \<Rightarrow> BlockIndex \<Rightarrow> bool \<times> BlockIndex" where
  "BlockIndex_push h c = (if h \<in> set c then (False, c) else (True, c @ [h]))"

definition BlockIndex_pop :: "BlockIndex \<Rightarrow> BlockIndex option" where
  "BlockIndex_pop c = (if c = [] then None else Some (butlast c))"

definition hasBlock :: "Hash \<Rightarrow> BlockIndex \<Rightarrow> bool" where
  "hasBlock h c \<longleftrightarrow> h \<in> set c"

fun position :: "'a \<Rightarrow> 'a list \<Rightarrow> nat option" where
  "position h [] = None"
| "position h (x # xs) = (if x = h then Some 0 else map_option Suc (position h xs))"

definition getBlockHeight :: "Hash \<Rightarrow> BlockIndex \<Rightarrow> u32 option" where
  "getBlockHeight h c = map_option of_nat (position h c)"

definition BlockIndex_size :: "BlockIndex \<Rightarrow> u32" where
  "BlockIndex_size c = of_nat (length c)"

definition BlockIndex_getBlockId :: "u32 \<Rightarrow> BlockIndex \<Rightarrow> Hash option" where
  "BlockIndex_getBlockId height c = (if unat height < length c then Some (c ! unat height) else None)"

definition getBlockIds :: "u32 \<Rightarrow> u32 \<Rightarrow> BlockIndex \<Rightarrow> Hash list" where
  "getBlockIds startBlockIndex maxCount c =
    (if length c \<le> unat startBlockIndex then []
     else
       let count = min (unat maxCount) (length c - unat startBlockIndex) in
       map (\<lambda>i. c ! (unat startBlockIndex + i)) [0..<count])"

fun findSupplement :: "Hash list \<Rightarrow> BlockIndex \<Rightarrow> u32 option" where
  "findSupplement [] c = None"
| "findSupplement (h # ids) c =
    (case getBlockHeight h c of Some offset \<Rightarrow> Some offset | None \<Rightarrow> findSupplement ids c)"

text \<open>The loop \<open>for (i = 1; i <= sparseChainEnd; i *= 2)\<close>; \<open>i\<close> starts at 1 and never is 0.\<close>

function sparse_loop :: "BlockIndex \<Rightarrow> nat \<Rightarrow> nat \<Rightarrow> Hash list" where
  "sparse_loop c sparseChainEnd i =
    (if 0 < i \<and> i \<le> sparseChainEnd
     then c ! (sparseChainEnd - i) # sparse_loop c sparseChainEnd (i * 2) else [])"
  by pat_completeness auto
termination by (relation "measure (\<lambda>(c, e, i). Suc e - i)") auto

declare sparse_loop.simps [simp del]

definition buildSparseChain :: "Hash \<Rightarrow> BlockIndex \<Rightarrow> Hash list option" where
  "buildSparseChain startBlockId c =
    (if startBlockId \<notin> set c then None
     else
       let result = (case getBlockHeight startBlockId c of
           None \<Rightarrow> []
         | Some startBlockHeight \<Rightarrow>
             let sparseChainEnd = unat (startBlockHeight + 1) in sparse_loop c sparseChainEnd 1) in
       if result = [] then None
       else if last result \<noteq> c ! 0 then Some (result @ [c ! 0])
       else Some result)"

definition BlockIndex_getTailId :: "BlockIndex \<Rightarrow> Hash option" where
  "BlockIndex_getTailId c = (if c = [] then None else Some (last c))"

section \<open>Lookup\<close>

lemma position_Some: "position h xs = Some i \<Longrightarrow> i < length xs \<and> xs ! i = h"
  by (induction xs arbitrary: i) (auto split: if_splits)

lemma position_None: "position h xs = None \<longleftrightarrow> h \<notin> set xs"
  by (induction xs) auto

lemma position_nth: "distinct xs \<Longrightarrow> i < length xs \<Longrightarrow> position (xs ! i) xs = Some i"
proof (induction xs arbitrary: i)
  case (Cons x xs)
  then show ?case by (cases i) auto
qed simp

lemma getBlockHeight_Some:
  assumes "getBlockHeight h c = Some n" and "length c \<le> 2 ^ 32"
  shows "unat n < length c" and "c ! unat n = h"
proof -
  obtain i where i: "position h c = Some i" "n = of_nat i"
    using assms(1) by (auto simp: getBlockHeight_def)
  then have "i < length c" "c ! i = h" using position_Some [OF i(1)] by auto
  moreover from this have "unat n = i" using i assms(2) by (simp add: unat_of_nat)
  ultimately show "unat n < length c" "c ! unat n = h" by auto
qed

lemma getBlockHeight_nth:
  "distinct c \<Longrightarrow> i < length c \<Longrightarrow> getBlockHeight (c ! i) c = Some (of_nat i)"
  by (simp add: getBlockHeight_def position_nth)

lemma getBlockHeight_None: "getBlockHeight h c = None \<longleftrightarrow> h \<notin> set c"
  by (simp add: getBlockHeight_def position_None)

lemma findSupplement_Some:
  assumes "findSupplement ids c = Some n" and "length c \<le> 2 ^ 32"
  shows "unat n < length c \<and> c ! unat n \<in> set ids"
  using assms by (induction ids) (auto split: option.splits dest: getBlockHeight_Some)

lemma findSupplement_None: "findSupplement ids c = None \<longleftrightarrow> set ids \<inter> set c = {}"
  by (induction ids) (auto split: option.splits simp: getBlockHeight_None, (metis getBlockHeight_None option.distinct(1))+)

section \<open>The sparse chain\<close>

lemma sparse_loop_heights:
  "0 < i \<Longrightarrow> \<exists>hs. sparse_loop c e i = map (\<lambda>h. c ! h) hs
     \<and> (i \<le> e \<longrightarrow> hs \<noteq> [] \<and> hd hs = e - i)
     \<and> sorted_wrt (>) hs \<and> (\<forall>h\<in>set hs. h \<le> e - i) \<and> i * 2 ^ length hs \<le> 2 * max e i \<and> (e < i \<longrightarrow> hs = [])"
proof (induction c e i rule: sparse_loop.induct)
  case (1 c e i)
  show ?case
  proof (cases "i \<le> e")
    case True
    then obtain hs where hs: "sparse_loop c e (i * 2) = map (\<lambda>h. c ! h) hs"
        "sorted_wrt (>) hs" "\<forall>h\<in>set hs. h \<le> e - i * 2" "(i * 2) * 2 ^ length hs \<le> 2 * max e (i * 2)"
        "e < i * 2 \<longrightarrow> hs = []"
      using 1 by auto
    have "\<forall>h\<in>set hs. h < e - i"
      using hs(3,5) True 1(2) by (cases "e < i * 2") auto
    moreover have "i * 2 ^ length ((e - i) # hs) \<le> 2 * max e i"
      using hs(4,5) True by (cases "e < i * 2") (auto simp: max_def)
    ultimately show ?thesis
      using hs True 1(2) by (intro exI [of _ "(e - i) # hs"]) (auto simp: sparse_loop.simps [of c e i])
  next
    case False
    then show ?thesis by (intro exI [of _ "[]"]) (auto simp: sparse_loop.simps [of c e i])
  qed
qed

lemma buildSparseChain_heights:
  assumes "distinct c" and "n < length c" and "length c < 2 ^ 32"
  shows "\<exists>hs. buildSparseChain (c ! n) c = Some (map (\<lambda>h. c ! h) hs) \<and> hs \<noteq> []
    \<and> hd hs = n \<and> last hs = 0 \<and> sorted_wrt (>) hs \<and> 2 ^ length hs \<le> 4 * (n + 1)"
proof -
  have e: "unat (of_nat n + 1 :: u32) = n + 1"
  proof -
    have "unat (of_nat (n + 1) :: u32) = n + 1"
      by (rule unat_of_nat_less) (use assms in simp)
    then show ?thesis by (simp only: of_nat_add of_nat_1)
  qed
  obtain hs where hs: "sparse_loop c (n + 1) 1 = map (\<lambda>h. c ! h) hs" "hs \<noteq> []" "hd hs = n"
      "sorted_wrt (>) hs" "\<forall>h\<in>set hs. h \<le> n" "2 ^ length hs \<le> 2 * (n + 1)"
    using sparse_loop_heights [of 1 c "n + 1"] by auto
  have build: "buildSparseChain (c ! n) c = (if c ! last hs \<noteq> c ! 0
      then Some (map (\<lambda>h. c ! h) hs @ [c ! 0]) else Some (map (\<lambda>h. c ! h) hs))"
    unfolding buildSparseChain_def getBlockHeight_nth [OF assms(1,2)] option.case Let_def e hs(1)
    using assms(2) hs(2) by (simp add: last_map)
  have lt: "last hs < length c" using hs(2,5) assms(2) by (meson last_in_set le_less_trans)
  show ?thesis
  proof (cases "last hs = 0")
    case True
    then show ?thesis using build hs by auto
  next
    case False
    have "\<forall>h\<in>set hs. last hs \<le> h"
      using decreasing_last [OF hs(4)] by blast
    then have "sorted_wrt (>) (hs @ [0])" using hs(4) False by (auto simp: sorted_wrt_append)
    moreover have "c ! last hs \<noteq> c ! 0"
      using False lt nth_eq_iff_index_eq [OF assms(1) lt, of 0] by (cases c) auto
    ultimately show ?thesis using build hs by (intro exI [of _ "hs @ [0]"]) auto
  qed
qed

section \<open>Pushing and popping\<close>

definition push_block :: "Hash \<Rightarrow> BlockIndex \<Rightarrow> BlockIndex option" where
  "push_block h c = (case BlockIndex_push h c of (inserted, c') \<Rightarrow> if inserted then Some c' else None)"

definition pop_block :: "Hash \<Rightarrow> BlockIndex \<Rightarrow> BlockIndex option" where
  "pop_block h c = BlockIndex_pop c"

interpretation block_undo: undo_stack "\<lambda>n. distinct" push_block pop_block
  by unfold_locales
    (auto simp: push_block_def pop_block_def BlockIndex_push_def BlockIndex_pop_def split: if_splits)

section \<open>Properties\<close>

text \<open>
  C29. The height of a hash and the hash at a height are inverse lookups, on
  every index whose hashes are distinct; pushing keeps them distinct, refuses a known hash and
  leaves the heights of the blocks already there unchanged.
\<close>

theorem block_index_lookup:
  assumes "distinct c" and "length c < 2 ^ 32"
  shows "(getBlockHeight h c = Some n \<longleftrightarrow> BlockIndex_getBlockId n c = Some h)
    \<and> distinct (snd (BlockIndex_push g c))
    \<and> (fst (BlockIndex_push g c) \<longleftrightarrow> \<not> hasBlock g c)
    \<and> (hasBlock h c \<longrightarrow> getBlockHeight h (snd (BlockIndex_push g c)) = getBlockHeight h c)"
proof -
  have "getBlockHeight h c = Some n \<longleftrightarrow> BlockIndex_getBlockId n c = Some h"
    using assms getBlockHeight_Some [of h c n] getBlockHeight_nth [of c "unat n"]
    by (auto simp: BlockIndex_getBlockId_def split: if_splits)
  moreover have "position h (c @ [g]) = position h c" if "h \<in> set c"
    using that by (induction c) auto
  ultimately show ?thesis
    using assms by (auto simp: BlockIndex_push_def hasBlock_def getBlockHeight_def)
qed

theorem block_index_lookup_witness:
  "(getBlockHeight 7 [5, 7] = Some 1 \<longleftrightarrow> BlockIndex_getBlockId 1 [5, 7] = Some 7)
    \<and> distinct (snd (BlockIndex_push 9 [5, 7]))"
  using block_index_lookup [of "[5, 7]" 7 1 9] by simp

text \<open>
  Popping as many blocks as were pushed restores the index.
\<close>

theorem block_index_undo:
  assumes "distinct c" and "run_ops push_block hs c = Some c'"
  shows "run_ops pop_block (rev hs) c' = Some c \<and> distinct c'"
  using block_undo.undo_all [of c hs c'] block_undo.run_push_inv [of c hs c'] assms by auto

theorem block_index_undo_witness:
  "run_ops pop_block (rev [8, 9]) [5, 7, 8, 9] = Some [5, 7]"
  using block_index_undo [of "[5, 7]" "[8, 9]" "[5, 7, 8, 9]"]
  by (simp add: push_block_def BlockIndex_push_def)

text \<open>
  C27. The sparse chain that a node sends to find a common block starts at
  the requested block, ends at the genesis block, lists blocks of strictly decreasing height and
  has logarithmic length: at most \<open>2 + log2 (height + 1)\<close> hashes.
\<close>

theorem sparse_chain_shape:
  assumes "distinct c" and "n < length c" and "length c < 2 ^ 32"
  shows "\<exists>hs. buildSparseChain (c ! n) c = Some (map (\<lambda>h. c ! h) hs) \<and> hs \<noteq> []
    \<and> hd hs = n \<and> last hs = 0 \<and> sorted_wrt (>) hs \<and> 2 ^ length hs \<le> 4 * (n + 1)"
  using assms by (rule buildSparseChain_heights)

theorem sparse_chain_shape_witness:
  "\<exists>hs. buildSparseChain 14 [10, 11, 12, 13, 14] = Some (map (\<lambda>h. [10, 11, 12, 13, 14] ! h) hs) \<and> hs \<noteq> []
    \<and> hd hs = 4 \<and> last hs = 0 \<and> sorted_wrt (>) hs \<and> 2 ^ length hs \<le> 4 * (4 + 1 :: nat)"
  using sparse_chain_shape [of "[10, 11, 12, 13, 14]" 4] by simp

text \<open>
  C28. Two nodes whose chains start with the same genesis block always find a
  common block: the second node's \<open>findSupplement\<close> on the sparse chain of the first succeeds,
  and the height it returns is that of a block on both chains.
\<close>

theorem supplement_found:
  assumes "distinct c" and "c \<noteq> []" and "length c < 2 ^ 32"
    and "d \<noteq> []" and "length d < 2 ^ 32" and "d ! 0 = c ! 0"
  shows "\<exists>chain n. buildSparseChain (last c) c = Some chain \<and> findSupplement chain d = Some n
    \<and> unat n < length d \<and> d ! unat n \<in> set c"
proof -
  have n: "length c - 1 < length c" and l: "last c = c ! (length c - 1)"
    using assms(2) by (simp_all add: last_conv_nth)
  obtain hs where hs: "buildSparseChain (last c) c = Some (map (\<lambda>h. c ! h) hs)" "hs \<noteq> []"
      "last hs = 0" "hd hs = length c - 1" "sorted_wrt (>) hs"
    using buildSparseChain_heights [OF assms(1) n assms(3)] l by auto
  have "\<forall>h\<in>set hs. h \<le> hd hs" using hs(2,5) by (cases hs) (auto simp: less_imp_le)
  then have sub: "set (map (\<lambda>h. c ! h) hs) \<subseteq> set c" using hs(4) n by (auto intro!: nth_mem)
  have "c ! 0 \<in> set (map (\<lambda>h. c ! h) hs)" using hs(2,3) by (metis imageI last_in_set set_map)
  moreover have "c ! 0 \<in> set d" using assms(4,6) by (metis length_greater_0_conv nth_mem)
  ultimately have "findSupplement (map (\<lambda>h. c ! h) hs) d \<noteq> None"
    unfolding findSupplement_None by blast
  then obtain m where m: "findSupplement (map (\<lambda>h. c ! h) hs) d = Some m" by blast
  then show ?thesis using hs(1) sub findSupplement_Some [OF m] assms(5) by auto
qed

theorem supplement_found_witness:
  "\<exists>chain n. buildSparseChain (last [10, 11, 12]) [10, 11, 12] = Some chain
    \<and> findSupplement chain [10, 21] = Some n \<and> unat n < length [10, 21 :: Hash]
    \<and> [10, 21] ! unat n \<in> set [10, 11, 12 :: Hash]"
  using supplement_found [of "[10, 11, 12]" "[10, 21]"] by simp

end
