(* ===== verification/Deposit_Index.thy ===== *)
theory Deposit_Index
  imports Prelude
begin

text \<open>
  The deposit index of \<open>src/CryptoNoteCore/DepositIndex.cpp\<close>: for every block of the main chain
  the running totals of locked deposits and of the interest they earn, stored only for blocks
  that change the locked amount. A failed assertion is \<open>None\<close>. Amounts are \<open>int64_t\<close> values
  kept as integers, with the ranges tested by the assertions written out; heights and interest
  are words. The abstract state is the list of (amount, interest) pairs pushed, one per block.
\<close>

type_synonym DepositAmount = int
type_synonym DepositInterest = u64
type_synonym DepositHeight = u32

record DepositIndexEntry =
  de_height :: DepositHeight
  de_amount :: DepositAmount
  de_interest :: DepositInterest

record DepositIndex =
  di_index :: "DepositIndexEntry list"
  di_blockCount :: DepositHeight

definition DepositIndex_empty :: DepositIndex where
  "DepositIndex_empty = \<lparr>di_index = [], di_blockCount = 0\<rparr>"

definition fullDepositAmount :: "DepositIndex \<Rightarrow> DepositAmount" where
  "fullDepositAmount d = (if di_index d = [] then 0 else de_amount (last (di_index d)))"

definition fullInterestAmount :: "DepositIndex \<Rightarrow> DepositInterest" where
  "fullInterestAmount d = (if di_index d = [] then 0 else de_interest (last (di_index d)))"

definition int64_max :: int where "int64_max = 2 ^ 63 - 1"
definition int64_min :: int where "int64_min = - (2 ^ 63)"

definition sumWillOverflow_int64 :: "int \<Rightarrow> int \<Rightarrow> bool" where
  "sumWillOverflow_int64 x y =
    (if 0 < y \<and> int64_max - y < x then True
     else if y < 0 \<and> x < int64_min - y then True
     else False)"

definition sumWillOverflow_uint64 :: "u64 \<Rightarrow> u64 \<Rightarrow> bool" where
  "sumWillOverflow_uint64 x y = (if -1 - y < x then True else False)"

definition DepositIndex_pushBlock ::
    "DepositAmount \<Rightarrow> DepositInterest \<Rightarrow> DepositIndex \<Rightarrow> DepositIndex option" where
  "DepositIndex_pushBlock amount interest d =
    (let (lastAmount, lastInterest) =
       (if di_index d = [] then (0, 0)
        else (de_amount (last (di_index d)), de_interest (last (di_index d)))) in
     if sumWillOverflow_int64 amount lastAmount then None
     else if sumWillOverflow_uint64 interest lastInterest then None
     else if amount + lastAmount < 0 then None
     else
       let d = (if amount \<noteq> 0 then
           d\<lparr>di_index := di_index d @ [\<lparr>de_height = di_blockCount d,
              de_amount = amount + lastAmount, de_interest = interest + lastInterest\<rparr>]\<rparr>
           else d) in
       Some (d\<lparr>di_blockCount := di_blockCount d + 1\<rparr>))"

definition DepositIndex_popBlock :: "DepositIndex \<Rightarrow> DepositIndex option" where
  "DepositIndex_popBlock d =
    (if di_blockCount d = 0 then None
     else
       let blockCount = di_blockCount d - 1 in
       if di_index d \<noteq> [] \<and> de_height (last (di_index d)) = blockCount
       then Some (d\<lparr>di_blockCount := blockCount, di_index := butlast (di_index d)\<rparr>)
       else Some (d\<lparr>di_blockCount := blockCount\<rparr>))"

definition DepositIndex_size :: "DepositIndex \<Rightarrow> DepositHeight" where
  "DepositIndex_size d = di_blockCount d"

text \<open>\<open>std::upper_bound\<close> as the position of the first entry above \<open>height\<close>.\<close>

definition DepositIndex_upperBound :: "DepositIndex \<Rightarrow> DepositHeight \<Rightarrow> nat" where
  "DepositIndex_upperBound d height = length (takeWhile (\<lambda>left. \<not> height < de_height left) (di_index d))"

definition DepositIndex_popBlocks :: "DepositHeight \<Rightarrow> DepositIndex \<Rightarrow> DepositHeight \<times> DepositIndex" where
  "DepositIndex_popBlocks from d =
    (if di_blockCount d \<le> from then (0, d)
     else
       let it = DepositIndex_upperBound d from;
           it = (if it \<noteq> 0 then
                   if de_height (di_index d ! (it - 1)) \<noteq> from then it else it - 1
                 else it);
           diff = di_blockCount d - from in
       (diff, d\<lparr>di_index := take it (di_index d), di_blockCount := di_blockCount d - diff\<rparr>))"

definition depositAmountAtHeight :: "DepositIndex \<Rightarrow> DepositHeight \<Rightarrow> DepositAmount" where
  "depositAmountAtHeight d height =
    (if di_blockCount d = 0 then 0
     else
       let it = DepositIndex_upperBound d height in
       if it = 0 then 0 else de_amount (di_index d ! (it - 1)))"

definition depositInterestAtHeight :: "DepositIndex \<Rightarrow> DepositHeight \<Rightarrow> DepositInterest" where
  "depositInterestAtHeight d height =
    (if di_blockCount d = 0 then 0
     else
       let it = DepositIndex_upperBound d height in
       if it = 0 then 0 else de_interest (di_index d ! (it - 1)))"

section \<open>The abstract state\<close>

type_synonym deposit_history = "(int \<times> u64) list"

definition locked :: "deposit_history \<Rightarrow> int" where
  "locked bs = sum_list (map fst bs)"

definition earned :: "deposit_history \<Rightarrow> u64" where
  "earned bs = sum_list (map snd (filter (\<lambda>b. fst b \<noteq> 0) bs))"

definition entry_at :: "deposit_history \<Rightarrow> nat \<Rightarrow> DepositIndexEntry" where
  "entry_at bs i = \<lparr>de_height = of_nat i, de_amount = locked (take (Suc i) bs),
    de_interest = earned (take (Suc i) bs)\<rparr>"

definition changing :: "deposit_history \<Rightarrow> nat \<Rightarrow> nat list" where
  "changing bs n = filter (\<lambda>i. fst (bs ! i) \<noteq> 0) [0..<n]"

definition index_of :: "deposit_history \<Rightarrow> DepositIndex" where
  "index_of bs = \<lparr>di_index = map (entry_at bs) (changing bs (length bs)),
    di_blockCount = of_nat (length bs)\<rparr>"

lemma locked_snoc [simp]: "locked (bs @ [b]) = locked bs + fst b"
  by (simp add: locked_def)

lemma earned_snoc [simp]: "earned (bs @ [b]) = earned bs + (if fst b \<noteq> 0 then snd b else 0)"
  by (simp add: earned_def)

lemma locked_Nil [simp]: "locked [] = 0" and earned_Nil [simp]: "earned [] = 0"
  by (simp_all add: locked_def earned_def)

lemma changing_0 [simp]: "changing bs 0 = []"
  by (simp add: changing_def)

lemma changing_Suc:
  "changing bs (Suc n) = changing bs n @ (if fst (bs ! n) \<noteq> 0 then [n] else [])"
  by (simp add: changing_def)

lemma changing_less: "i \<in> set (changing bs n) \<Longrightarrow> i < n"
  by (auto simp: changing_def)

lemma changing_append:
  "n \<le> length bs \<Longrightarrow> changing (bs @ cs) n = changing bs n"
  by (auto simp: changing_def nth_append intro: filter_cong)

lemma entry_at_append: "i < length bs \<Longrightarrow> entry_at (bs @ cs) i = entry_at bs i"
  by (simp add: entry_at_def)

text \<open>The last entry up to block \<open>n\<close> holds the totals of the first \<open>n\<close> blocks.\<close>

lemma last_entry_totals:
  assumes "n \<le> length bs"
  shows "(if changing bs n = [] then 0 else de_amount (entry_at bs (last (changing bs n))))
      = locked (take n bs)"
    and "(if changing bs n = [] then 0 else de_interest (entry_at bs (last (changing bs n))))
      = earned (take n bs)"
  using assms
  by (induction n) (simp_all add: changing_Suc take_Suc_conv_app_nth entry_at_def split: if_splits)

lemma index_of_totals:
  "(if di_index (index_of bs) = [] then 0 else de_amount (last (di_index (index_of bs)))) = locked bs"
  "(if di_index (index_of bs) = [] then 0 else de_interest (last (di_index (index_of bs)))) = earned bs"
  using last_entry_totals [of "length bs" bs] by (auto simp: index_of_def last_map split: if_splits)

lemma index_of_snoc:
  "index_of (bs @ [(a, i)]) =
    \<lparr>di_index = di_index (index_of bs) @ (if a \<noteq> 0 then
        [\<lparr>de_height = of_nat (length bs), de_amount = a + locked bs, de_interest = i + earned bs\<rparr>] else []),
     di_blockCount = di_blockCount (index_of bs) + 1\<rparr>"
  by (auto simp: index_of_def changing_Suc changing_append entry_at_append entry_at_def
      dest: changing_less)

lemma index_of_Nil: "index_of [] = DepositIndex_empty"
  by (simp add: index_of_def DepositIndex_empty_def)

section \<open>Refinement\<close>

lemma sumWillOverflow_int64_iff:
  "0 \<le> y \<Longrightarrow> 0 \<le> x + y \<Longrightarrow> sumWillOverflow_int64 x y \<longleftrightarrow> int64_max < x + y \<and> y \<noteq> 0"
  by (auto simp: sumWillOverflow_int64_def)

lemma sumWillOverflow_uint64_iff: "sumWillOverflow_uint64 x y \<longleftrightarrow> 2 ^ 64 \<le> unat x + unat y"
proof -
  have "unat (-1 - y) = 2 ^ 64 - 1 - unat y"
    using unat_sub_exact [of y "-1"] by (simp add: unsigned_minus_1_eq_mask mask_eq_exp_minus_1)
  then show ?thesis
    using unat_le_max64 [of y] unat_le_max64 [of x]
    by (auto simp: sumWillOverflow_uint64_def word_less_nat_alt)
qed

lemma pushBlock_index_of:
  "DepositIndex_pushBlock a i (index_of bs) =
    (if sumWillOverflow_int64 a (locked bs) then None
     else if sumWillOverflow_uint64 i (earned bs) then None
     else if a + locked bs < 0 then None
     else Some (index_of (bs @ [(a, i)])))"
proof -
  have last_pair: "(if di_index (index_of bs) = [] then (0, 0)
      else (de_amount (last (di_index (index_of bs))), de_interest (last (di_index (index_of bs)))))
      = (locked bs, earned bs)"
    using index_of_totals [of bs] by (simp split: if_splits)
  show ?thesis
    unfolding DepositIndex_pushBlock_def last_pair
    by (simp add: index_of_snoc Let_def) (simp add: index_of_def)
qed

lemma index_heights:
  assumes "length bs < 2 ^ 32" and "e \<in> set (di_index (index_of bs))"
  shows "unat (de_height e) < length bs"
proof -
  obtain k where "k \<in> set (changing bs (length bs))" "e = entry_at bs k"
    using assms(2) by (auto simp: index_of_def)
  then show ?thesis using assms(1) by (auto dest!: changing_less simp: entry_at_def unat_of_nat)
qed

lemma popBlock_index_of:
  assumes "Suc (length bs) < 2 ^ 32"
  shows "DepositIndex_popBlock (index_of (bs @ [b])) = Some (index_of bs)"
proof -
  obtain a i where b: "b = (a, i)" by (cases b)
  have "(of_nat (Suc (length bs)) :: u32) \<noteq> 0"
    using unat_of_nat_less [of "Suc (length bs)", where ?'a = 32] assms by auto
  moreover have "di_blockCount (index_of bs) = of_nat (length bs)" by (simp add: index_of_def)
  moreover have "de_height (last (di_index (index_of bs))) \<noteq> of_nat (length bs)"
    if "di_index (index_of bs) \<noteq> []"
    using index_heights [of bs "last (di_index (index_of bs))"] that assms
    by (auto simp: unat_of_nat)
  ultimately show ?thesis
    by (auto simp: DepositIndex_popBlock_def index_of_snoc b Let_def add.commute)
qed

text \<open>The entries at or below a height are those of the blocks up to it.\<close>

lemma takeWhile_changing:
  assumes "n < 2 ^ 32"
  shows "takeWhile (\<lambda>k. \<not> h < (of_nat k :: u32)) (changing bs n) = changing bs (min n (Suc (unat h)))"
proof -
  have iff: "\<not> h < (of_nat k :: u32) \<longleftrightarrow> k \<le> unat h" if "k < n" for k
    using that assms by (auto simp: word_less_nat_alt unat_of_nat_less)
  have "takeWhile (\<lambda>k. \<not> h < (of_nat k :: u32)) (changing bs n)
      = takeWhile (\<lambda>k. k \<le> unat h) (changing bs n)"
    by (rule takeWhile_cong) (simp, use iff changing_less in blast)
  also have "\<dots> = filter (\<lambda>k. k \<le> unat h) (changing bs n)"
    using sorted_takeWhile_filter [of "\<lambda>k. k" "changing bs n"]
    by (simp add: changing_def sorted_wrt_filter)
  also have "\<dots> = changing bs (min n (Suc (unat h)))"
  proof -
    have "filter (\<lambda>k. k \<le> m) [0..<n] = [0..<min n (Suc m)]" for m
      by (induction n) (auto simp: min_def le_Suc_eq)
    then show ?thesis
      unfolding changing_def by (metis (no_types, lifting) filter_filter conj_commute filter_cong)
  qed
  finally show ?thesis .
qed

lemma upperBound_index_of:
  assumes "length bs < 2 ^ 32"
  shows "takeWhile (\<lambda>e. \<not> h < de_height e) (di_index (index_of bs))
      = map (entry_at bs) (changing bs (min (length bs) (Suc (unat h))))"
    and "DepositIndex_upperBound (index_of bs) h
      = length (changing bs (min (length bs) (Suc (unat h))))"
  using takeWhile_changing [OF assms, of h bs]
  by (simp_all add: DepositIndex_upperBound_def index_of_def takeWhile_map o_def entry_at_def)

lemma upperBound_pred:
  fixes h :: u32
  assumes "length bs < 2 ^ 32" and "changing bs (min (length bs) (Suc (unat h))) = c" and "c \<noteq> []"
  shows "di_index (index_of bs) ! (length c - 1) = entry_at bs (last c)"
proof -
  have "takeWhile (\<lambda>e. \<not> h < de_height e) (di_index (index_of bs)) = map (entry_at bs) c"
    using upperBound_index_of(1) [OF assms(1)] assms(2) by simp
  then have "take (length c) (di_index (index_of bs)) = map (entry_at bs) c"
    by (metis length_map takeWhile_eq_take)
  then have "take (length c) (di_index (index_of bs)) ! (length c - 1) = entry_at bs (last c)"
    using assms(3) by (simp add: last_conv_nth)
  then show ?thesis using assms(3) by simp
qed

lemma queries_index_of:
  assumes "length bs < 2 ^ 32"
  shows "depositAmountAtHeight (index_of bs) h = locked (take (Suc (unat h)) bs)"
    and "depositInterestAtHeight (index_of bs) h = earned (take (Suc (unat h)) bs)"
proof -
  define c where "c = changing bs (min (length bs) (Suc (unat h)))"
  have t: "take (min (length bs) (Suc (unat h))) bs = take (Suc (unat h)) bs" by (simp add: min_def)
  note totals = last_entry_totals [of "min (length bs) (Suc (unat h))" bs, simplified t, folded c_def]
  have zero: "di_blockCount (index_of bs) = 0 \<longleftrightarrow> bs = []"
    using unat_of_nat_less [of "length bs", where ?'a = 32] assms by (auto simp: index_of_def)
  show "depositAmountAtHeight (index_of bs) h = locked (take (Suc (unat h)) bs)"
    using totals(1) zero upperBound_pred [OF assms c_def [symmetric]]
    by (auto simp: depositAmountAtHeight_def upperBound_index_of(2) [OF assms] Let_def
        simp flip: c_def split: if_splits)
  show "depositInterestAtHeight (index_of bs) h = earned (take (Suc (unat h)) bs)"
    using totals(2) zero upperBound_pred [OF assms c_def [symmetric]]
    by (auto simp: depositInterestAtHeight_def upperBound_index_of(2) [OF assms] Let_def
        simp flip: c_def split: if_splits)
qed

lemma index_of_take:
  assumes "n \<le> length bs"
  shows "index_of (take n bs) = \<lparr>di_index = map (entry_at bs) (changing bs n), di_blockCount = of_nat n\<rparr>"
proof -
  have "changing (take n bs) n = changing bs n"
    using changing_append [of n "take n bs" "drop n bs"] assms by simp
  moreover have "entry_at (take n bs) i = entry_at bs i" if "i < n" for i
    using entry_at_append [of i "take n bs" "drop n bs"] assms that by simp
  ultimately show ?thesis using assms by (auto simp: index_of_def dest: changing_less)
qed

lemma popBlocks_index_of:
  assumes "length bs < 2 ^ 32" and "unat h < length bs"
  shows "DepositIndex_popBlocks h (index_of bs)
    = (of_nat (length bs) - h, index_of (take (unat h) bs))"
proof -
  define c where "c = changing bs (Suc (unat h))"
  have m: "min (length bs) (Suc (unat h)) = Suc (unat h)" using assms(2) by simp
  have up: "DepositIndex_upperBound (index_of bs) h = length c"
    using upperBound_index_of(2) [OF assms(1), of h] by (simp only: m c_def)
  have "take (length c) (di_index (index_of bs)) = map (entry_at bs) c"
    using upperBound_index_of(1) [OF assms(1), of h]
    by (metis m c_def length_map takeWhile_eq_take)
  then have tk: "take k (di_index (index_of bs)) = map (entry_at bs) (take k c)" if "k \<le> length c" for k
    using that by (metis take_map take_take min.absorb1)
  have nth: "de_height (di_index (index_of bs) ! (length c - 1)) = of_nat (last c)" if "c \<noteq> []"
    using upperBound_pred [OF assms(1), of h c] that m by (simp add: c_def entry_at_def)
  define it where "it = (if length c \<noteq> 0 then
      if de_height (di_index (index_of bs) ! (length c - 1)) \<noteq> h then length c else length c - 1
      else length c)"
  have "take it c = changing bs (unat h) \<and> it \<le> length c"
  proof (cases "fst (bs ! unat h) = 0")
    case True
    then have "c = changing bs (unat h)" by (simp add: c_def changing_Suc)
    moreover have "de_height (di_index (index_of bs) ! (length c - 1)) \<noteq> h" if "c \<noteq> []"
    proof -
      have "last c < unat h" using that changing_less calculation by (metis last_in_set)
      then have "unat (of_nat (last c) :: u32) < unat h"
        using assms by (simp add: unat_of_nat)
      then show ?thesis using nth [OF that] by auto
    qed
    ultimately show ?thesis by (auto simp: it_def)
  next
    case False
    then have "c = changing bs (unat h) @ [unat h]" by (simp add: c_def changing_Suc)
    then show ?thesis using nth by (simp add: it_def)
  qed
  then have "take it (di_index (index_of bs)) = map (entry_at bs) (changing bs (unat h))"
    using tk by simp
  moreover have "\<not> di_blockCount (index_of bs) \<le> h"
    using assms by (simp add: index_of_def word_le_nat_alt unat_of_nat)
  moreover have "index_of (take (unat h) bs) =
      \<lparr>di_index = map (entry_at bs) (changing bs (unat h)), di_blockCount = h\<rparr>"
    using index_of_take [of "unat h" bs] assms by simp
  ultimately show ?thesis
    unfolding DepositIndex_popBlocks_def up Let_def it_def [symmetric]
    by (simp add: index_of_def)
qed

section \<open>Sequences of pushes\<close>

definition push_pair :: "int \<times> u64 \<Rightarrow> DepositIndex \<Rightarrow> DepositIndex option" where
  "push_pair b d = DepositIndex_pushBlock (fst b) (snd b) d"

definition pop_pair :: "int \<times> u64 \<Rightarrow> DepositIndex \<Rightarrow> DepositIndex option" where
  "pop_pair b d = DepositIndex_popBlock d"

definition deposit_inv :: "nat \<Rightarrow> DepositIndex \<Rightarrow> bool" where
  "deposit_inv n d \<longleftrightarrow> (\<exists>bs. d = index_of bs \<and> length bs + n < 2 ^ 32)"

lemma push_pair_index_of:
  assumes "push_pair b (index_of bs) = Some d"
  shows "d = index_of (bs @ [b])" and "0 \<le> locked (bs @ [b])"
    and "unat (snd b) + unat (earned bs) < 2 ^ 64"
  using assms
  by (simp_all add: push_pair_def pushBlock_index_of sumWillOverflow_uint64_iff split: if_splits)

interpretation deposit_undo: undo_stack deposit_inv push_pair pop_pair
proof
  fix n d b d'
  assume "deposit_inv (Suc n) d" and p: "push_pair b d = Some d'"
  then obtain bs where bs: "d = index_of bs" "length bs + Suc n < 2 ^ 32"
    unfolding deposit_inv_def by blast
  have d': "d' = index_of (bs @ [b])" using p push_pair_index_of(1) bs(1) by blast
  with bs(2) show "deposit_inv n d'"
    unfolding deposit_inv_def by (intro exI [of _ "bs @ [b]"]) simp
  show "pop_pair b d' = Some d"
    unfolding d' pop_pair_def bs(1) using bs(2) by (intro popBlock_index_of) simp
qed

lemma run_push_index_of:
  "run_ops push_pair bs DepositIndex_empty = Some d \<Longrightarrow> d = index_of bs"
proof (induction bs arbitrary: d rule: rev_induct)
  case Nil
  then show ?case by (simp add: index_of_Nil)
next
  case (snoc b bs)
  then obtain d0 where "run_ops push_pair bs DepositIndex_empty = Some d0" "push_pair b d0 = Some d"
    by (auto simp: run_ops_append split: option.splits)
  with snoc.IH push_pair_index_of(1) show ?case by blast
qed

lemma run_push_prefix:
  "run_ops push_pair (bs @ cs) DepositIndex_empty = Some d \<Longrightarrow>
    run_ops push_pair bs DepositIndex_empty = Some (index_of bs)"
  using run_push_index_of [of bs]
  by (cases "run_ops push_pair bs DepositIndex_empty") (simp_all add: run_ops_append)

lemma run_push_earned:
  "run_ops push_pair bs DepositIndex_empty = Some d \<Longrightarrow>
    unat (earned bs) = (\<Sum>b\<leftarrow>filter (\<lambda>b. fst b \<noteq> 0) bs. unat (snd b))"
proof (induction bs arbitrary: d rule: rev_induct)
  case Nil
  then show ?case by simp
next
  case (snoc b bs)
  from snoc.prems have p: "run_ops push_pair bs DepositIndex_empty = Some (index_of bs)"
    by (rule run_push_prefix)
  with snoc.prems have pp: "push_pair b (index_of bs) = Some d"
    by (cases "push_pair b (index_of bs)") (simp_all add: run_ops_append)
  have "unat (earned bs + snd b) = unat (earned bs) + unat (snd b)"
    by (rule unat_add_exact) (use push_pair_index_of(3) [OF pp] in simp)
  then show ?case
    using snoc.IH [OF p] by (cases "fst b = 0") simp_all
qed

lemmas deposit_eval = push_pair_def DepositIndex_pushBlock_def DepositIndex_empty_def Let_def
  sumWillOverflow_int64_def sumWillOverflow_uint64_def int64_max_def int64_min_def

section \<open>Properties\<close>

text \<open>
  C17. After any successful sequence of pushes, one per block, the index
  answers for every height the sum of the amounts of all blocks up to that height, and the sum
  of the interests of those blocks whose net amount is not zero: the interest of a block whose
  deposits and withdrawals cancel is dropped. None of the stored sums has wrapped.
\<close>

theorem deposit_index_totals:
  assumes "run_ops push_pair bs DepositIndex_empty = Some d" and "length bs < 2 ^ 32"
  shows "depositAmountAtHeight d h = (\<Sum>b\<leftarrow>take (Suc (unat h)) bs. fst b)
    \<and> unat (depositInterestAtHeight d h)
        = (\<Sum>b\<leftarrow>filter (\<lambda>b. fst b \<noteq> 0) (take (Suc (unat h)) bs). unat (snd b))"
proof -
  have d: "d = index_of bs" using assms(1) by (rule run_push_index_of)
  have "run_ops push_pair (take (Suc (unat h)) bs) DepositIndex_empty
      = Some (index_of (take (Suc (unat h)) bs))"
    using assms(1) by (intro run_push_prefix [of _ "drop (Suc (unat h)) bs"]) simp
  from run_push_earned [OF this] show ?thesis
    using queries_index_of [OF assms(2), of h] by (simp add: d locked_def)
qed

theorem deposit_index_totals_witness:
  "depositAmountAtHeight (the (run_ops push_pair [(100, 5), (0, 7), (-40, 2)] DepositIndex_empty)) 2 = 60
   \<and> unat (depositInterestAtHeight (the (run_ops push_pair [(100, 5), (0, 7), (-40, 2)] DepositIndex_empty)) 2) = 7"
proof -
  have run: "run_ops push_pair [(100, 5), (0, 7), (-40, 2)] DepositIndex_empty
      = Some (the (run_ops push_pair [(100, 5), (0, 7), (-40, 2)] DepositIndex_empty))"
    by (simp add: deposit_eval)
  show ?thesis using deposit_index_totals [OF run, of 2] by simp
qed

text \<open>
  Popping restores the index exactly: after pushing \<open>as\<close> and then
  \<open>bs\<close>, popping \<open>length bs\<close> blocks one at a time gives back the index that held \<open>as\<close>, and the
  bulk operation \<open>popBlocks\<close> from the height \<open>length as\<close> reaches the same index and reports the
  number of blocks removed.
\<close>

theorem deposit_index_undo:
  assumes "run_ops push_pair as DepositIndex_empty = Some d"
    and "run_ops push_pair bs d = Some d'" and "length as + length bs < 2 ^ 32"
  shows "run_ops pop_pair (rev bs) d' = Some d
    \<and> DepositIndex_popBlocks (of_nat (length as)) d' = (of_nat (length bs), d)"
proof -
  have d: "d = index_of as" using assms(1) by (rule run_push_index_of)
  have "run_ops push_pair (as @ bs) DepositIndex_empty = Some d'"
    using assms(1,2) by (simp add: run_ops_append)
  then have d': "d' = index_of (as @ bs)" by (rule run_push_index_of)
  have "deposit_inv (length bs) d" using assms(3) d by (auto simp: deposit_inv_def)
  then have undo: "run_ops pop_pair (rev bs) d' = Some d"
    using assms(2) by (rule deposit_undo.undo_all)
  have u: "unat (of_nat (length as) :: u32) = length as"
    using assms(3) by (intro unat_of_nat_less) simp
  have "DepositIndex_popBlocks (of_nat (length as)) d' = (of_nat (length bs), d)"
  proof (cases "bs = []")
    case True
    then show ?thesis by (simp add: d' d DepositIndex_popBlocks_def index_of_def)
  next
    case False
    then show ?thesis
      using popBlocks_index_of [of "as @ bs" "of_nat (length as)"] assms(3) u by (simp add: d' d)
  qed
  with undo show ?thesis ..
qed

theorem deposit_index_undo_witness:
  "run_ops pop_pair (rev [(0, 7), (-40, 2)])
      (the (run_ops push_pair [(100, 5), (0, 7), (-40, 2)] DepositIndex_empty))
    = Some (the (run_ops push_pair [(100, 5)] DepositIndex_empty))"
proof -
  have run1: "run_ops push_pair [(100, 5)] DepositIndex_empty
      = Some (the (run_ops push_pair [(100, 5)] DepositIndex_empty))"
    by (simp add: deposit_eval)
  have run2: "run_ops push_pair [(0, 7), (-40, 2)] (the (run_ops push_pair [(100, 5)] DepositIndex_empty))
      = Some (the (run_ops push_pair [(100, 5), (0, 7), (-40, 2)] DepositIndex_empty))"
    by (simp add: deposit_eval)
  show ?thesis using deposit_index_undo [OF run1 run2] by simp
qed

end
