(* ===== verification/CryptoNote_Types.thy ===== *)
theory CryptoNote_Types
  imports Prelude
begin

text \<open>
  The data types of \<open>include/CryptoNote.h\<close>: transactions, blocks and addresses. A structure is a
  record, with the field names prefixed by the structure; a variant is a datatype with one
  constructor per alternative. Hashes and keys are the 256-bit little-endian numbers of their
  bytes.
\<close>

record BaseInput =
  bi_blockIndex :: u32

record KeyInput =
  ki_amount :: u64
  ki_outputIndexes :: "u32 list"
  ki_keyImage :: KeyImage

record MultisignatureInput =
  mi_amount :: u64
  mi_signatureCount :: u8
  mi_outputIndex :: u32
  mi_term :: u32

record KeyOutput =
  ko_key :: PublicKey

record MultisignatureOutput =
  mo_keys :: "PublicKey list"
  mo_requiredSignatureCount :: u8
  mo_term :: u32

datatype TransactionInput =
    InBase BaseInput
  | InKey KeyInput
  | InMultisig MultisignatureInput

datatype TransactionOutputTarget =
    OutKey KeyOutput
  | OutMultisig MultisignatureOutput

record TransactionOutput =
  to_amount :: u64
  to_target :: TransactionOutputTarget

record TransactionPrefix =
  tp_version :: u8
  tp_unlockTime :: u64
  tp_inputs :: "TransactionInput list"
  tp_outputs :: "TransactionOutput list"
  tp_extra :: "u8 list"

record Transaction = TransactionPrefix +
  tx_signatures :: "Signature list list"

record BlockHeader =
  bh_majorVersion :: u8
  bh_minorVersion :: u8
  bh_nonce :: u32
  bh_timestamp :: u64
  bh_previousBlockHash :: Hash

record Block = BlockHeader +
  bl_baseTransaction :: Transaction
  bl_transactionHashes :: "Hash list"

record AccountPublicAddress =
  aa_spendPublicKey :: PublicKey
  aa_viewPublicKey :: PublicKey

type_synonym SecretKey = "256 word"
type_synonym KeyDerivation = "256 word"

record AccountKeys =
  ak_address :: AccountPublicAddress
  ak_spendSecretKey :: SecretKey
  ak_viewSecretKey :: SecretKey

record KeyPair =
  kp_publicKey :: PublicKey
  kp_secretKey :: SecretKey

text \<open>\<open>is_coinbase\<close> of \<open>src/CryptoNoteCore/CryptoNoteBasicImpl.cpp\<close>.\<close>

definition is_coinbase :: "Transaction \<Rightarrow> bool" where
  "is_coinbase tx = (case tp_inputs tx of [InBase _] \<Rightarrow> True | _ \<Rightarrow> False)"

end
