(* ===== verification/Currency_Base.thy ===== *)
theory Currency_Base
  imports CryptoNote_Types IntUtil
begin

text \<open>
  The currency parameters: the numeric members of \<open>Currency\<close> (\<open>src/CryptoNoteCore/Currency.h\<close>), the
  values that \<open>CurrencyBuilder\<close> gives them (\<open>Currency.cpp\<close>, from \<open>src/CryptoNoteConfig.h\<close>) for the
  main and the test network, and the accessors that select by block version. A \<open>size_t\<close> member is
  a 64-bit word.
\<close>

record Currency =
  m_maxBlockHeight :: u64
  m_maxBlockBlobSize :: u64
  m_maxTxSize :: u64
  m_publicAddressBase58Prefix :: u64
  m_minedMoneyUnlockWindow :: u64
  m_timestampCheckWindow :: u64
  m_timestampCheckWindow_v1 :: u64
  m_blockFutureTimeLimit :: u64
  m_blockFutureTimeLimit_v1 :: u64
  m_moneySupply :: u64
  m_rewardBlocksWindow :: u64
  m_zawyDifficultyBlockIndex :: u32
  m_zawyDifficultyV2 :: u64
  m_zawyDifficultyBlockVersion :: u8
  m_blockGrantedFullRewardZone :: u64
  m_minerTxBlobReservedSize :: u64
  m_numberOfDecimalPlaces :: u64
  m_coin :: u64
  m_minimumFee :: u64
  m_minimumFeeV1 :: u64
  m_minimumFeeV2 :: u64
  m_minimumFeeBanking :: u64
  m_defaultDustThreshold :: u64
  m_difficultyTarget :: u64
  m_difficultyWindow :: u64
  m_difficultyLag :: u64
  m_difficultyCut :: u64
  m_depositMinAmount :: u64
  m_depositMinTerm :: u32
  m_depositMaxTerm :: u32
  m_depositMaxTermV1 :: u32
  m_depositMinTermV3 :: u32
  m_depositMaxTermV3 :: u32
  m_depositMinTotalRateFactor :: u64
  m_depositMaxTotalRate :: u64
  m_depositHeightV3 :: u32
  m_depositHeightV4 :: u32
  m_blockWithMissingInterest :: u32
  m_maxBlockSizeInitial :: u64
  m_maxBlockSizeGrowthSpeedNumerator :: u64
  m_maxBlockSizeGrowthSpeedDenominator :: u64
  m_lockedTxAllowedDeltaSeconds :: u64
  m_lockedTxAllowedDeltaBlocks :: u64
  m_mempoolTxLiveTime :: u64
  m_mempoolTxFromAltBlockLiveTime :: u64
  m_numberOfPeriodsToForgetTxDeletedFromPool :: u64
  m_upgradeHeightV2 :: u64
  m_upgradeHeightV3 :: u64
  m_upgradeHeightV6 :: u64
  m_upgradeHeightV7 :: u64
  m_upgradeHeightV8 :: u64
  m_upgradeVotingThreshold :: u32
  m_upgradeVotingWindow :: u32
  m_upgradeWindow :: u32
  m_transactionMaxSize :: u64
  m_fusionTxMaxSize :: u64
  m_fusionTxMinInputCount :: u64
  m_fusionTxMinInOutCountRatio :: u64
  m_testnet :: bool

definition mainnet :: Currency where
  "mainnet = \<lparr>
     m_maxBlockHeight = 500000000,
     m_maxBlockBlobSize = 500000000,
     m_maxTxSize = 1000000000,
     m_publicAddressBase58Prefix = 31444,
     m_minedMoneyUnlockWindow = 10,
     m_timestampCheckWindow = 30,
     m_timestampCheckWindow_v1 = 11,
     m_blockFutureTimeLimit = 7200,
     m_blockFutureTimeLimit_v1 = 360,
     m_moneySupply = 200000000000000,
     m_rewardBlocksWindow = 100,
     m_zawyDifficultyBlockIndex = 0,
     m_zawyDifficultyV2 = 1,
     m_zawyDifficultyBlockVersion = 0,
     m_blockGrantedFullRewardZone = 100000,
     m_minerTxBlobReservedSize = 600,
     m_numberOfDecimalPlaces = 6,
     m_coin = 1000000,
     m_minimumFee = 10,
     m_minimumFeeV1 = 100,
     m_minimumFeeV2 = 1000,
     m_minimumFeeBanking = 1000,
     m_defaultDustThreshold = 10,
     m_difficultyTarget = 120,
     m_difficultyWindow = 720,
     m_difficultyLag = 15,
     m_difficultyCut = 60,
     m_depositMinAmount = 1000000,
     m_depositMinTerm = 5040,
     m_depositMaxTerm = 262800,
     m_depositMaxTermV1 = 1296000,
     m_depositMinTermV3 = 21900,
     m_depositMaxTermV3 = 262800,
     m_depositMinTotalRateFactor = 0,
     m_depositMaxTotalRate = 4,
     m_depositHeightV3 = 413400,
     m_depositHeightV4 = 1162162,
     m_blockWithMissingInterest = 425799,
     m_maxBlockSizeInitial = 1000000,
     m_maxBlockSizeGrowthSpeedNumerator = 102400,
     m_maxBlockSizeGrowthSpeedDenominator = 262800,
     m_lockedTxAllowedDeltaSeconds = 120,
     m_lockedTxAllowedDeltaBlocks = 1,
     m_mempoolTxLiveTime = 43200,
     m_mempoolTxFromAltBlockLiveTime = 43200,
     m_numberOfPeriodsToForgetTxDeletedFromPool = 7,
     m_upgradeHeightV2 = 1,
     m_upgradeHeightV3 = 12750,
     m_upgradeHeightV6 = 104200,
     m_upgradeHeightV7 = 195765,
     m_upgradeHeightV8 = 661300,
     m_upgradeVotingThreshold = 90,
     m_upgradeVotingWindow = 720,
     m_upgradeWindow = 720,
     m_transactionMaxSize = 99400,
     m_fusionTxMaxSize = 30000,
     m_fusionTxMinInputCount = 12,
     m_fusionTxMinInOutCountRatio = 4,
     m_testnet = False\<rparr>"

text \<open>\<open>CurrencyBuilder::testnet\<close>.\<close>

definition testnet :: "bool \<Rightarrow> Currency \<Rightarrow> Currency" where
  "testnet val c =
    (let c = c\<lparr>m_testnet := val\<rparr> in
     if val then
       c\<lparr>m_depositMinTerm := 30, m_depositMaxTerm := 360,
         m_depositMinTermV3 := 30, m_depositMaxTermV3 := 360,
         m_depositHeightV3 := 60, m_depositHeightV4 := 300000,
         m_blockWithMissingInterest := 0,
         m_upgradeHeightV2 := 1, m_upgradeHeightV3 := 12, m_upgradeHeightV6 := 48,
         m_upgradeHeightV7 := 60, m_upgradeHeightV8 := 72\<rparr>
     else c)"

text \<open>\<open>CurrencyBuilder::numberOfDecimalPlaces\<close>: \<open>m_coin\<close> is computed by repeated multiplication.\<close>

definition numberOfDecimalPlaces :: "u64 \<Rightarrow> Currency \<Rightarrow> Currency" where
  "numberOfDecimalPlaces val c =
    c\<lparr>m_numberOfDecimalPlaces := val, m_coin := ((\<lambda>coin. coin * 10) ^^ unat val) 1\<rparr>"

definition COIN :: u64 where "COIN = 1000000"
definition POINT :: u64 where "POINT = 1000"
definition MINIMUM_FEE :: u64 where "MINIMUM_FEE = 10"
definition START_BLOCK_REWARD :: u64 where "START_BLOCK_REWARD = 5000 * POINT"
definition FOUNDATION_TRUST :: u64 where "FOUNDATION_TRUST = 12000000 * COIN"
definition MAX_BLOCK_REWARD :: u64 where "MAX_BLOCK_REWARD = 15 * COIN"
definition MAX_BLOCK_REWARD_V1 :: u64 where "MAX_BLOCK_REWARD_V1 = 6 * COIN"
definition REWARD_INCREASE_INTERVAL :: u64 where "REWARD_INCREASE_INTERVAL = 21900"

definition difficultyWindowByBlockVersion :: "Currency \<Rightarrow> u8 \<Rightarrow> u64" where
  "difficultyWindowByBlockVersion c blockMajorVersion =
    (if 8 \<le> blockMajorVersion then 60
     else if 4 \<le> blockMajorVersion then 60
     else if 2 \<le> blockMajorVersion then m_difficultyWindow c
     else if blockMajorVersion = 1 then 720
     else 720)"

definition difficultyCutByBlockVersion :: "Currency \<Rightarrow> u8 \<Rightarrow> u64" where
  "difficultyCutByBlockVersion c blockMajorVersion =
    (if 2 \<le> blockMajorVersion then m_difficultyCut c
     else if blockMajorVersion = 1 then 60
     else 60)"

definition difficultyBlocksCountByBlockVersion :: "Currency \<Rightarrow> u8 \<Rightarrow> u64" where
  "difficultyBlocksCountByBlockVersion c blockMajorVersion =
    (if 8 \<le> blockMajorVersion then 61
     else if 4 \<le> blockMajorVersion then 61
     else m_difficultyWindow c + m_difficultyLag c)"

definition timestampCheckWindow :: "Currency \<Rightarrow> u8 \<Rightarrow> u64" where
  "timestampCheckWindow c blockMajorVersion =
    (if 4 \<le> blockMajorVersion then m_timestampCheckWindow_v1 c else m_timestampCheckWindow c)"

definition blockFutureTimeLimit :: "Currency \<Rightarrow> u8 \<Rightarrow> u64" where
  "blockFutureTimeLimit c blockMajorVersion =
    (if 4 \<le> blockMajorVersion then m_blockFutureTimeLimit_v1 c else m_blockFutureTimeLimit c)"

definition upgradeHeight :: "Currency \<Rightarrow> u8 \<Rightarrow> u64" where
  "upgradeHeight c majorVersion =
    (if majorVersion = 2 then m_upgradeHeightV2 c
     else if majorVersion = 3 then m_upgradeHeightV3 c
     else if majorVersion = 4 then m_upgradeHeightV6 c
     else if majorVersion = 7 then m_upgradeHeightV7 c
     else if majorVersion = 8 then m_upgradeHeightV8 c
     else 0xFFFFFFFF)"

definition minNumberVotingBlocks :: "Currency \<Rightarrow> u32" where
  "minNumberVotingBlocks c = (m_upgradeVotingWindow c * m_upgradeVotingThreshold c + 99) div 100"

definition maxUpgradeDistance :: "Currency \<Rightarrow> u32" where
  "maxUpgradeDistance c = 7 * m_upgradeWindow c"

definition calculateUpgradeHeight :: "Currency \<Rightarrow> u32 \<Rightarrow> u32" where
  "calculateUpgradeHeight c voteCompleteHeight = voteCompleteHeight + m_upgradeWindow c"

text \<open>\<open>maxBlockCumulativeSize\<close>; the assertions are \<open>None\<close>, division by zero too.\<close>

definition maxBlockCumulativeSize :: "Currency \<Rightarrow> u64 \<Rightarrow> u64 option" where
  "maxBlockCumulativeSize c height =
    (if m_maxBlockSizeGrowthSpeedNumerator c = 0 \<or> m_maxBlockSizeGrowthSpeedDenominator c = 0 then None
     else if \<not> height \<le> -1 div m_maxBlockSizeGrowthSpeedNumerator c then None
     else
       let maxSize = m_maxBlockSizeInitial c +
         (height * m_maxBlockSizeGrowthSpeedNumerator c) div m_maxBlockSizeGrowthSpeedDenominator c in
       if \<not> m_maxBlockSizeInitial c \<le> maxSize then None else Some maxSize)"

definition getGenesisTimestamp :: "Currency \<Rightarrow> u64" where
  "getGenesisTimestamp c = (if m_testnet c then 1632048808 else 1527078920)"

section \<open>The configured values\<close>

lemma mainnet_fields [simp]:
  "m_maxBlockHeight mainnet = 500000000"
  "m_maxBlockBlobSize mainnet = 500000000"
  "m_maxTxSize mainnet = 1000000000"
  "m_publicAddressBase58Prefix mainnet = 31444"
  "m_minedMoneyUnlockWindow mainnet = 10"
  "m_timestampCheckWindow mainnet = 30"
  "m_timestampCheckWindow_v1 mainnet = 11"
  "m_blockFutureTimeLimit mainnet = 7200"
  "m_blockFutureTimeLimit_v1 mainnet = 360"
  "m_moneySupply mainnet = 200000000000000"
  "m_rewardBlocksWindow mainnet = 100"
  "m_zawyDifficultyBlockIndex mainnet = 0"
  "m_zawyDifficultyV2 mainnet = 1"
  "m_zawyDifficultyBlockVersion mainnet = 0"
  "m_blockGrantedFullRewardZone mainnet = 100000"
  "m_minerTxBlobReservedSize mainnet = 600"
  "m_numberOfDecimalPlaces mainnet = 6"
  "m_coin mainnet = 1000000"
  "m_minimumFee mainnet = 10"
  "m_minimumFeeV1 mainnet = 100"
  "m_minimumFeeV2 mainnet = 1000"
  "m_minimumFeeBanking mainnet = 1000"
  "m_defaultDustThreshold mainnet = 10"
  "m_difficultyTarget mainnet = 120"
  "m_difficultyWindow mainnet = 720"
  "m_difficultyLag mainnet = 15"
  "m_difficultyCut mainnet = 60"
  "m_depositMinAmount mainnet = 1000000"
  "m_depositMinTerm mainnet = 5040"
  "m_depositMaxTerm mainnet = 262800"
  "m_depositMaxTermV1 mainnet = 1296000"
  "m_depositMinTermV3 mainnet = 21900"
  "m_depositMaxTermV3 mainnet = 262800"
  "m_depositMinTotalRateFactor mainnet = 0"
  "m_depositMaxTotalRate mainnet = 4"
  "m_depositHeightV3 mainnet = 413400"
  "m_depositHeightV4 mainnet = 1162162"
  "m_blockWithMissingInterest mainnet = 425799"
  "m_maxBlockSizeInitial mainnet = 1000000"
  "m_maxBlockSizeGrowthSpeedNumerator mainnet = 102400"
  "m_maxBlockSizeGrowthSpeedDenominator mainnet = 262800"
  "m_lockedTxAllowedDeltaSeconds mainnet = 120"
  "m_lockedTxAllowedDeltaBlocks mainnet = 1"
  "m_mempoolTxLiveTime mainnet = 43200"
  "m_mempoolTxFromAltBlockLiveTime mainnet = 43200"
  "m_numberOfPeriodsToForgetTxDeletedFromPool mainnet = 7"
  "m_upgradeHeightV2 mainnet = 1"
  "m_upgradeHeightV3 mainnet = 12750"
  "m_upgradeHeightV6 mainnet = 104200"
  "m_upgradeHeightV7 mainnet = 195765"
  "m_upgradeHeightV8 mainnet = 661300"
  "m_upgradeVotingThreshold mainnet = 90"
  "m_upgradeVotingWindow mainnet = 720"
  "m_upgradeWindow mainnet = 720"
  "m_transactionMaxSize mainnet = 99400"
  "m_fusionTxMaxSize mainnet = 30000"
  "m_fusionTxMinInputCount mainnet = 12"
  "m_fusionTxMinInOutCountRatio mainnet = 4"
  "\<not> m_testnet mainnet"
  by (simp_all add: mainnet_def)

lemmas reward_constants = COIN_def POINT_def MINIMUM_FEE_def START_BLOCK_REWARD_def
  FOUNDATION_TRUST_def MAX_BLOCK_REWARD_def MAX_BLOCK_REWARD_V1_def REWARD_INCREASE_INTERVAL_def

text \<open>Ten to the number of places is the coin, as in the main network's parameters.\<close>

lemma numberOfDecimalPlaces_mainnet: "numberOfDecimalPlaces 6 mainnet = mainnet"
  by (simp add: numberOfDecimalPlaces_def mainnet_def) (simp add: numeral_eq_Suc)

text \<open>For every 32-bit height the cumulative block size limit of the main network is defined.\<close>

lemma maxBlockCumulativeSize_mainnet:
  "maxBlockCumulativeSize mainnet (ucast (height :: u32))
    = Some (1000000 + (ucast height * 102400) div 262800)"
proof -
  have h: "unat height < 4294967296" by (rule unat_le_max32)
  have p: "unat (ucast height * 102400 :: u64) = unat height * 102400"
    using h unat_mult_exact [of "ucast height :: u64" 102400] by simp
  have s: "unat (1000000 + (ucast height * 102400) div 262800 :: u64)
      = 1000000 + unat height * 102400 div 262800"
  proof -
    have "unat (1000000 :: u64) + unat ((ucast height * 102400) div 262800 :: u64) < 2 ^ LENGTH(64)"
      using h by (simp add: unat_div_nat p)
    from unat_add_exact [OF this] show ?thesis by (simp add: unat_div_nat p)
  qed
  show ?thesis
    using h by (simp add: maxBlockCumulativeSize_def mainnet_def word_le_nat_alt s Let_def)
qed

end
