(* ===== verification/Reward.thy ===== *)
theory Reward
  imports Currency_Base
begin

text \<open>
  Block rewards: \<open>getPenalizedAmount\<close> of \<open>src/CryptoNoteCore/CryptoNoteBasicImpl.cpp\<close> and the reward
  functions of \<open>src/CryptoNoteCore/Currency.cpp\<close>. An assertion that fails is \<open>None\<close>.
\<close>

definition getPenalizedAmount :: "u64 \<Rightarrow> u64 \<Rightarrow> u64 \<Rightarrow> u64 option" where
  "getPenalizedAmount amount medianSize currentBlockSize =
    (if \<not> currentBlockSize \<le> 2 * medianSize then None
     else if \<not> medianSize \<le> 0xFFFFFFFF then None
     else if \<not> currentBlockSize \<le> 0xFFFFFFFF then None
     else if amount = 0 then Some 0
     else if currentBlockSize \<le> medianSize then Some amount
     else
       let (productLo, productHi) =
             mul128 amount (currentBlockSize * (2 * medianSize - currentBlockSize));
           (_, penalizedAmountHi, penalizedAmountLo) = div128_32 productHi productLo (ucast medianSize);
           (_, penalizedAmountHi, penalizedAmountLo) =
             div128_32 penalizedAmountHi penalizedAmountLo (ucast medianSize) in
       if penalizedAmountHi \<noteq> 0 then None
       else if \<not> penalizedAmountLo < amount then None
       else Some penalizedAmountLo)"

definition REWARD_INCREASING_FACTOR :: "u64 list" where
  "REWARD_INCREASING_FACTOR = map (\<lambda>i. of_nat i * 250000) [0..<49]"

definition baseRewardFunction :: "Currency \<Rightarrow> u64 \<Rightarrow> u32 \<Rightarrow> u64 option" where
  "baseRewardFunction c alreadyGeneratedCoins height =
    (if height = 1 then Some FOUNDATION_TRUST
     else
       let base_reward =
         (if m_upgradeHeightV8 c < ucast height then Some MAX_BLOCK_REWARD_V1
          else
            let incrIntervals = ucast height div REWARD_INCREASE_INTERVAL in
            if \<not> unat incrIntervals < length REWARD_INCREASING_FACTOR then None
            else Some (START_BLOCK_REWARD + REWARD_INCREASING_FACTOR ! unat incrIntervals)) in
       map_option (\<lambda>base_reward.
         min (min base_reward MAX_BLOCK_REWARD) (m_moneySupply c - alreadyGeneratedCoins)) base_reward)"

text \<open>
  \<open>getBlockReward\<close>: \<open>Some None\<close> is the result \<open>false\<close> for an oversized block, otherwise the
  reward and the change of emission, an \<open>int64_t\<close> read from the 64-bit difference.
\<close>

definition getBlockReward ::
    "Currency \<Rightarrow> u64 \<Rightarrow> u64 \<Rightarrow> u64 \<Rightarrow> u64 \<Rightarrow> u32 \<Rightarrow> (u64 \<times> int) option option" where
  "getBlockReward c medianSize currentBlockSize alreadyGeneratedCoins fee height =
    (if \<not> alreadyGeneratedCoins \<le> m_moneySupply c then None
     else
       case baseRewardFunction c alreadyGeneratedCoins height of
         None \<Rightarrow> None
       | Some baseReward \<Rightarrow>
           let medianSize = max medianSize (m_blockGrantedFullRewardZone c) in
           if 2 * medianSize < currentBlockSize then Some None
           else
             case getPenalizedAmount baseReward medianSize currentBlockSize of
               None \<Rightarrow> None
             | Some penalizedBaseReward \<Rightarrow>
                 (case getPenalizedAmount fee medianSize currentBlockSize of
                    None \<Rightarrow> None
                  | Some penalizedFee \<Rightarrow>
                      Some (Some (penalizedBaseReward + penalizedFee,
                        sint (penalizedBaseReward - (fee - penalizedFee))))))"

section \<open>The penalty\<close>

lemma two_times_32: "unat (m :: u64) < 2 ^ 32 \<Longrightarrow> unat (2 * m) = 2 * unat m"
  using unat_mult_exact [of 2 m] by simp

lemma product_below_square:
  fixes m c :: nat
  assumes "m < c" and "c \<le> 2 * m" shows "c * (2 * m - c) < m * m"
proof -
  define d k where "d = c - m" and "k = m - d"
  have eqs: "m = d + k" "c = 2 * d + k" "0 < d" using assms by (auto simp: d_def k_def)
  then have "2 * m - c = k" by simp
  with eqs show ?thesis by (simp add: algebra_simps)
qed

lemma scaled_below:
  fixes a x q :: nat
  assumes "x < q" and "0 < a" shows "a * x div q < a"
proof -
  have "a * x < a * q" using assms by simp
  then show ?thesis using assms by (simp add: less_mult_imp_div_less)
qed

lemma getPenalizedAmount_over:
  assumes m: "unat medianSize < 2 ^ 32" and c: "unat cur < 2 ^ 32"
    and over: "unat medianSize < unat cur" and two: "unat cur \<le> 2 * unat medianSize" and a: "amount \<noteq> 0"
  shows "\<exists>p. getPenalizedAmount amount medianSize cur = Some p \<and> p < amount
    \<and> unat p = unat amount * (unat cur * (2 * unat medianSize - unat cur)) div (unat medianSize * unat medianSize)"
proof -
  define M C X where "M = unat medianSize" and "C = unat cur" and "X = C * (2 * M - C)"
  define x where "x = cur * (2 * medianSize - cur)"
  have M: "M < 2 ^ 32" "0 < M" and X: "X < M * M"
    using assms product_below_square [of M C] by (auto simp: M_def C_def X_def)
  have "M * M \<le> 2 ^ 32 * 2 ^ 32" using M by (intro mult_le_mono) auto
  then have X64: "X < 2 ^ 64" using X by simp
  have le: "cur \<le> 2 * medianSize" using two two_times_32 [OF m] by (simp add: word_le_nat_alt)
  have d: "unat (2 * medianSize - cur) = 2 * M - C"
    using unat_sub_exact [OF le] two_times_32 [OF m] by (simp add: M_def C_def)
  have x: "unat x = X"
    unfolding x_def using X64 d by (subst unat_mult_exact) (simp_all add: X_def C_def)
  define m32 :: u32 where "m32 = ucast medianSize"
  have m32: "unat m32 = M" using m by (simp add: m32_def M_def unat_ucast_nat)
  then have m32nz: "m32 \<noteq> 0" using M by auto
  obtain lo hi where p: "mul128 amount x = (lo, hi)" by (meson surj_pair)
  obtain r1 h1 l1 where q1: "div128_32 hi lo m32 = (r1, h1, l1)" by (meson prod_cases3)
  obtain r2 h2 l2 where q2: "div128_32 h1 l1 m32 = (r2, h2, l2)" by (meson prod_cases3)
  have e1: "unat h1 * 2 ^ 64 + unat l1 = (unat hi * 2 ^ 64 + unat lo) div M"
    using div128_32_exact [OF q1 m32nz] M m32 by (metis div_mult_self3 div_less add_0_right less_not_refl2)
  have e2: "unat h2 * 2 ^ 64 + unat l2 = (unat h1 * 2 ^ 64 + unat l1) div M"
    using div128_32_exact [OF q2 m32nz] M m32 by (metis div_mult_self3 div_less add_0_right less_not_refl2)
  have tot: "unat h2 * 2 ^ 64 + unat l2 = unat amount * X div (M * M)"
    using e1 e2 mul128_exact [OF p] by (simp add: x div_mult2_eq)
  have below: "unat amount * X div (M * M) < unat amount"
    using X a by (intro scaled_below) (simp_all add: unat_gt_0)
  then have h2: "h2 = 0"
  proof -
    have "unat h2 * 2 ^ 64 < 2 ^ 64" using tot below unat_le_max64 [of amount] by simp
    then show ?thesis by (simp add: unat_eq_zero)
  qed
  then have l2: "unat l2 = unat amount * X div (M * M)" using tot by simp
  then have lt: "l2 < amount" using below by (simp add: word_less_nat_alt)
  have "getPenalizedAmount amount medianSize cur = Some l2"
    using m c over a le lt h2
    by (simp add: getPenalizedAmount_def word_le_nat_alt q1 q2 p flip: x_def m32_def)
  then show ?thesis using l2 lt by (auto simp: X_def M_def C_def)
qed

lemma getPenalizedAmount_total:
  assumes "unat medianSize < 2 ^ 32" and "unat cur < 2 ^ 32" and "unat cur \<le> 2 * unat medianSize"
  shows "\<exists>p. getPenalizedAmount amount medianSize cur = Some p \<and> p \<le> amount
    \<and> unat p = (if unat cur \<le> unat medianSize then unat amount
        else unat amount * (unat cur * (2 * unat medianSize - unat cur)) div (unat medianSize * unat medianSize))"
proof (cases "amount = 0 \<or> unat cur \<le> unat medianSize")
  case True
  have "cur \<le> 2 * medianSize" using assms two_times_32 by (simp add: word_le_nat_alt)
  with True assms show ?thesis
    by (auto simp: getPenalizedAmount_def word_le_nat_alt)
next
  case False
  then show ?thesis using getPenalizedAmount_over [of medianSize cur amount] assms by force
qed

section \<open>The base reward\<close>

lemma REWARD_INCREASING_FACTOR_nth:
  "i < 49 \<Longrightarrow> REWARD_INCREASING_FACTOR ! i = of_nat i * 250000"
  by (simp add: REWARD_INCREASING_FACTOR_def)

lemma length_REWARD_INCREASING_FACTOR [simp]: "length REWARD_INCREASING_FACTOR = 49"
  by (simp add: REWARD_INCREASING_FACTOR_def)

text \<open>With the main network's parameters the table is never indexed out of range.\<close>

lemma baseRewardFunction_mainnet:
  "\<exists>r. baseRewardFunction mainnet already height = Some r"
proof (cases "661300 < (ucast height :: u64)")
  case True
  then show ?thesis by (simp add: baseRewardFunction_def mainnet_def)
next
  case False
  then have "unat height \<le> 661300" by (simp add: word_less_nat_alt)
  then have "unat (ucast height div 21900 :: u64) < 49" by (simp add: unat_div_nat)
  with False show ?thesis
    by (simp add: baseRewardFunction_def mainnet_def REWARD_INCREASE_INTERVAL_def Let_def)
qed

lemma baseRewardFunction_bound:
  assumes "baseRewardFunction c already height = Some r" and "height \<noteq> 1"
    and "already \<le> m_moneySupply c"
  shows "unat already + unat r \<le> unat (m_moneySupply c)" and "r \<le> MAX_BLOCK_REWARD"
proof -
  obtain b where "r = min (min b MAX_BLOCK_REWARD) (m_moneySupply c - already)"
    using assms(1,2) by (auto simp: baseRewardFunction_def Let_def split: if_splits)
  then have "r \<le> m_moneySupply c - already" and "r \<le> MAX_BLOCK_REWARD"
    by (auto simp: min_le_iff_disj)
  then show "unat already + unat r \<le> unat (m_moneySupply c)" and "r \<le> MAX_BLOCK_REWARD"
    using unat_sub_exact [OF assms(3)] assms(3) by (auto simp: word_le_nat_alt)
qed

section \<open>Emission\<close>

lemma getBlockReward_Some:
  assumes "getBlockReward c median cur already fee height = Some (Some (reward, emission))"
  obtains base pb pf where "baseRewardFunction c already height = Some base"
    and "getPenalizedAmount base (max median (m_blockGrantedFullRewardZone c)) cur = Some pb"
    and "getPenalizedAmount fee (max median (m_blockGrantedFullRewardZone c)) cur = Some pf"
    and "reward = pb + pf" and "emission = sint (pb - (fee - pf))" and "already \<le> m_moneySupply c"
  using assms by (auto simp: getBlockReward_def Let_def split: if_splits option.splits)

lemma getPenalizedAmount_le:
  assumes "getPenalizedAmount amount median cur = Some p" shows "p \<le> amount"
  using assms by (auto simp: getPenalizedAmount_def Let_def split: if_splits prod.splits)

lemma sint_eq_of_int:
  "- (2 ^ 63) \<le> i \<Longrightarrow> i < 2 ^ 63 \<Longrightarrow> sint (of_int i :: u64) = i"
  by (simp add: signed_of_int signed_take_bit_int_eq_self)

lemma emission_balance:
  assumes "getBlockReward c median cur already fee height = Some (Some (reward, emission))"
    and "height \<noteq> 1" and "unat fee < 2 ^ 62"
  shows "int (unat reward) = emission + int (unat fee)"
    and "int (unat already) + emission \<le> int (unat (m_moneySupply c))"
proof -
  from assms(1) obtain base pb pf where base: "baseRewardFunction c already height = Some base"
    and pb: "getPenalizedAmount base (max median (m_blockGrantedFullRewardZone c)) cur = Some pb"
    and pf: "getPenalizedAmount fee (max median (m_blockGrantedFullRewardZone c)) cur = Some pf"
    and r: "reward = pb + pf" and e: "emission = sint (pb - (fee - pf))"
    and s: "already \<le> m_moneySupply c"
    by (rule getBlockReward_Some)
  note bound = baseRewardFunction_bound [OF base assms(2) s]
  have pb': "unat pb \<le> unat base" and pf': "pf \<le> fee" "unat pf \<le> unat fee"
    using getPenalizedAmount_le [OF pb] getPenalizedAmount_le [OF pf] by (simp_all add: word_le_nat_alt)
  have "unat base \<le> 15000000" using bound(2) by (simp add: word_le_nat_alt reward_constants)
  with pb' have b: "unat pb \<le> 15000000" by linarith
  have re: "unat reward = unat pb + unat pf"
    unfolding r by (rule unat_add_exact) (use b pf' assms(3) in simp)
  define i where "i = int (unat pb) - (int (unat fee) - int (unat pf))"
  have "(of_int i :: u64) = of_nat (unat pb) - (of_nat (unat fee) - of_nat (unat pf))"
    by (simp add: i_def)
  then have "pb - (fee - pf) = of_int i" by simp
  moreover have "sint (of_int i :: u64) = i"
  proof (rule sint_eq_of_int)
    have "int (unat pb) \<le> 15000000" using b by linarith
    moreover have "int (unat pf) \<le> int (unat fee)" using pf'(2) by linarith
    moreover have "int (unat fee) < 4611686018427387904"
    proof -
      have "unat fee < 4611686018427387904" using assms(3) by simp
      then show ?thesis by linarith
    qed
    ultimately have "- 9223372036854775808 \<le> i" "i < 9223372036854775808"
      unfolding i_def by linarith+
    then show "- (2 ^ 63) \<le> i" "i < 2 ^ 63" by simp_all
  qed
  ultimately have ei: "emission = i" using e by simp
  then show "int (unat reward) = emission + int (unat fee)" using re by (simp add: i_def)
  have "int (unat already) + int (unat base) \<le> int (unat (m_moneySupply c))"
    using bound(1) by linarith
  then show "int (unat already) + emission \<le> int (unat (m_moneySupply c))"
    unfolding ei i_def using pb' pf'(2) by linarith
qed

section \<open>Properties\<close>

text \<open>
  C20. For sizes that fit 32 bits and a block at most twice the median,
  \<open>getPenalizedAmount\<close> returns (none of its assertions fails): the amount itself up to the median
  size, and beyond it the rounded-down quadratic penalty
  \<open>amount * size * (2 * median - size) / median ^ 2\<close>, computed through 128-bit words; the result is
  never above the amount.
\<close>

theorem penalized_amount_correct:
  assumes "unat medianSize < 2 ^ 32" and "unat currentBlockSize < 2 ^ 32"
    and "unat currentBlockSize \<le> 2 * unat medianSize"
  shows "\<exists>p. getPenalizedAmount amount medianSize currentBlockSize = Some p \<and> p \<le> amount
    \<and> unat p = (if unat currentBlockSize \<le> unat medianSize then unat amount
        else unat amount * (unat currentBlockSize * (2 * unat medianSize - unat currentBlockSize))
          div (unat medianSize * unat medianSize))"
  using assms by (rule getPenalizedAmount_total)

theorem penalized_amount_correct_witness:
  "\<exists>p. getPenalizedAmount 15000000 100000 150000 = Some p \<and> p \<le> 15000000 \<and> unat p = 11250000"
  using penalized_amount_correct [of 100000 150000 15000000] by simp

text \<open>
  C19. When a block after the first gets a reward, the reward equals the
  emission plus the fees exactly (the 64-bit subtraction read as a signed number does not lose
  anything), and the emission never takes the generated coins above the money supply.
\<close>

theorem block_reward_emission:
  assumes "getBlockReward c medianSize currentBlockSize alreadyGeneratedCoins fee height
      = Some (Some (reward, emissionChange))"
    and "height \<noteq> 1" and "unat fee < 2 ^ 62"
  shows "int (unat reward) = emissionChange + int (unat fee)
    \<and> int (unat alreadyGeneratedCoins) + emissionChange \<le> int (unat (m_moneySupply c))"
  using emission_balance [OF assms] by blast

theorem block_reward_emission_witness:
  "\<exists>reward emission. getBlockReward mainnet 0 0 0 5 700000 = Some (Some (reward, emission))
    \<and> int (unat reward) = emission + 5 \<and> emission \<le> 200000000000000"
proof -
  have "getBlockReward mainnet 0 0 0 5 700000 = Some (Some (6000005, 6000000))"
    by (simp add: getBlockReward_def baseRewardFunction_def getPenalizedAmount_def mainnet_def
        reward_constants max_def min_def)
  from this block_reward_emission [OF this] show ?thesis by (simp add: mainnet_def)
qed

end
