(* ===== verification/Interest.thy ===== *)
theory Interest
  imports Currency_Base
begin

text \<open>
  Deposit interest and transaction fees of \<open>src/CryptoNoteCore/Currency.cpp\<close>. The two newer
  interest formulas are evaluated in C++ \<open>float\<close>; what that arithmetic computes depends on the
  target (contraction, \<open>pow\<close>), so the operations the formulas use are a record of functions over
  an arbitrary type of floats, and the formulas are translated operation by operation. The
  literal \<open>d * 10 ^ (-k)\<close> is \<open>fl_lit d k\<close>. Assertions that fail and divisions by zero are \<open>None\<close>.
\<close>

record 'f float_ops =
  fl_of_u64 :: "u64 \<Rightarrow> 'f"
  fl_lit :: "nat \<Rightarrow> nat \<Rightarrow> 'f"
  fl_add :: "'f \<Rightarrow> 'f \<Rightarrow> 'f"
  fl_sub :: "'f \<Rightarrow> 'f \<Rightarrow> 'f"
  fl_mul :: "'f \<Rightarrow> 'f \<Rightarrow> 'f"
  fl_div :: "'f \<Rightarrow> 'f \<Rightarrow> 'f"
  fl_less :: "'f \<Rightarrow> 'f \<Rightarrow> bool"
  fl_compound :: "'f \<Rightarrow> 'f \<Rightarrow> 'f"
  fl_to_u64 :: "'f \<Rightarrow> u64"

text \<open>
  The quantity tier of investments. \<open>fl_compound F mq q\<close> below is the mixed expression
  \<open>(float)(100.0 * pow(1.0 + (mq / 100.0), q) - 100.0)\<close>.
\<close>

definition qTier :: "'f float_ops \<Rightarrow> u64 \<Rightarrow> 'f" where
  "qTier F amount4Humans =
    (let q = fl_lit F 1 0;
         q = (if 110000 < amount4Humans \<and> amount4Humans < 180000 then fl_lit F 101 2 else q);
         q = (if 180000 \<le> amount4Humans \<and> amount4Humans < 260000 then fl_lit F 102 2 else q);
         q = (if 260000 \<le> amount4Humans \<and> amount4Humans < 350000 then fl_lit F 103 2 else q);
         q = (if 350000 \<le> amount4Humans \<and> amount4Humans < 450000 then fl_lit F 104 2 else q);
         q = (if 450000 \<le> amount4Humans \<and> amount4Humans < 560000 then fl_lit F 105 2 else q);
         q = (if 560000 \<le> amount4Humans \<and> amount4Humans < 680000 then fl_lit F 106 2 else q);
         q = (if 680000 \<le> amount4Humans \<and> amount4Humans < 810000 then fl_lit F 107 2 else q);
         q = (if 810000 \<le> amount4Humans \<and> amount4Humans < 950000 then fl_lit F 108 2 else q);
         q = (if 950000 \<le> amount4Humans \<and> amount4Humans < 1100000 then fl_lit F 109 2 else q);
         q = (if 1100000 \<le> amount4Humans \<and> amount4Humans < 1260000 then fl_lit F 11 1 else q);
         q = (if 1260000 \<le> amount4Humans \<and> amount4Humans < 1430000 then fl_lit F 111 2 else q);
         q = (if 1430000 \<le> amount4Humans \<and> amount4Humans < 1610000 then fl_lit F 112 2 else q);
         q = (if 1610000 \<le> amount4Humans \<and> amount4Humans < 1800000 then fl_lit F 113 2 else q);
         q = (if 1800000 \<le> amount4Humans \<and> amount4Humans < 2000000 then fl_lit F 114 2 else q);
         q = (if 2000000 < amount4Humans then fl_lit F 115 2 else q) in q)"

definition calculateInterestV2 :: "'f float_ops \<Rightarrow> u64 \<Rightarrow> u32 \<Rightarrow> u64" where
  "calculateInterestV2 F amount term =
    (if term mod 64800 = 0 then
       let amount4Humans = amount div 1000000;
           q = qTier F amount4Humans;
           mq = fl_lit F 14473 4;
           termQuarters = fl_of_u64 F (ucast (term div 64800));
           m8 = fl_compound F mq termQuarters;
           m5 = fl_mul F termQuarters (fl_lit F 5 1);
           m7 = fl_mul F m8 (fl_add F (fl_lit F 1 0) (fl_div F m5 (fl_lit F 100 0)));
           rate = fl_mul F m7 q;
           interest = fl_mul F (fl_of_u64 F amount) (fl_div F rate (fl_lit F 100 0)) in
       fl_to_u64 F interest
     else if term mod 5040 = 0 then
       let actualAmount = fl_of_u64 F amount;
           weeks = fl_of_u64 F (ucast (term div 5040));
           baseInterest = fl_lit F 696 4;
           interestPerWeek = fl_lit F 2 4;
           interestRate = fl_add F baseInterest (fl_mul F weeks interestPerWeek);
           interest = fl_mul F actualAmount
             (fl_div F (fl_mul F weeks interestRate) (fl_lit F 100 0)) in
       fl_to_u64 F interest
     else 0)"

definition calculateInterestV3 :: "'f float_ops \<Rightarrow> Currency \<Rightarrow> u64 \<Rightarrow> u32 \<Rightarrow> u64" where
  "calculateInterestV3 F c amount term =
    (let amount4Humans = amount div m_coin c;
         baseInterest = fl_lit F 29 3;
         baseInterest = (if 10000 \<le> amount4Humans \<and> amount4Humans < 20000 then fl_lit F 39 3
           else baseInterest);
         baseInterest = (if 20000 \<le> amount4Humans then fl_lit F 49 3 else baseInterest);
         months = fl_of_u64 F (ucast (term div m_depositMinTermV3 c));
         months = (if fl_less F (fl_lit F 12 0) months then fl_lit F 12 0 else months);
         ear = fl_add F baseInterest
           (fl_mul F (fl_sub F months (fl_lit F 1 0)) (fl_lit F 1 3));
         eir = fl_mul F (fl_div F ear (fl_lit F 12 0)) months;
         interest = fl_mul F (fl_of_u64 F amount) eir in
     fl_to_u64 F interest)"

definition END_MULTIPLIER_BLOCK :: u32 where "END_MULTIPLIER_BLOCK = 12750"
definition MULTIPLIER_FACTOR :: u64 where "MULTIPLIER_FACTOR = 100"

definition calculateInterest :: "'f float_ops \<Rightarrow> Currency \<Rightarrow> u64 \<Rightarrow> u32 \<Rightarrow> u32 \<Rightarrow> u64 option" where
  "calculateInterest F c amount term lockHeight =
    (let term = (if m_depositMaxTermV1 c < term then m_depositMaxTermV1 c else term) in
     if m_depositMinTermV3 c = 0 then None
     else if term mod m_depositMinTermV3 c = 0 \<and> m_depositHeightV3 c < lockHeight
     then Some (calculateInterestV3 F c amount term)
     else if term mod 64800 = 0 then Some (calculateInterestV2 F amount term)
     else if term mod 5040 = 0 then Some (calculateInterestV2 F amount term)
     else
       let termRate = ucast term * m_depositMaxTotalRate c in
       if termRate < m_depositMinTotalRateFactor c then Some 0
       else
         let a = termRate - m_depositMinTotalRateFactor c;
             (bLo, bHi) = mul128 amount a in
         if \<not> m_depositMaxTerm c < 0xFFFFFFFF div 100 then None
         else if 100 * m_depositMaxTerm c = 0 then None
         else
           let (_, cHi, cLo) = div128_32 bHi bLo (100 * m_depositMaxTerm c) in
           if cHi \<noteq> 0 then None
           else if lockHeight \<le> END_MULTIPLIER_BLOCK then
             let (interestLo, interestHi) = mul128 cLo MULTIPLIER_FACTOR in
             if interestHi \<noteq> 0 then Some (-1) else Some interestLo
           else Some cLo)"

definition getInterestForInput ::
    "'f float_ops \<Rightarrow> Currency \<Rightarrow> MultisignatureInput \<Rightarrow> u32 \<Rightarrow> u64 option" where
  "getInterestForInput F c input height =
    (if mi_term input = 0 \<or> m_depositMaxTermV1 c < mi_term input then Some 0
     else
       let lockHeight = height - mi_term input;
           lockHeight = (if height = m_blockWithMissingInterest c then height else lockHeight) in
       calculateInterest F c (mi_amount input) (mi_term input) lockHeight)"

text \<open>A loop \<open>for (x : xs) acc += f x\<close> whose body may hit a failing assertion.\<close>

fun sum_loop :: "('a \<Rightarrow> u64 option) \<Rightarrow> u64 \<Rightarrow> 'a list \<Rightarrow> u64 option" where
  "sum_loop f acc [] = Some acc"
| "sum_loop f acc (x # xs) = (case f x of None \<Rightarrow> None | Some v \<Rightarrow> sum_loop f (acc + v) xs)"

definition calculateTotalTransactionInterest ::
    "'f float_ops \<Rightarrow> Currency \<Rightarrow> Transaction \<Rightarrow> u32 \<Rightarrow> u64 option" where
  "calculateTotalTransactionInterest F c tx height =
    sum_loop (\<lambda>input. case input of
        InMultisig m \<Rightarrow> if mi_term m \<noteq> 0 then getInterestForInput F c m height else Some 0
      | _ \<Rightarrow> Some 0) 0 (tp_inputs tx)"

text \<open>\<open>input_amount_visitor\<close>.\<close>

definition getTransactionInputAmount ::
    "'f float_ops \<Rightarrow> Currency \<Rightarrow> TransactionInput \<Rightarrow> u32 \<Rightarrow> u64 option" where
  "getTransactionInputAmount F c input height =
    (case input of
       InBase _ \<Rightarrow> Some 0
     | InKey k \<Rightarrow> Some (ki_amount k)
     | InMultisig m \<Rightarrow>
         if mi_term m = 0 then Some (mi_amount m)
         else map_option ((+) (mi_amount m)) (getInterestForInput F c m height))"

definition getTransactionAllInputsAmount ::
    "'f float_ops \<Rightarrow> Currency \<Rightarrow> Transaction \<Rightarrow> u32 \<Rightarrow> u64 option" where
  "getTransactionAllInputsAmount F c tx height =
    sum_loop (\<lambda>input. getTransactionInputAmount F c input height) 0 (tp_inputs tx)"

text \<open>
  \<open>getTransactionFee\<close>: \<open>Some None\<close> is the result \<open>false\<close>. The second version returns 0 then.
\<close>

definition is_deposit_withdrawal :: "Transaction \<Rightarrow> bool" where
  "is_deposit_withdrawal tx \<longleftrightarrow>
    list_ex (\<lambda>input. case input of InMultisig m \<Rightarrow> mi_term m \<noteq> 0 | _ \<Rightarrow> False) (tp_inputs tx)"

definition getTransactionFee ::
    "'f float_ops \<Rightarrow> Currency \<Rightarrow> Transaction \<Rightarrow> u32 \<Rightarrow> u64 option option" where
  "getTransactionFee F c tx height =
    (if is_coinbase tx then Some (Some 0)
     else
       case sum_loop (\<lambda>input. getTransactionInputAmount F c input height) 0 (tp_inputs tx) of
         None \<Rightarrow> None
       | Some amount_in \<Rightarrow>
           let amount_out = fold (\<lambda>o1 acc. acc + to_amount o1) (tp_outputs tx) 0 in
           if amount_in < amount_out then
             if is_deposit_withdrawal tx then Some (Some MINIMUM_FEE) else Some None
           else Some (Some (amount_in - amount_out)))"

definition getTransactionFee_or_zero ::
    "'f float_ops \<Rightarrow> Currency \<Rightarrow> Transaction \<Rightarrow> u32 \<Rightarrow> u64 option" where
  "getTransactionFee_or_zero F c tx height =
    map_option (\<lambda>r. case r of None \<Rightarrow> 0 | Some fee \<Rightarrow> fee) (getTransactionFee F c tx height)"

definition validateOutput :: "Currency \<Rightarrow> u64 \<Rightarrow> MultisignatureOutput \<Rightarrow> u32 \<Rightarrow> bool" where
  "validateOutput c amount output height =
    (if mo_term output \<noteq> 0 then
       if m_depositHeightV4 c < height \<and>
          (mo_term output < m_depositMinTermV3 c \<or> m_depositMaxTermV3 c < mo_term output
            \<or> mo_term output mod m_depositMinTermV3 c \<noteq> 0) then False
       else if \<not> m_depositHeightV4 c < height \<and>
          (mo_term output < m_depositMinTerm c \<or> m_depositMaxTermV1 c < mo_term output) then False
       else if amount < m_depositMinAmount c then False
       else True
     else True)"

text \<open>An instance of the float operations for evaluation: truncated natural numbers.\<close>

definition integer_floats :: "nat float_ops" where
  "integer_floats = \<lparr>fl_of_u64 = unat, fl_lit = (\<lambda>d k. d div 10 ^ k), fl_add = (+), fl_sub = (-),
    fl_mul = (*), fl_div = (div), fl_less = (<), fl_compound = (\<lambda>mq q. mq * q), fl_to_u64 = of_nat\<rparr>"

section \<open>Legacy interest\<close>

text \<open>With the main network's parameters the divisor exceeds the rate: nothing overflows.\<close>

definition legacy_term :: "u32 \<Rightarrow> u32" where
  "legacy_term term = (if 1296000 < term then 1296000 else term)"

lemma legacy_interest:
  fixes amount :: u64
  assumes "unat t \<le> 1296000"
  obtains bLo bHi r cLo where "mul128 amount (ucast (t :: u32) * 4) = (bLo, bHi)"
    and "div128_32 bHi bLo 26280000 = (r, 0, cLo)"
    and "unat cLo = unat amount * (4 * unat t) div 26280000"
proof -
  obtain bLo bHi where m: "mul128 amount (ucast t * 4) = (bLo, bHi)" by (meson surj_pair)
  obtain r cHi cLo where q: "div128_32 bHi bLo 26280000 = (r, cHi, cLo)" by (meson prod_cases3)
  have a: "unat (ucast t * 4 :: u64) = unat t * 4"
    using unat_mult_exact [of "ucast t :: u64" 4] assms by simp
  have prod: "unat bHi * 2 ^ 64 + unat bLo = unat amount * (4 * unat t)"
    using mul128_exact [OF m] a by (simp add: mult.commute)
  have nz: "(26280000 :: u32) \<noteq> 0" by simp
  have "(unat cHi * 2 ^ 64 + unat cLo) * 26280000 + unat r = unat amount * (4 * unat t)"
    and "unat r < 26280000"
    using div128_32_exact [OF q nz] prod by simp_all
  then have c: "unat cHi * 2 ^ 64 + unat cLo = unat amount * (4 * unat t) div 26280000"
    by (metis div_mult_self3 div_less add.commute add_0_right zero_neq_numeral)
  have "unat amount * (4 * unat t) \<le> unat amount * 5184000" using assms by simp
  then have "unat amount * (4 * unat t) div 26280000 \<le> unat amount * 5184000 div 26280000"
    by (rule div_le_mono)
  also have "\<dots> \<le> unat amount" by simp
  finally have "unat cHi * 2 ^ 64 < 2 ^ 64" using c unat_le_max64 [of amount] by simp
  then have "cHi = 0" by (simp add: unat_eq_zero)
  with m q c that show ?thesis by auto
qed

lemma multiplied_interest:
  "case mul128 cLo 100 of (lo, hi) \<Rightarrow>
    unat (if hi \<noteq> 0 then -1 else lo :: u64) = min (unat cLo * 100) (2 ^ 64 - 1)"
proof -
  obtain lo hi where m: "mul128 cLo 100 = (lo, hi)" by (meson surj_pair)
  have e: "unat hi * 2 ^ 64 + unat lo = unat cLo * 100" using mul128_exact [OF m] by simp
  show ?thesis
  proof (cases "hi = 0")
    case True
    then show ?thesis using m e unat_le_max64 [of lo] by simp
  next
    case False
    then have "1 \<le> unat hi" by (simp add: unat_gt_0 Suc_leI)
    then have "2 ^ 64 \<le> unat cLo * 100" using e by simp
    moreover have "unat (-1 :: u64) = 2 ^ 64 - 1"
      by (simp add: unsigned_minus_1_eq_mask mask_eq_exp_minus_1)
    ultimately show ?thesis using m False by (simp add: min_def)
  qed
qed

lemma calculateInterest_legacy:
  assumes "legacy_term term mod 64800 \<noteq> 0" and "legacy_term term mod 5040 \<noteq> 0"
    and "legacy_term term mod 21900 \<noteq> 0 \<or> lockHeight \<le> 413400"
  shows "\<exists>r. calculateInterest F mainnet amount term lockHeight = Some r
    \<and> unat r = (let i = unat amount * (4 * unat (legacy_term term)) div 26280000 in
         if lockHeight \<le> 12750 then min (i * 100) (2 ^ 64 - 1) else i)"
proof -
  define t where "t = legacy_term term"
  have "unat t \<le> 1296000" by (simp add: t_def legacy_term_def word_less_nat_alt)
  then obtain bLo bHi r cLo where m: "mul128 amount (ucast t * 4) = (bLo, bHi)"
    and q: "div128_32 bHi bLo 26280000 = (r, 0, cLo)"
    and c: "unat cLo = unat amount * (4 * unat t) div 26280000"
    by (rule legacy_interest)
  obtain lo hi where ml: "mul128 cLo 100 = (lo, hi)" by (meson surj_pair)
  have clamp: "(if m_depositMaxTermV1 mainnet < term then m_depositMaxTermV1 mainnet else term) = t"
    by (simp add: t_def legacy_term_def)
  have not3: "\<not> (t mod 21900 = 0 \<and> 413400 < lockHeight)" using assms(3) by (auto simp: t_def)
  have "calculateInterest F mainnet amount term lockHeight = Some (if lockHeight \<le> 12750 then
      (if hi \<noteq> 0 then -1 else lo) else cLo)"
    unfolding calculateInterest_def clamp
    using assms(1,2) not3 m q ml
    by (auto simp: END_MULTIPLIER_BLOCK_def MULTIPLIER_FACTOR_def simp flip: t_def)
  then show ?thesis using c multiplied_interest [of cLo] ml by (auto simp: Let_def t_def)
qed

section \<open>Fees\<close>

lemma sum_loop_Some:
  "(\<And>x. x \<in> set xs \<Longrightarrow> f x = Some (g x)) \<Longrightarrow> sum_loop f acc xs = Some (fold (\<lambda>x acc. acc + g x) xs acc)"
  by (induction xs arbitrary: acc) simp_all

lemma unat_sum_exact:
  assumes "(\<Sum>x\<leftarrow>xs. unat (g x :: u64)) < 2 ^ 64"
  shows "unat (fold (\<lambda>x acc. acc + g x) xs 0) = (\<Sum>x\<leftarrow>xs. unat (g x))"
  using assms unat_fold_add [of g xs 0] by simp

section \<open>Properties\<close>

text \<open>
  C31. For main-network deposits outside the two newer schemes, the interest
  is exactly \<open>amount * 4 * term / (100 * 262800)\<close> rounded down, with the term capped at five
  years, and a hundred times that, saturated at the largest 64-bit number, for deposits locked up
  to block 12750. No assertion of the function can fail there, whatever the amount.
\<close>

theorem legacy_interest_exact:
  assumes "legacy_term term mod 64800 \<noteq> 0" and "legacy_term term mod 5040 \<noteq> 0"
    and "legacy_term term mod 21900 \<noteq> 0 \<or> lockHeight \<le> 413400"
  shows "\<exists>r. calculateInterest F mainnet amount term lockHeight = Some r
    \<and> unat r = (let i = unat amount * (4 * unat (legacy_term term)) div 26280000 in
         if lockHeight \<le> 12750 then min (i * 100) (2 ^ 64 - 1) else i)"
  using assms by (rule calculateInterest_legacy)

theorem legacy_interest_exact_witness:
  "\<exists>r. calculateInterest integer_floats mainnet 1000000000 6570 20000 = Some r \<and> unat r = 1000000"
  using legacy_interest_exact [of 6570 20000 integer_floats 1000000000]
  by (simp add: legacy_term_def)

text \<open>
  The investment tiers leave out one value: an amount of exactly 2000000 coins falls between the
  two highest tiers and gets the lowest factor.
\<close>

lemma investment_tier_gap:
  "qTier F 1999999 = fl_lit F 114 2 \<and> qTier F 2000000 = fl_lit F 1 0 \<and> qTier F 2000001 = fl_lit F 115 2"
  by (simp add: qTier_def)

text \<open>
  C33. When neither side of a transaction overflows 64 bits, its fee is the
  difference of the input amounts (with the interest of deposits) and the output amounts; outputs
  above the inputs make the fee invalid, except for a transaction that spends a deposit, which is
  then given the constant minimum fee. A coinbase transaction has the fee 0, whatever its amounts.
\<close>

theorem transaction_fee_rule:
  assumes "\<not> is_coinbase tx \<Longrightarrow> \<forall>i\<in>set (tp_inputs tx). getTransactionInputAmount F c i height = Some (amt i)"
    and "\<not> is_coinbase tx \<Longrightarrow> (\<Sum>i\<leftarrow>tp_inputs tx. unat (amt i)) < 2 ^ 64"
    and "\<not> is_coinbase tx \<Longrightarrow> (\<Sum>out\<leftarrow>tp_outputs tx. unat (to_amount out)) < 2 ^ 64"
  shows "\<exists>r. getTransactionFee F c tx height = Some r
    \<and> map_option unat r =
       (if is_coinbase tx then Some 0
        else if (\<Sum>out\<leftarrow>tp_outputs tx. unat (to_amount out)) \<le> (\<Sum>i\<leftarrow>tp_inputs tx. unat (amt i))
        then Some ((\<Sum>i\<leftarrow>tp_inputs tx. unat (amt i)) - (\<Sum>out\<leftarrow>tp_outputs tx. unat (to_amount out)))
        else if is_deposit_withdrawal tx then Some 10 else None)"
proof (cases "is_coinbase tx")
  case True
  then show ?thesis by (simp add: getTransactionFee_def)
next
  case False
  note assms = assms [OF False]
  define inA where "inA = fold (\<lambda>i acc. acc + amt i) (tp_inputs tx) 0"
  define outA where "outA = fold (\<lambda>out acc. acc + to_amount out) (tp_outputs tx) 0"
  have loop: "sum_loop (\<lambda>i. getTransactionInputAmount F c i height) 0 (tp_inputs tx) = Some inA"
    unfolding inA_def using assms(1) by (intro sum_loop_Some) blast
  have ia: "unat inA = (\<Sum>i\<leftarrow>tp_inputs tx. unat (amt i))"
    unfolding inA_def using assms(2) by (rule unat_sum_exact)
  have oa: "unat outA = (\<Sum>out\<leftarrow>tp_outputs tx. unat (to_amount out))"
    unfolding outA_def using assms(3) by (rule unat_sum_exact)
  have fee: "getTransactionFee F c tx height = Some (if outA \<le> inA then Some (inA - outA)
      else if is_deposit_withdrawal tx then Some MINIMUM_FEE else None)"
    using False loop by (auto simp: getTransactionFee_def Let_def not_less simp flip: outA_def)
  show ?thesis
    unfolding fee ia [symmetric] oa [symmetric] if_not_P [OF False]
    by (auto simp: word_le_nat_alt unat_sub_exact MINIMUM_FEE_def)
qed

theorem transaction_fee_rule_witness:
  "\<exists>r. getTransactionFee integer_floats mainnet
      \<lparr>tp_version = 1, tp_unlockTime = 0,
       tp_inputs = [InKey \<lparr>ki_amount = 50, ki_outputIndexes = [1], ki_keyImage = 2\<rparr>],
       tp_outputs = [\<lparr>to_amount = 30, to_target = OutKey \<lparr>ko_key = 3\<rparr>\<rparr>],
       tp_extra = [], tx_signatures = []\<rparr> 700000 = Some r
    \<and> map_option unat r = Some 20"
  using transaction_fee_rule [of
      "\<lparr>tp_version = 1, tp_unlockTime = 0,
       tp_inputs = [InKey \<lparr>ki_amount = 50, ki_outputIndexes = [1], ki_keyImage = 2\<rparr>],
       tp_outputs = [\<lparr>to_amount = 30, to_target = OutKey \<lparr>ko_key = 3\<rparr>\<rparr>],
       tp_extra = [], tx_signatures = []\<rparr>"
      integer_floats mainnet 700000 "\<lambda>_. 50"]
  by (simp add: is_coinbase_def getTransactionInputAmount_def)

text \<open>
  C32. A deposit that \<open>validateOutput\<close> accepts after block 1162162 has a
  term of one to twelve whole months, and its interest is always computed by the monthly formula:
  for every lock height after that block \<open>calculateInterest\<close> returns \<open>calculateInterestV3\<close> on
  the unclamped term.
\<close>

theorem validated_deposit_interest:
  assumes "validateOutput mainnet amount output height" and "1162162 < height"
    and "mo_term output \<noteq> 0" and "1162162 < lockHeight"
  shows "(\<exists>months. 1 \<le> months \<and> months \<le> 12 \<and> unat (mo_term output) = 21900 * months)
    \<and> 1000000 \<le> amount
    \<and> calculateInterest F mainnet amount (mo_term output) lockHeight
        = Some (calculateInterestV3 F mainnet amount (mo_term output))"
proof -
  have v: "21900 \<le> mo_term output" "mo_term output \<le> 262800" "mo_term output mod 21900 = 0"
      "1000000 \<le> amount"
    using assms(1-3) by (auto simp: validateOutput_def not_less split: if_splits)
  have "unat (mo_term output mod 21900) = unat (mo_term output) mod 21900"
    by (simp add: unat_mod_nat)
  then have "21900 dvd unat (mo_term output)" using v(3) by (simp add: mod_eq_0_iff_dvd)
  then obtain k where k: "unat (mo_term output) = 21900 * k" by blast
  have "21900 \<le> unat (mo_term output)" "unat (mo_term output) \<le> 262800"
    using v(1,2) by (simp_all add: word_le_nat_alt)
  then have months: "1 \<le> k" "k \<le> 12" using k by auto
  have "\<not> 1296000 < mo_term output" and "413400 < lockHeight"
    using v(2) assms(4) by (simp_all add: word_le_nat_alt word_less_nat_alt)
  then have "calculateInterest F mainnet amount (mo_term output) lockHeight
      = Some (calculateInterestV3 F mainnet amount (mo_term output))"
    using v(3) by (simp add: calculateInterest_def)
  with months k v(4) show ?thesis by blast
qed

theorem validated_deposit_interest_witness:
  "calculateInterest integer_floats mainnet 5000000 43800 1300000
    = Some (calculateInterestV3 integer_floats mainnet 5000000 43800)"
  using validated_deposit_interest [of 5000000
      "\<lparr>mo_keys = [1], mo_requiredSignatureCount = 1, mo_term = 43800\<rparr>" 1200000 1300000,
      where F = integer_floats]
  by (simp add: validateOutput_def)

end
