(* ===== verification/Format_Utils.thy ===== *)
theory Format_Utils
  imports Currency_Base
begin

text \<open>
  Stateless checks and helpers on transactions of \<open>src/CryptoNoteCore/CryptoNoteFormatUtils.cpp\<close> and
  \<open>CryptoNoteTools.cpp\<close>: amounts, overflow checks, input and output checks, output offsets and the
  decomposition of amounts into digits. The curve check \<open>check_key\<close> of the crypto library is an
  argument.
\<close>

definition input_amount :: "TransactionInput \<Rightarrow> u64" where
  "input_amount i = (case i of InKey k \<Rightarrow> ki_amount k | InMultisig m \<Rightarrow> mi_amount m | InBase _ \<Rightarrow> 0)"

definition get_inputs_money_amount :: "Transaction \<Rightarrow> u64" where
  "get_inputs_money_amount tx = fold (\<lambda>i money. money + input_amount i) (tp_inputs tx) 0"

definition get_outs_money_amount :: "Transaction \<Rightarrow> u64" where
  "get_outs_money_amount tx = fold (\<lambda>out money. money + to_amount out) (tp_outputs tx) 0"

definition getInputAmount :: "Transaction \<Rightarrow> u64" where
  "getInputAmount transaction = fold (\<lambda>i amount. case i of
      InKey k \<Rightarrow> amount + ki_amount k
    | InMultisig m \<Rightarrow> amount + mi_amount m
    | InBase _ \<Rightarrow> amount) (tp_inputs transaction) 0"

definition getInputsAmounts :: "Transaction \<Rightarrow> u64 list" where
  "getInputsAmounts transaction = concat (map (\<lambda>i. case i of
      InKey k \<Rightarrow> [ki_amount k]
    | InMultisig m \<Rightarrow> [mi_amount m]
    | InBase _ \<Rightarrow> []) (tp_inputs transaction))"

definition getOutputAmount :: "Transaction \<Rightarrow> u64" where
  "getOutputAmount transaction = fold (\<lambda>out amount. amount + to_amount out) (tp_outputs transaction) 0"

definition get_block_height :: "Block \<Rightarrow> u32" where
  "get_block_height b =
    (case tp_inputs (bl_baseTransaction b) of [InBase i] \<Rightarrow> bi_blockIndex i | _ \<Rightarrow> 0)"

definition check_inputs_types_supported :: "Transaction \<Rightarrow> bool" where
  "check_inputs_types_supported tx = list_all (\<lambda>i. case i of
      InMultisig _ \<Rightarrow> \<not> tp_version tx < 2
    | InKey _ \<Rightarrow> True
    | InBase _ \<Rightarrow> False) (tp_inputs tx)"

text \<open>
  \<open>check_outs_valid\<close> with its error pointer: \<open>None\<close> is the dereference of a null pointer,
  otherwise the result and the message that was stored. Without a pointer nothing is stored.
\<close>

fun check_outs_loop ::
    "(PublicKey \<Rightarrow> bool) \<Rightarrow> bool \<Rightarrow> u8 \<Rightarrow> TransactionOutput list \<Rightarrow> (bool \<times> string option) option" where
  "check_outs_loop check_key has_error version [] = Some (True, None)"
| "check_outs_loop check_key has_error version (out # outs) =
    (case to_target out of
       OutKey k \<Rightarrow>
         if to_amount out = 0 then Some (False, if has_error then Some ''Zero amount ouput'' else None)
         else if \<not> check_key (ko_key k) then
           Some (False, if has_error then Some ''Output with invalid key'' else None)
         else check_outs_loop check_key has_error version outs
     | OutMultisig m \<Rightarrow>
         if version < 2 then
           if has_error
           then Some (False, Some ''Transaction contains multisignature output but its version is less than 2'')
           else None
         else if length (mo_keys m) < unat (mo_requiredSignatureCount m) then
           Some (False, if has_error then Some ''Multisignature output with invalid required signature count'' else None)
         else if \<not> list_all check_key (mo_keys m) then
           Some (False, if has_error then Some ''Multisignature output with invalid public key'' else None)
         else check_outs_loop check_key has_error version outs)"

definition check_outs_valid ::
    "(PublicKey \<Rightarrow> bool) \<Rightarrow> bool \<Rightarrow> Transaction \<Rightarrow> (bool \<times> string option) option" where
  "check_outs_valid check_key has_error tx = check_outs_loop check_key has_error (tp_version tx) (tp_outputs tx)"

fun multisig_diff_loop :: "(u64 \<times> u32) set \<Rightarrow> TransactionInput list \<Rightarrow> bool" where
  "multisig_diff_loop inputsUsage [] = True"
| "multisig_diff_loop inputsUsage (input # inputs) =
    (case input of
       InMultisig m \<Rightarrow>
         if (mi_amount m, mi_outputIndex m) \<in> inputsUsage then False
         else multisig_diff_loop (insert (mi_amount m, mi_outputIndex m) inputsUsage) inputs
     | _ \<Rightarrow> multisig_diff_loop inputsUsage inputs)"

definition checkMultisignatureInputsDiff :: "Transaction \<Rightarrow> bool" where
  "checkMultisignatureInputsDiff tx = multisig_diff_loop {} (tp_inputs tx)"

definition DEPOSIT_MAX_TOTAL_RATE :: u64 where "DEPOSIT_MAX_TOTAL_RATE = 4"

fun inputs_overflow_loop :: "u64 \<Rightarrow> TransactionInput list \<Rightarrow> bool" where
  "inputs_overflow_loop money [] = True"
| "inputs_overflow_loop money (i # inputs) =
    (let checked = (case i of
           InKey k \<Rightarrow> Some (ki_amount k)
         | InMultisig m \<Rightarrow>
             if mi_term m \<noteq> 0 then
               let amount = mi_amount m;
                   (lo, hi) = mul128 amount DEPOSIT_MAX_TOTAL_RATE;
                   (_, maxInterestHi, maxInterestLo) = div128_32 hi lo 100 in
               if 0 < maxInterestHi then None
               else if -1 - maxInterestLo < amount then None
               else Some (amount + maxInterestLo)
             else Some (mi_amount m)
         | InBase _ \<Rightarrow> Some 0) in
     case checked of
       None \<Rightarrow> False
     | Some amount \<Rightarrow>
         if amount + money < money then False else inputs_overflow_loop (money + amount) inputs)"

definition check_inputs_overflow :: "Transaction \<Rightarrow> bool" where
  "check_inputs_overflow tx = inputs_overflow_loop 0 (tp_inputs tx)"

fun outs_overflow_loop :: "u64 \<Rightarrow> TransactionOutput list \<Rightarrow> bool" where
  "outs_overflow_loop money [] = True"
| "outs_overflow_loop money (out # outs) =
    (if to_amount out + money < money then False
     else outs_overflow_loop (money + to_amount out) outs)"

definition check_outs_overflow :: "Transaction \<Rightarrow> bool" where
  "check_outs_overflow tx = outs_overflow_loop 0 (tp_outputs tx)"

definition check_money_overflow :: "Transaction \<Rightarrow> bool" where
  "check_money_overflow tx \<longleftrightarrow> check_inputs_overflow tx \<and> check_outs_overflow tx"

fun to_absolute_loop :: "u32 \<Rightarrow> u32 list \<Rightarrow> u32 list" where
  "to_absolute_loop previous [] = []"
| "to_absolute_loop previous (x # xs) = (x + previous) # to_absolute_loop (x + previous) xs"

definition relative_output_offsets_to_absolute :: "u32 list \<Rightarrow> u32 list" where
  "relative_output_offsets_to_absolute off =
    (case off of [] \<Rightarrow> [] | x # xs \<Rightarrow> x # to_absolute_loop x xs)"

text \<open>The loop runs from the end, so every element is reduced by its unchanged predecessor.\<close>

fun to_relative_loop :: "u32 \<Rightarrow> u32 list \<Rightarrow> u32 list" where
  "to_relative_loop previous [] = []"
| "to_relative_loop previous (x # xs) = (x - previous) # to_relative_loop x xs"

definition absolute_output_offsets_to_relative :: "u32 list \<Rightarrow> u32 list" where
  "absolute_output_offsets_to_relative off =
    (case sort off of [] \<Rightarrow> [] | x # xs \<Rightarrow> x # to_relative_loop x xs)"

section \<open>Overflow checks\<close>

lemma no_carry_iff: "\<not> (a + money < (money :: u64)) \<longleftrightarrow> unat money + unat a < 2 ^ 64"
  unfolding add.commute [of a money] add_carry_iff by (simp add: not_le)

lemma outs_overflow_loop_iff:
  "outs_overflow_loop money outs \<longleftrightarrow> unat money + (\<Sum>out\<leftarrow>outs. unat (to_amount out)) < 2 ^ 64"
proof (induction outs arbitrary: money)
  case Nil
  then show ?case using unat_le_max64 [of money] by simp
next
  case (Cons out outs)
  show ?case
  proof (cases "unat money + unat (to_amount out) < 2 ^ 64")
    case True
    then have "unat (money + to_amount out) = unat money + unat (to_amount out)"
      using unat_add_exact [of money "to_amount out"] by simp
    with True Cons show ?thesis using no_carry_iff [of "to_amount out" money] by (simp add: add.assoc)
  next
    case False
    then show ?thesis using no_carry_iff [of "to_amount out" money] by simp
  qed
qed

text \<open>The amount the input check counts: a deposit with the largest legacy interest, 4%.\<close>

definition counted_amount :: "TransactionInput \<Rightarrow> nat" where
  "counted_amount i = (case i of
      InKey k \<Rightarrow> unat (ki_amount k)
    | InMultisig m \<Rightarrow> unat (mi_amount m) + (if mi_term m \<noteq> 0 then unat (mi_amount m) * 4 div 100 else 0)
    | InBase _ \<Rightarrow> 0)"

lemma four_percent:
  obtains lo hi r l where "mul128 amount 4 = (lo, hi)" and "div128_32 hi lo 100 = (r, 0, l)"
    and "unat l = unat amount * 4 div 100"
proof -
  obtain lo hi where m: "mul128 amount 4 = (lo, hi)" by (meson surj_pair)
  obtain r h l where q: "div128_32 hi lo 100 = (r, h, l)" by (meson prod_cases3)
  have nz: "(100 :: u32) \<noteq> 0" by simp
  have "(unat h * 2 ^ 64 + unat l) * 100 + unat r = unat amount * 4" and "unat r < 100"
    using div128_32_exact [OF q nz] mul128_exact [OF m] by simp_all
  then have c: "unat h * 2 ^ 64 + unat l = unat amount * 4 div 100"
    by (simp only: quotient_eq)
  then have "unat h * 2 ^ 64 < 2 ^ 64" using unat_le_max64 [of amount] by simp
  then have "h = 0" by (simp add: unat_eq_zero)
  with m q c that show ?thesis by auto
qed

lemma max_minus_less_iff: "(-1 - y :: u64) < x \<longleftrightarrow> 2 ^ 64 \<le> unat x + unat y"
proof -
  have "unat (-1 - y) = 2 ^ 64 - 1 - unat y"
    using unat_sub_exact [of y "-1"] by (simp add: unsigned_minus_1_eq_mask mask_eq_exp_minus_1)
  then show ?thesis
    using unat_le_max64 [of y] unat_le_max64 [of x] by (auto simp: word_less_nat_alt)
qed

definition checked_amount :: "TransactionInput \<Rightarrow> u64 option" where
  "checked_amount i = (if counted_amount i < 2 ^ 64 then Some (of_nat (counted_amount i)) else None)"

lemma inputs_overflow_step:
  "inputs_overflow_loop money (i # inputs) =
    (case checked_amount i of
       None \<Rightarrow> False
     | Some amount \<Rightarrow>
         if amount + money < money then False else inputs_overflow_loop (money + amount) inputs)"
proof (cases i)
  case (InMultisig m)
  show ?thesis
  proof (cases "mi_term m = 0")
    case True
    then show ?thesis
      using InMultisig unat_le_max64 [of "mi_amount m"] by (simp add: checked_amount_def counted_amount_def)
  next
    case False
    obtain lo hi r l where "mul128 (mi_amount m) 4 = (lo, hi)" "div128_32 hi lo 100 = (r, 0, l)"
      and l: "unat l = unat (mi_amount m) * 4 div 100"
      by (rule four_percent)
    moreover have "(-1 - l < mi_amount m) \<longleftrightarrow> \<not> counted_amount i < 2 ^ 64"
      using InMultisig False l max_minus_less_iff by (auto simp: counted_amount_def)
    moreover have "of_nat (counted_amount i) = mi_amount m + l"
    proof -
      have "counted_amount i = unat (mi_amount m) + unat l"
        using InMultisig False l by (simp add: counted_amount_def)
      then show ?thesis by (simp only: of_nat_add of_nat_unat ucast_id)
    qed
    ultimately show ?thesis
      using InMultisig False
      by (simp add: checked_amount_def DEPOSIT_MAX_TOTAL_RATE_def Let_def split: prod.splits if_splits)
  qed
qed (simp_all add: checked_amount_def counted_amount_def unat_le_max64)

lemma inputs_overflow_loop_iff:
  "inputs_overflow_loop money inputs \<longleftrightarrow> unat money + (\<Sum>i\<leftarrow>inputs. counted_amount i) < 2 ^ 64"
proof (induction inputs arbitrary: money)
  case Nil
  then show ?case using unat_le_max64 [of money] by simp
next
  case (Cons i inputs)
  show ?case
  proof (cases "counted_amount i < 2 ^ 64")
    case True
    define a :: u64 where "a = of_nat (counted_amount i)"
    have a: "unat a = counted_amount i" unfolding a_def using True by (intro unat_of_nat_less) simp
    show ?thesis
    proof (cases "unat money + unat a < 2 ^ 64")
      case fits: True
      then have "unat (money + a) = unat money + unat a"
        using unat_add_exact [of money a] by simp
      with fits True Cons show ?thesis
        using no_carry_iff [of a money] unfolding inputs_overflow_step
        by (simp add: checked_amount_def add.assoc a flip: a_def)
    next
      case False
      with True show ?thesis
        using no_carry_iff [of a money] a unfolding inputs_overflow_step
        by (simp add: checked_amount_def flip: a_def)
    qed
  next
    case False
    then show ?thesis unfolding inputs_overflow_step by (simp add: checked_amount_def)
  qed
qed

section \<open>Multisignature inputs\<close>

definition multisig_refs :: "TransactionInput list \<Rightarrow> (u64 \<times> u32) list" where
  "multisig_refs inputs = concat (map (\<lambda>i. case i of
      InMultisig m \<Rightarrow> [(mi_amount m, mi_outputIndex m)] | _ \<Rightarrow> []) inputs)"

lemma multisig_refs_simps [simp]:
  "multisig_refs [] = []"
  "multisig_refs (i # inputs) = (case i of
      InMultisig m \<Rightarrow> (mi_amount m, mi_outputIndex m) # multisig_refs inputs
    | _ \<Rightarrow> multisig_refs inputs)"
  by (auto simp: multisig_refs_def split: TransactionInput.splits)

lemma multisig_diff_loop_iff:
  "multisig_diff_loop used inputs \<longleftrightarrow> distinct (multisig_refs inputs) \<and> set (multisig_refs inputs) \<inter> used = {}"
  by (induction inputs arbitrary: used) (auto split: TransactionInput.splits)

section \<open>Output offsets\<close>

lemma to_absolute_to_relative: "to_absolute_loop p (to_relative_loop p xs) = xs"
  by (induction xs arbitrary: p) simp_all

lemma to_relative_to_absolute: "to_relative_loop p (to_absolute_loop p xs) = xs"
  by (induction xs arbitrary: p) simp_all

lemma to_absolute_sorted:
  "unat p + (\<Sum>x\<leftarrow>xs. unat x) < 2 ^ 32 \<Longrightarrow> sorted (p # to_absolute_loop p xs)"
proof (induction xs arbitrary: p)
  case (Cons x xs)
  have e: "unat (x + p) = unat x + unat p"
    by (rule unat_add_exact) (use Cons.prems in simp)
  then have "unat (x + p) + (\<Sum>x\<leftarrow>xs. unat x) < 2 ^ 32" using Cons.prems by simp
  from Cons.IH [OF this] show ?case using e by (auto simp: word_le_nat_alt)
qed simp

lemma absolute_of_relative:
  "relative_output_offsets_to_absolute (absolute_output_offsets_to_relative off) = sort off"
  by (auto simp: relative_output_offsets_to_absolute_def absolute_output_offsets_to_relative_def
      to_absolute_to_relative split: list.splits)

lemma relative_of_absolute:
  assumes "(\<Sum>x\<leftarrow>off. unat x) < 2 ^ 32"
  shows "absolute_output_offsets_to_relative (relative_output_offsets_to_absolute off) = off"
proof (cases off)
  case Nil
  then show ?thesis
    by (simp add: relative_output_offsets_to_absolute_def absolute_output_offsets_to_relative_def)
next
  case (Cons x xs)
  then have "sorted (x # to_absolute_loop x xs)" using assms by (intro to_absolute_sorted) simp
  then have "sort (x # to_absolute_loop x xs) = x # to_absolute_loop x xs" by (rule sorted_sort_id)
  with Cons show ?thesis
    by (simp only: relative_output_offsets_to_absolute_def absolute_output_offsets_to_relative_def
        list.case to_relative_to_absolute)
qed

section \<open>Outputs\<close>

text \<open>
  Called without an error pointer, \<open>check_outs_valid\<close> writes through it for a multisignature output
  of a version 1 transaction that is reached by the loop.
\<close>

lemma check_outs_valid_null_error:
  assumes "tp_outputs tx = \<lparr>to_amount = a, to_target = OutMultisig m\<rparr> # outs" and "tp_version tx = 1"
  shows "check_outs_valid check_key False tx = None"
  using assms by (simp add: check_outs_valid_def)

lemma check_outs_loop_True:
  "check_outs_loop check_key has_error version outs = Some (True, e) \<longleftrightarrow> e = None \<and>
    (\<forall>out\<in>set outs. case to_target out of
       OutKey k \<Rightarrow> to_amount out \<noteq> 0 \<and> check_key (ko_key k)
     | OutMultisig m \<Rightarrow> 2 \<le> version \<and> unat (mo_requiredSignatureCount m) \<le> length (mo_keys m)
         \<and> (\<forall>key\<in>set (mo_keys m). check_key key))"
  by (induction outs) (auto simp: list_all_iff not_less split: TransactionOutputTarget.splits if_splits)

section \<open>Properties\<close>

text \<open>
  C34. The overflow check accepts a transaction exactly when the exact sum of
  the output amounts and the exact sum of the input amounts, each deposit counted with 4%
  interest, stay below \<open>2 ^ 64\<close>; the wrapped comparisons of the loops decide this correctly.
\<close>

theorem money_overflow_rule:
  "check_money_overflow tx \<longleftrightarrow>
    (\<Sum>i\<leftarrow>tp_inputs tx. counted_amount i) < 2 ^ 64
    \<and> (\<Sum>out\<leftarrow>tp_outputs tx. unat (to_amount out)) < 2 ^ 64"
  by (simp add: check_money_overflow_def check_inputs_overflow_def check_outs_overflow_def
      inputs_overflow_loop_iff outs_overflow_loop_iff)

text \<open>
  \<open>checkMultisignatureInputsDiff\<close> accepts a transaction exactly when
  no two of its multisignature inputs refer to the same amount and output index.
\<close>

theorem multisig_inputs_distinct:
  "checkMultisignatureInputsDiff tx \<longleftrightarrow> distinct (multisig_refs (tp_inputs tx))"
  by (simp add: checkMultisignatureInputsDiff_def multisig_diff_loop_iff)

text \<open>
  Converting absolute output indexes to offsets and back gives the
  sorted indexes, for any indexes; converting offsets to indexes and back gives the same offsets,
  provided that their sum fits 32 bits.
\<close>

theorem output_offsets_round_trip:
  "relative_output_offsets_to_absolute (absolute_output_offsets_to_relative off) = sort off
   \<and> ((\<Sum>x\<leftarrow>off. unat x) < 2 ^ 32 \<longrightarrow>
       absolute_output_offsets_to_relative (relative_output_offsets_to_absolute off) = off)"
  by (simp add: absolute_of_relative relative_of_absolute)

theorem output_offsets_round_trip_witness:
  "absolute_output_offsets_to_relative (relative_output_offsets_to_absolute [5, 2, 7]) = [5, 2, 7]"
  using output_offsets_round_trip [of "[5, 2, 7]"] by simp

end
