(* ===== verification/Amounts.thy ===== *)
theory Amounts
  imports Format_Utils "HOL-Library.Char_ord"
begin

text \<open>
  Amounts as digits and as text: \<open>decompose_amount_into_digits\<close>
  (\<open>src/CryptoNoteCore/CryptoNoteFormatUtils.h\<close>), \<open>decomposeAmount\<close>
  (\<open>CryptoNoteTools.cpp\<close>), and the table of pretty amounts, the fusion checks and the formatting
  of amounts of \<open>Currency.cpp\<close>.
\<close>

datatype amount_piece = Chunk u64 | Dust u64

fun piece_amount :: "amount_piece \<Rightarrow> u64" where
  "piece_amount (Chunk a) = a"
| "piece_amount (Dust a) = a"

text \<open>The while loop; the result is the sequence of calls to the two handlers.\<close>

function decompose_loop :: "u64 \<Rightarrow> bool \<Rightarrow> u64 \<Rightarrow> u64 \<Rightarrow> u64 \<Rightarrow> amount_piece list" where
  "decompose_loop dust_threshold is_dust_handled dust order amount =
    (if amount = 0 then (if \<not> is_dust_handled \<and> dust \<noteq> 0 then [Dust dust] else [])
     else
       let chunk = (amount mod 10) * order in
       if dust + chunk \<le> dust_threshold then
         decompose_loop dust_threshold is_dust_handled (dust + chunk) (order * 10) (amount div 10)
       else
         (if \<not> is_dust_handled \<and> dust \<noteq> 0 then [Dust dust] else [])
         @ (if chunk \<noteq> 0 then [Chunk chunk] else [])
         @ decompose_loop dust_threshold (is_dust_handled \<or> dust \<noteq> 0) dust (order * 10) (amount div 10))"
  by pat_completeness auto
termination
  by (relation "measure (\<lambda>(t, h, d, k, amount). unat amount)")
    (simp_all add: unat_div_nat unat_gt_0)

declare decompose_loop.simps [simp del]

definition decompose_amount_into_digits :: "u64 \<Rightarrow> u64 \<Rightarrow> amount_piece list" where
  "decompose_amount_into_digits amount dust_threshold =
    (if amount = 0 then [] else decompose_loop dust_threshold False 0 1 amount)"

definition decomposeAmount :: "u64 \<Rightarrow> u64 \<Rightarrow> u64 list" where
  "decomposeAmount amount dustThreshold =
    map piece_amount (decompose_amount_into_digits amount dustThreshold)"

definition PRETTY_AMOUNTS :: "u64 list" where
  "PRETTY_AMOUNTS =
    concat (map (\<lambda>k. map (\<lambda>d. of_nat (d * 10 ^ k)) [1..<10]) [0..<19]) @ [10000000000000000000]"

text \<open>\<open>std::lower_bound\<close> on the sorted table and the test of the element found.\<close>

definition is_valid_decomposed_amount :: "u64 \<Rightarrow> bool" where
  "is_valid_decomposed_amount amount =
    (let it = length (takeWhile (\<lambda>a. a < amount) PRETTY_AMOUNTS) in
     if it = length PRETTY_AMOUNTS \<or> amount \<noteq> PRETTY_AMOUNTS ! it then False else True)"

definition isAmountApplicableInFusionTransactionInput ::
    "Currency \<Rightarrow> u64 \<Rightarrow> u64 \<Rightarrow> u32 \<Rightarrow> u8 option" where
  "isAmountApplicableInFusionTransactionInput c amount threshold height =
    (if threshold \<le> amount then None
     else if (ucast height :: u64) < 45000 \<and> amount < m_defaultDustThreshold c then None
     else
       let it = length (takeWhile (\<lambda>a. a < amount) PRETTY_AMOUNTS) in
       if it = length PRETTY_AMOUNTS \<or> amount \<noteq> PRETTY_AMOUNTS ! it then None
       else Some (of_nat (it div 9)))"

fun fusion_sum :: "u64 \<Rightarrow> u64 \<Rightarrow> u64 list \<Rightarrow> u64 option" where
  "fusion_sum dust inputAmount [] = Some inputAmount"
| "fusion_sum dust inputAmount (amount # amounts) =
    (if amount < dust then None else fusion_sum dust (inputAmount + amount) amounts)"

definition isFusionTransaction_amounts :: "Currency \<Rightarrow> u64 list \<Rightarrow> u64 list \<Rightarrow> u64 \<Rightarrow> bool" where
  "isFusionTransaction_amounts c inputsAmounts outputsAmounts txSize =
    (if m_fusionTxMaxSize c < txSize then False
     else if of_nat (length inputsAmounts) < m_fusionTxMinInputCount c then False
     else if (of_nat (length inputsAmounts) :: u64)
         < of_nat (length outputsAmounts) * m_fusionTxMinInOutCountRatio c then False
     else
       case fusion_sum (m_defaultDustThreshold c) 0 inputsAmounts of
         None \<Rightarrow> False
       | Some inputAmount \<Rightarrow>
           sort (decomposeAmount inputAmount (m_defaultDustThreshold c)) = outputsAmounts)"

text \<open>The size of the serialized transaction is an argument; the assertion compares it.\<close>

definition isFusionTransaction :: "Currency \<Rightarrow> (Transaction \<Rightarrow> u64) \<Rightarrow> Transaction \<Rightarrow> u64 \<Rightarrow> bool option" where
  "isFusionTransaction c getObjectBinarySize transaction txSize =
    (if getObjectBinarySize transaction \<noteq> txSize then None
     else Some (isFusionTransaction_amounts c (getInputsAmounts transaction)
       (map to_amount (tp_outputs transaction)) txSize))"

text \<open>\<open>std::to_string\<close> and the decimal value of a digit string.\<close>

definition digit_char :: "nat \<Rightarrow> char" where
  "digit_char d = char_of (48 + d)"

definition digit_value :: "char \<Rightarrow> nat" where
  "digit_value c = of_char c - 48"

definition isdigit :: "char \<Rightarrow> bool" where
  "isdigit c \<longleftrightarrow> 48 \<le> (of_char c :: nat) \<and> (of_char c :: nat) \<le> 57"

fun to_string :: "nat \<Rightarrow> string" where
  "to_string n = (if n < 10 then [digit_char n] else to_string (n div 10) @ [digit_char (n mod 10)])"

declare to_string.simps [simp del]

definition dec_value :: "string \<Rightarrow> nat" where
  "dec_value s = foldl (\<lambda>acc c. 10 * acc + digit_value c) 0 s"

definition formatAmount :: "Currency \<Rightarrow> u64 \<Rightarrow> string" where
  "formatAmount c amount =
    (let places = unat (m_numberOfDecimalPlaces c);
         s = to_string (unat amount);
         s = (if length s < places + 1 then replicate (places + 1 - length s) CHR ''0'' @ s else s) in
     take (length s - places) s @ ''.'' @ drop (length s - places) s)"

text \<open>
  \<open>formatAmount(int64_t)\<close>. \<open>std::abs\<close> of the smallest \<open>int64_t\<close> is undefined; the cast of the
  wrapped value is the same word.
\<close>

definition formatAmount_signed :: "Currency \<Rightarrow> 64 word \<Rightarrow> string" where
  "formatAmount_signed c amount =
    (let s = formatAmount c (of_int \<bar>sint amount\<bar>) in if sint amount < 0 then ''-'' @ s else s)"

definition isspace :: "char \<Rightarrow> bool" where
  "isspace c \<longleftrightarrow> (of_char c :: nat) = 32 \<or> (9 \<le> (of_char c :: nat) \<and> (of_char c :: nat) \<le> 13)"

definition trim :: "string \<Rightarrow> string" where
  "trim s = rev (dropWhile isspace (rev (dropWhile isspace s)))"

text \<open>The loop that drops trailing zeros of a fraction that is too long.\<close>

function strip_zeros :: "nat \<Rightarrow> string \<Rightarrow> nat \<Rightarrow> string \<times> nat" where
  "strip_zeros places s fractionSize =
    (if places < fractionSize \<and> s \<noteq> [] \<and> last s = CHR ''0''
     then strip_zeros places (butlast s) (fractionSize - 1) else (s, fractionSize))"
  by pat_completeness auto
termination by (relation "measure (\<lambda>(p, s, f). f)") auto

declare strip_zeros.simps [simp del]

text \<open>
  \<open>common::fromString\<close> on a non-empty string of digits: the value, or failure when it does not fit.
\<close>

definition fromString_u64 :: "string \<Rightarrow> u64 option" where
  "fromString_u64 s = (if dec_value s < 2 ^ 64 then Some (of_nat (dec_value s)) else None)"

definition parseAmount :: "Currency \<Rightarrow> string \<Rightarrow> u64 option" where
  "parseAmount c str =
    (let places = unat (m_numberOfDecimalPlaces c);
         strAmount = trim str;
         pointIndex = length (takeWhile (\<lambda>ch. ch \<noteq> CHR ''.'') strAmount);
         stripped =
           (if pointIndex \<noteq> length strAmount then
              let (strAmount, fractionSize) = strip_zeros places strAmount (length strAmount - pointIndex - 1) in
              if places < fractionSize then None
              else Some (take pointIndex strAmount @ drop (pointIndex + 1) strAmount, fractionSize)
            else Some (strAmount, 0)) in
     case stripped of
       None \<Rightarrow> None
     | Some (strAmount, fractionSize) \<Rightarrow>
         if strAmount = [] then None
         else if \<not> list_all isdigit strAmount then None
         else
           fromString_u64 (if fractionSize < places
             then strAmount @ replicate (places - fractionSize) CHR ''0'' else strAmount))"

definition getApproximateMaximumInputCount :: "u64 \<Rightarrow> u64 \<Rightarrow> u64 \<Rightarrow> u64" where
  "getApproximateMaximumInputCount transactionSize outputCount mixinCount =
    (let outputsSize = outputCount * (1 + 32 + (8 + 2));
         headerSize = 1 + 8 + 1 + 32;
         inputSize = 1 + (8 + 2) + 32 + 64 + 1 + 4 + mixinCount * (4 + 64) in
     (transactionSize - headerSize - outputsSize) div inputSize)"

section \<open>Decomposition\<close>

definition piece_nat :: "amount_piece \<Rightarrow> nat" where
  "piece_nat p = unat (piece_amount p)"

lemma piece_nat_simps [simp]: "piece_nat (Chunk a) = unat a" "piece_nat (Dust a) = unat a"
  by (simp_all add: piece_nat_def)

lemma digit_split: "(n mod 10) * 10 ^ k + (n div 10) * 10 ^ Suc k = n * (10 :: nat) ^ k"
proof -
  have "(n mod 10) * P + (n div 10) * (10 * P) = (n div 10 * 10 + n mod 10) * P" for P :: nat
    unfolding add_mult_distrib mult.assoc by (rule add.commute)
  then show ?thesis by simp
qed

text \<open>The values of one iteration, as long as the remaining amount is not 0.\<close>

lemma decompose_values:
  fixes amount dust order :: u64
  assumes "amount \<noteq> 0" and "order = of_nat (10 ^ k)" and "unat dust + unat amount * 10 ^ k < 2 ^ 64"
  defines "chunk \<equiv> (amount mod 10) * order"
  shows "unat chunk = (unat amount mod 10) * 10 ^ k"
    and "unat (dust + chunk) = unat dust + unat chunk"
    and "order * 10 = of_nat (10 ^ Suc k)"
    and "unat chunk + unat (amount div 10) * 10 ^ Suc k = unat amount * 10 ^ k"
proof -
  have pos: "1 \<le> unat amount" using assms(1) by (simp add: unat_gt_0 Suc_leI)
  then have "10 ^ k \<le> unat amount * 10 ^ k" by simp
  then have k: "(10 :: nat) ^ k < 2 ^ 64" using assms(3) by linarith
  have order: "unat order = 10 ^ k" unfolding assms(2) using k by (intro unat_of_nat_less) simp
  have split: "(unat amount mod 10) * 10 ^ k + (unat amount div 10) * 10 ^ Suc k = unat amount * 10 ^ k"
    by (rule digit_split)
  have mod: "unat (amount mod 10) = unat amount mod 10" by (simp add: unat_mod_nat)
  show chunk: "unat chunk = (unat amount mod 10) * 10 ^ k"
    unfolding chunk_def mod [symmetric] order [symmetric]
    by (rule unat_mult_exact) (use mod order split assms(3) in simp)
  show "unat (dust + chunk) = unat dust + unat chunk"
    by (rule unat_add_exact) (use chunk split assms(3) in simp)
  show "order * 10 = of_nat (10 ^ Suc k)" by (simp add: assms(2) mult.commute)
  show "unat chunk + unat (amount div 10) * 10 ^ Suc k = unat amount * 10 ^ k"
    using chunk split by (simp add: unat_div_nat)
qed

lemma decompose_loop_sum:
  assumes "order = of_nat (10 ^ k)" and "unat dust + unat amount * 10 ^ k < 2 ^ 64"
    and "handled \<longrightarrow> unat th < unat dust + 10 ^ k"
  shows "(\<Sum>p\<leftarrow>decompose_loop th handled dust order amount. piece_nat p)
    = (if handled then 0 else unat dust) + unat amount * 10 ^ k"
  using assms
proof (induction th handled dust order amount arbitrary: k rule: decompose_loop.induct)
  case (1 th handled dust order amount)
  show ?case
  proof (cases "amount = 0")
    case True
    then show ?thesis by (simp add: decompose_loop.simps [of th handled dust order])
  next
    case False
    define chunk where "chunk = (amount mod 10) * order"
    note v = decompose_values [OF False "1.prems"(1,2), folded chunk_def]
    show ?thesis
    proof (cases "dust + chunk \<le> th")
      case True
      have "unat (dust + chunk) + unat (amount div 10) * 10 ^ Suc k < 2 ^ 64"
        using v(2,4) "1.prems"(2) by linarith
      moreover have "handled \<longrightarrow> unat th < unat (dust + chunk) + 10 ^ Suc k"
        using v(2) "1.prems"(3) by simp linarith
      ultimately have IH: "(\<Sum>p\<leftarrow>decompose_loop th handled (dust + chunk) (order * 10) (amount div 10). piece_nat p)
          = (if handled then 0 else unat (dust + chunk)) + unat (amount div 10) * 10 ^ Suc k"
        using "1.IH"(1) [OF False chunk_def True] v(3) by blast
      have "handled \<Longrightarrow> unat chunk = 0"
      proof (rule ccontr)
        assume "handled" "unat chunk \<noteq> 0"
        then have "10 ^ k \<le> unat chunk" using v(1) by simp
        then have "unat th < unat dust + unat chunk" using "1.prems"(3) \<open>handled\<close> by simp
        then show False using True v(2) by (simp add: word_le_nat_alt)
      qed
      then have "(if handled then 0 else unat (dust + chunk)) + unat (amount div 10) * 10 ^ Suc k
          = (if handled then 0 else unat dust) + unat amount * 10 ^ k"
        using v(2,4) by auto
      moreover have "decompose_loop th handled dust order amount
          = decompose_loop th handled (dust + chunk) (order * 10) (amount div 10)"
        using False True by (simp add: decompose_loop.simps [of th handled dust order] Let_def flip: chunk_def)
      ultimately show ?thesis using IH by simp
    next
      case over: False
      have "unat dust + unat (amount div 10) * 10 ^ Suc k < 2 ^ 64"
        using v(4) "1.prems"(2) by linarith
      moreover have "unat th < unat dust + 10 ^ Suc k"
      proof -
        have "unat th < unat dust + unat chunk" using over v(2) by (simp add: word_le_nat_alt)
        moreover have "unat chunk \<le> 10 ^ Suc k" using v(1) by (simp add: mult_right_mono)
        ultimately show ?thesis by linarith
      qed
      ultimately have IH: "(\<Sum>p\<leftarrow>decompose_loop th (handled \<or> dust \<noteq> 0) dust (order * 10) (amount div 10). piece_nat p)
          = (if handled \<or> dust \<noteq> 0 then 0 else unat dust) + unat (amount div 10) * 10 ^ Suc k"
        using "1.IH"(2) [OF False chunk_def over] v(3) by blast
      have "decompose_loop th handled dust order amount =
          (if \<not> handled \<and> dust \<noteq> 0 then [Dust dust] else []) @ (if chunk \<noteq> 0 then [Chunk chunk] else [])
          @ decompose_loop th (handled \<or> dust \<noteq> 0) dust (order * 10) (amount div 10)"
        using False over by (subst decompose_loop.simps) (simp add: Let_def flip: chunk_def)
      then show ?thesis using IH v(4) by (cases "chunk = 0"; cases handled; cases "dust = 0") simp_all
    qed
  qed
qed

definition round_amount :: "nat \<Rightarrow> bool" where
  "round_amount n \<longleftrightarrow> (\<exists>d k. 1 \<le> d \<and> d \<le> 9 \<and> n = d * 10 ^ k)"

definition good_piece :: "u64 \<Rightarrow> amount_piece \<Rightarrow> bool" where
  "good_piece th p = (case p of Chunk c \<Rightarrow> round_amount (unat c) | Dust d \<Rightarrow> d \<noteq> 0 \<and> d \<le> th)"

definition is_dust :: "amount_piece \<Rightarrow> bool" where
  "is_dust p = (case p of Dust _ \<Rightarrow> True | Chunk _ \<Rightarrow> False)"

lemma decompose_loop_pieces:
  assumes "order = of_nat (10 ^ k)" and "unat dust + unat amount * 10 ^ k < 2 ^ 64" and "dust \<le> th"
  shows "list_all (good_piece th) (decompose_loop th handled dust order amount)
    \<and> length (filter is_dust (decompose_loop th handled dust order amount)) \<le> (if handled then 0 else 1)"
  using assms
proof (induction th handled dust order amount arbitrary: k rule: decompose_loop.induct)
  case (1 th handled dust order amount)
  show ?case
  proof (cases "amount = 0")
    case True
    then show ?thesis
      using "1.prems"(3) by (simp add: decompose_loop.simps [of th handled dust order] good_piece_def is_dust_def)
  next
    case False
    define chunk where "chunk = (amount mod 10) * order"
    note v = decompose_values [OF False "1.prems"(1,2), folded chunk_def]
    show ?thesis
    proof (cases "dust + chunk \<le> th")
      case True
      have "unat (dust + chunk) + unat (amount div 10) * 10 ^ Suc k < 2 ^ 64"
        using v(2,4) "1.prems"(2) by linarith
      moreover have "decompose_loop th handled dust order amount
          = decompose_loop th handled (dust + chunk) (order * 10) (amount div 10)"
        using False True by (simp add: decompose_loop.simps [of th handled dust order] Let_def flip: chunk_def)
      ultimately show ?thesis using "1.IH"(1) [OF False chunk_def True v(3) _ True] by simp
    next
      case over: False
      have "unat dust + unat (amount div 10) * 10 ^ Suc k < 2 ^ 64"
        using v(4) "1.prems"(2) by linarith
      note IH = "1.IH"(2) [OF False chunk_def over v(3) this "1.prems"(3)]
      have round: "round_amount (unat chunk)" if "chunk \<noteq> 0"
      proof -
        have "unat amount mod 10 \<noteq> 0" using that v(1) by (metis mult_zero_left unat_eq_zero)
        then have "1 \<le> unat amount mod 10" "unat amount mod 10 \<le> 9" by linarith+
        with v(1) show ?thesis unfolding round_amount_def by blast
      qed
      have "decompose_loop th handled dust order amount =
          (if \<not> handled \<and> dust \<noteq> 0 then [Dust dust] else []) @ (if chunk \<noteq> 0 then [Chunk chunk] else [])
          @ decompose_loop th (handled \<or> dust \<noteq> 0) dust (order * 10) (amount div 10)"
        using False over by (subst decompose_loop.simps) (simp add: Let_def flip: chunk_def)
      then show ?thesis
        using IH round "1.prems"(3)
        by (cases "chunk = 0"; cases handled; cases "dust = 0") (simp_all add: good_piece_def is_dust_def)
    qed
  qed
qed

section \<open>The table of pretty amounts\<close>

lemma PRETTY_AMOUNTS_set:
  "a \<in> set PRETTY_AMOUNTS \<longleftrightarrow> round_amount (unat a)"
proof
  assume "a \<in> set PRETTY_AMOUNTS"
  then consider "a = 10000000000000000000" | d k where "1 \<le> d" "d \<le> 9" "k < 19" "a = of_nat (d * 10 ^ k)"
    by (auto simp: PRETTY_AMOUNTS_def)
  then show "round_amount (unat a)"
  proof cases
    case 1
    then show ?thesis unfolding round_amount_def by (intro exI [of _ 1] exI [of _ 19]) simp
  next
    case 2
    have "(10 :: nat) ^ k \<le> 10 ^ 18" using 2(3) by (intro power_increasing) simp_all
    then have "d * 10 ^ k \<le> 9 * 10 ^ 18" using 2(2) by (intro mult_le_mono)
    then have "unat a = d * 10 ^ k" unfolding 2(4) by (intro unat_of_nat_less) simp
    with 2 show ?thesis unfolding round_amount_def by blast
  qed
next
  assume "round_amount (unat a)"
  then obtain d k where dk: "1 \<le> d" "d \<le> 9" "unat a = d * 10 ^ k" unfolding round_amount_def by blast
  have lt: "d * 10 ^ k < 18446744073709551616" using dk(3) unat_le_max64 [of a] by simp
  have k: "k < 20"
  proof (rule ccontr)
    assume "\<not> k < 20"
    then have "(10 :: nat) ^ 20 \<le> 10 ^ k" by (intro power_increasing) simp_all
    moreover have "10 ^ k \<le> d * 10 ^ k" using dk(1) by simp
    ultimately show False using lt by simp
  qed
  have a: "a = of_nat (d * 10 ^ k)" by (metis dk(3) of_nat_unat ucast_id)
  show "a \<in> set PRETTY_AMOUNTS"
  proof (cases "k < 19")
    case True
    then show ?thesis using dk a by (auto simp: PRETTY_AMOUNTS_def intro!: bexI [of _ k] image_eqI [of _ _ d])
  next
    case False
    with k have "k = 19" by simp
    with lt dk(1) have "d = 1" by simp
    with \<open>k = 19\<close> a show ?thesis by (simp add: PRETTY_AMOUNTS_def)
  qed
qed

definition pretty_row :: "nat \<Rightarrow> u64 list" where
  "pretty_row k = map (\<lambda>d. of_nat (d * 10 ^ k)) [1..<10]"

lemma unat_pretty:
  assumes "d \<le> 9" and "k < 19" shows "unat (of_nat (d * 10 ^ k) :: u64) = d * 10 ^ k"
proof -
  have "(10 :: nat) ^ k \<le> 10 ^ 18" using assms(2) by (intro power_increasing) simp_all
  then have "d * 10 ^ k \<le> 9 * 10 ^ 18" using assms(1) by (intro mult_le_mono)
  then show ?thesis by (intro unat_of_nat_less) simp
qed

lemma pretty_row_bounds:
  assumes "k < 19" and "a \<in> set (pretty_row k)" shows "10 ^ k \<le> unat a" "unat a < 10 ^ Suc k"
proof -
  obtain d where "1 \<le> d" "d \<le> 9" "a = of_nat (d * 10 ^ k)" using assms(2) by (auto simp: pretty_row_def)
  then have "1 \<le> d" "d \<le> 9" "unat a = d * 10 ^ k" using unat_pretty assms(1) by simp_all
  then show "10 ^ k \<le> unat a" "unat a < 10 ^ Suc k" by simp_all
qed

lemma pretty_rows_sorted:
  "n \<le> 19 \<Longrightarrow> sorted (concat (map pretty_row [0..<n]))
    \<and> (\<forall>a\<in>set (concat (map pretty_row [0..<n])). unat a < 10 ^ n)"
proof (induction n)
  case (Suc n)
  have row: "sorted (pretty_row n)"
    unfolding pretty_row_def sorted_map
    by (rule sorted_wrt_mono_rel [of _ "(<)"])
      (use unat_pretty [of _ n] Suc.prems in \<open>auto simp: word_le_nat_alt simp del: of_nat_mult\<close>)
  have below: "\<forall>a\<in>set (concat (map pretty_row [0..<n])). unat a < 10 ^ n"
    and sorted: "sorted (concat (map pretty_row [0..<n]))" using Suc by auto
  have "a \<le> b" if "a \<in> set (concat (map pretty_row [0..<n]))" "b \<in> set (pretty_row n)" for a b
    using below that pretty_row_bounds(1) [of n b] Suc.prems by (force simp: word_le_nat_alt)
  moreover have "unat a < 10 ^ Suc n" if "a \<in> set (concat (map pretty_row [0..<Suc n]))" for a
    using that below pretty_row_bounds(2) [of n a] Suc.prems by fastforce
  ultimately show ?case using sorted row by (simp add: sorted_append)
qed simp

lemma PRETTY_AMOUNTS_sorted: "sorted PRETTY_AMOUNTS"
proof -
  have eq: "PRETTY_AMOUNTS = concat (map pretty_row [0..<19]) @ [10000000000000000000]"
    by (simp only: PRETTY_AMOUNTS_def pretty_row_def [abs_def])
  show ?thesis
    unfolding eq using pretty_rows_sorted [of 19]
    by (auto simp: sorted_append word_le_nat_alt intro: less_imp_le)
qed

lemma lower_bound_found:
  assumes "sorted xs"
  shows "\<not> (length (takeWhile (\<lambda>x. x < a) xs) = length xs \<or> a \<noteq> xs ! length (takeWhile (\<lambda>x. x < a) xs))
    \<longleftrightarrow> a \<in> set (xs :: 'a::linorder list)"
  using assms
proof (induction xs)
  case (Cons x xs)
  then show ?case by (cases "x < a") auto
qed simp

lemma is_valid_decomposed_amount_iff: "is_valid_decomposed_amount a \<longleftrightarrow> round_amount (unat a)"
  using lower_bound_found [OF PRETTY_AMOUNTS_sorted, of a] PRETTY_AMOUNTS_set [of a]
  by (auto simp: is_valid_decomposed_amount_def Let_def)

section \<open>Text\<close>

lemma of_char_digit: "d < 10 \<Longrightarrow> (of_char (digit_char d) :: nat) = 48 + d"
  by (simp add: digit_char_def of_char_of)

lemma isdigit_digit: "d < 10 \<Longrightarrow> isdigit (digit_char d)"
  by (simp add: isdigit_def of_char_digit)

lemma digit_value_char: "d < 10 \<Longrightarrow> digit_value (digit_char d) = d"
  by (simp add: digit_value_def of_char_digit)

lemma dec_value_snoc: "dec_value (s @ [c]) = 10 * dec_value s + digit_value c"
  by (simp add: dec_value_def)

lemma to_string_digits: "list_all isdigit (to_string n)"
  by (induction n rule: to_string.induct) (subst to_string.simps, simp add: isdigit_digit)

lemma to_string_not_Nil: "to_string n \<noteq> []"
  by (subst to_string.simps) simp

lemma dec_value_to_string: "dec_value (to_string n) = n"
proof (induction n rule: to_string.induct)
  case (1 n)
  then show ?case
    by (subst to_string.simps) (auto simp: dec_value_snoc digit_value_char dec_value_def)
qed

lemma dec_value_zeros: "dec_value (replicate k CHR ''0'' @ s) = dec_value s"
proof -
  have "foldl (\<lambda>acc c. 10 * acc + digit_value c) 0 (replicate k CHR ''0'') = 0"
    by (induction k) (simp_all add: digit_value_def)
  then show ?thesis by (simp add: dec_value_def)
qed

lemma isdigit_not: "isdigit c \<Longrightarrow> c \<noteq> CHR ''.''" "isdigit c \<Longrightarrow> \<not> isspace c"
  by (auto simp: isdigit_def isspace_def)

lemma trim_id: "s \<noteq> [] \<Longrightarrow> \<not> isspace (hd s) \<Longrightarrow> \<not> isspace (last s) \<Longrightarrow> trim s = s"
  by (simp add: trim_def dropWhile_eq_self_iff [THEN iffD2] hd_rev)

lemma strip_zeros_id: "f \<le> places \<Longrightarrow> strip_zeros places s f = (s, f)"
  by (subst strip_zeros.simps) simp

lemma format_parse:
  assumes "list_all isdigit w" and "list_all isdigit f" and "w \<noteq> []"
    and "length f = unat (m_numberOfDecimalPlaces c)"
  shows "parseAmount c (w @ ''.'' @ f) = fromString_u64 (w @ f)"
proof -
  let ?s = "w @ ''.'' @ f"
  have dot: "\<not> isspace CHR ''.''" by (simp add: isspace_def)
  have "trim ?s = ?s"
  proof (rule trim_id)
    show "\<not> isspace (hd ?s)" using assms(1,3) isdigit_not(2) by (cases w) auto
    show "\<not> isspace (last ?s)"
      using assms(2) isdigit_not(2) dot by (cases "f = []") (auto simp: list_all_iff)
  qed simp
  moreover have "takeWhile (\<lambda>ch. ch \<noteq> CHR ''.'') ?s = w"
  proof -
    have "\<forall>ch\<in>set w. ch \<noteq> CHR ''.''" using assms(1) isdigit_not(1) by (auto simp: list_all_iff)
    then show ?thesis by (subst takeWhile_append2) auto
  qed
  ultimately show ?thesis
    using assms by (simp add: parseAmount_def strip_zeros_id Let_def)
qed

lemma parse_format: "parseAmount c (formatAmount c amount) = Some amount"
proof -
  define places where "places = unat (m_numberOfDecimalPlaces c)"
  define s where "s = to_string (unat amount)"
  define t where "t = (if length s < places + 1 then replicate (places + 1 - length s) CHR ''0'' @ s else s)"
  have z: "isdigit CHR ''0''" by (simp add: isdigit_def)
  have "list_all isdigit s" unfolding s_def by (rule to_string_digits)
  then have d: "list_all isdigit t" using z by (simp add: t_def list_all_iff)
  have l: "places + 1 \<le> length t" by (simp add: t_def)
  have v: "dec_value t = unat amount"
    by (simp add: t_def s_def dec_value_zeros dec_value_to_string)
  have "formatAmount c amount = take (length t - places) t @ ''.'' @ drop (length t - places) t"
    unfolding formatAmount_def Let_def t_def s_def places_def by simp
  moreover have "parseAmount c (take (length t - places) t @ ''.'' @ drop (length t - places) t)
      = fromString_u64 (take (length t - places) t @ drop (length t - places) t)"
  proof (rule format_parse)
    show "list_all isdigit (take (length t - places) t)" "list_all isdigit (drop (length t - places) t)"
      using d by (auto simp: list_all_iff dest: in_set_takeD in_set_dropD)
    show "take (length t - places) t \<noteq> []" using l by auto
    show "length (drop (length t - places) t) = unat (m_numberOfDecimalPlaces c)"
      using l by (simp add: places_def)
  qed
  ultimately show ?thesis using v unat_le_max64 [of amount] by (simp add: fromString_u64_def)
qed

section \<open>Properties\<close>

text \<open>
  C35. Decomposing an amount into digits loses nothing: the pieces passed to
  the handlers add up to the amount, at most one of them is dust and it does not exceed the
  threshold, and every other piece is a digit times a power of ten, which is what
  \<open>is_valid_decomposed_amount\<close> accepts.
\<close>

theorem decompose_amount_correct:
  "(\<Sum>p\<leftarrow>decompose_amount_into_digits amount dust_threshold. unat (piece_amount p)) = unat amount
   \<and> length (filter is_dust (decompose_amount_into_digits amount dust_threshold)) \<le> 1
   \<and> list_all (\<lambda>p. case p of
         Chunk c \<Rightarrow> is_valid_decomposed_amount c
       | Dust d \<Rightarrow> d \<noteq> 0 \<and> d \<le> dust_threshold) (decompose_amount_into_digits amount dust_threshold)"
proof -
  have "good_piece dust_threshold = (\<lambda>p. case p of
         Chunk c \<Rightarrow> is_valid_decomposed_amount c | Dust d \<Rightarrow> d \<noteq> 0 \<and> d \<le> dust_threshold)"
    by (auto simp: good_piece_def is_valid_decomposed_amount_iff split: amount_piece.splits)
  then show ?thesis
    using decompose_loop_sum [of 1 0 0 amount False dust_threshold]
      decompose_loop_pieces [of 1 0 0 amount dust_threshold False] unat_le_max64 [of amount]
    by (simp add: decompose_amount_into_digits_def flip: piece_nat_def)
qed

text \<open>
  Any amount printed by \<open>formatAmount\<close> is read back by
  \<open>parseAmount\<close>, whatever the number of decimal places.
\<close>

theorem amount_text_round_trip: "parseAmount c (formatAmount c amount) = Some amount"
  by (rule parse_format)

text \<open>
  The estimate of the number of inputs subtracts the fixed part of the transaction without a
  check: for a limit below that part it wraps to a huge count.
\<close>

lemma maximum_input_count_underflow: "getApproximateMaximumInputCount 40 0 0 = 164703072086692425"
  by (simp add: getApproximateMaximumInputCount_def)

end
