(* ===== verification/Difficulty.thy ===== *)
theory Difficulty
  imports IntUtil
begin

text \<open>
  The proof-of-work test of \<open>src/CryptoNoteCore/Difficulty.cpp\<close>: the 256-bit hash, read as
  four little-endian 64-bit words, is multiplied by the difficulty with explicit carries.
\<close>

text \<open>\<open>mul\<close> where the compiler has a 128-bit integer; it returns \<open>(low, high)\<close>.\<close>

definition mul :: "u64 \<Rightarrow> u64 \<Rightarrow> u64 \<times> u64" where
  "mul a b = (let res = (ucast a :: 128 word) * ucast b in (ucast res, ucast (drop_bit 64 res)))"

text \<open>\<open>mul\<close> on other compilers.\<close>

definition mul_portable :: "u64 \<Rightarrow> u64 \<Rightarrow> u64 \<times> u64" where
  "mul_portable a b = mul128 a b"

definition cadd :: "u64 \<Rightarrow> u64 \<Rightarrow> bool" where
  "cadd a b \<longleftrightarrow> a + b < a"

definition cadc :: "u64 \<Rightarrow> u64 \<Rightarrow> bool \<Rightarrow> bool" where
  "cadc a b c \<longleftrightarrow> a + b < a \<or> (c \<and> a + b = - 1)"

text \<open>\<open>((const uint64_t *) &hash)[i]\<close> with \<open>swap64le\<close>.\<close>

definition hash_word :: "Hash \<Rightarrow> nat \<Rightarrow> u64" where
  "hash_word hash i = ucast (drop_bit (64 * i) hash)"

definition check_hash :: "Hash \<Rightarrow> u64 \<Rightarrow> bool" where
  "check_hash hash difficulty =
    (let (top, high) = mul (hash_word hash 3) difficulty in
     if high \<noteq> 0 then False
     else
       let (low, cur) = mul (hash_word hash 0) difficulty;
           (low, high) = mul (hash_word hash 1) difficulty;
           carry = cadd cur low;
           cur = high;
           (low, high) = mul (hash_word hash 2) difficulty;
           carry = cadc cur low carry;
           carry = cadc high top carry
       in \<not> carry)"

lemma unat_wide_product:
  "unat ((ucast (a :: u64) :: 128 word) * ucast b) = unat a * unat (b :: u64)"
proof -
  have "unat a * unat b < 2 ^ 64 * 2 ^ 64"
    using unat_le_max [of a] unat_le_max [of b] by (intro mult_strict_mono) simp_all
  then show ?thesis
    using unat_le_max64 [of a] unat_le_max64 [of b]
    by (simp add: unat_mult_mod unat_ucast_nat)
qed

lemma mul_exact:
  assumes "mul a b = (lo, hi)"
  shows "unat lo = unat a * unat b mod 2 ^ 64" and "unat hi = unat a * unat b div 2 ^ 64"
proof -
  have "unat a * unat b < 2 ^ 64 * 2 ^ 64"
    using unat_le_max [of a] unat_le_max [of b] by (intro mult_strict_mono) simp_all
  then have hi: "unat a * unat b div 2 ^ 64 < 2 ^ 64"
    by (rule less_mult_imp_div_less)
  have "lo = ucast ((ucast a :: 128 word) * ucast b)"
    and "hi = ucast (drop_bit 64 ((ucast a :: 128 word) * ucast b))"
    using assms by (simp_all add: mul_def Let_def)
  then show "unat lo = unat a * unat b mod 2 ^ 64" and "unat hi = unat a * unat b div 2 ^ 64"
    using hi by (simp_all only: unat_ucast_nat unat_wide_product unat_drop_bit_nat len_num1 
        mod_less) simp_all
qed

lemma mul_eq_mul_portable: "mul a b = mul_portable a b"
proof -
  obtain lo hi where m: "mul a b = (lo, hi)" by (meson surj_pair)
  obtain lo' hi' where m': "mul128 a b = (lo', hi')" by (meson surj_pair)
  have "lo = lo'" by (rule unat_eqI) (simp only: mul_exact [OF m] mul128_lo [OF m'])
  moreover have "hi = hi'" by (rule unat_eqI) (simp only: mul_exact [OF m] mul128_hi [OF m'])
  ultimately show ?thesis by (simp add: m m' mul_portable_def)
qed

section \<open>Carries\<close>

lemma cadd_iff: "cadd a b \<longleftrightarrow> 2 ^ 64 \<le> unat a + unat b"
  by (simp add: cadd_def add_carry_iff)

lemma cadc_iff: "cadc a b c \<longleftrightarrow> 2 ^ 64 \<le> unat a + unat b + of_bool c"
proof (cases "2 ^ 64 \<le> unat a + unat b")
  case True
  then show ?thesis by (simp add: cadc_def add_carry_iff)
next
  case False
  then have s: "unat (a + b) = unat a + unat b" by (intro unat_add_exact) simp
  have "a + b = - 1 \<longleftrightarrow> unat (a + b) = unat (- 1 :: u64)" by (simp add: word_unat_eq_iff)
  also have "(- 1 :: u64) = 18446744073709551615" by simp
  also have "unat (a + b) = unat (18446744073709551615 :: u64) \<longleftrightarrow> unat a + unat b = 2 ^ 64 - 1"
    by (simp add: s)
  finally show ?thesis using False by (auto simp: cadc_def add_carry_iff)
qed

lemma carry_split:
  fixes x M :: nat
  assumes "x < 2 * M"
  shows "x = of_bool (M \<le> x) * M + x mod M" and "x mod M < M"
  using assms by (auto simp: mod_if of_bool_def)

lemma digits_below_iff:
  fixes x y B M :: nat
  assumes "x < B"
  shows "x + B * y < B * M \<longleftrightarrow> y < M"
proof
  assume "x + B * y < B * M"
  then have "B * y < B * M" by linarith
  then show "y < M" by simp
next
  assume "y < M"
  then have "B * (y + 1) \<le> B * M" by (intro mult_le_mono2) simp
  then show "x + B * y < B * M" using assms by simp
qed

lemmas digits_below = digits_below_iff [THEN iffD2]

lemma scale_column: "x = c * M + t \<Longrightarrow> M * x = M ^ 2 * c + M * (t :: nat)"
  by (simp add: algebra_simps power2_eq_square)

text \<open>The four columns of the product, added with carries.\<close>

lemma columns_below_iff:
  fixes M :: nat
  assumes M: "1 < M" and l0: "l0 < M" and l1: "l1 < M" and l2: "l2 < M" and l3: "l3 < M"
    and h0: "h0 < M - 1" and h1: "h1 < M - 1" and h2: "h2 < M - 1"
    and c1: "c1 = of_bool (M \<le> h0 + l1)" and c2: "c2 = of_bool (M \<le> h1 + l2 + c1)"
  shows "l0 + M * (h0 + l1) + M ^ 2 * (h1 + l2) + M ^ 3 * (h2 + l3) < M ^ 4
    \<longleftrightarrow> \<not> M \<le> h2 + l3 + c2"
proof -
  have e1: "h0 + l1 = c1 * M + (h0 + l1) mod M" and e1': "(h0 + l1) mod M < M"
    using carry_split [of "h0 + l1" M] h0 l1 M by (simp_all add: c1)
  have "c1 \<le> 1" by (simp add: c1)
  then have lt2: "h1 + l2 + c1 < 2 * M" using h1 l2 M by linarith
  have e2: "h1 + l2 + c1 = c2 * M + (h1 + l2 + c1) mod M" and e2': "(h1 + l2 + c1) mod M < M"
    using carry_split [OF lt2] by (simp_all only: c2)
  define t1 t2 where "t1 = (h0 + l1) mod M" and "t2 = (h1 + l2 + c1) mod M"
  have p1: "M * (h0 + l1) = M ^ 2 * c1 + M * t1"
    unfolding t1_def using e1 by (rule scale_column)
  have p2: "M * (h1 + l2 + c1) = M ^ 2 * c2 + M * t2"
    unfolding t2_def using e2 by (rule scale_column)
  have "M ^ 2 * (h1 + l2 + c1) = M * (M * (h1 + l2 + c1))"
    by (simp add: power2_eq_square mult.assoc)
  also have "\<dots> = M ^ 3 * c2 + M ^ 2 * t2"
    unfolding p2 by (simp add: algebra_simps power2_eq_square power3_eq_cube)
  finally have total: "l0 + M * (h0 + l1) + M ^ 2 * (h1 + l2) + M ^ 3 * (h2 + l3)
      = l0 + M * t1 + M ^ 2 * t2 + M ^ 3 * (h2 + l3 + c2)"
    using p1 by (simp add: distrib_left)
  have "l0 + M * t1 < M * M"
    using digits_below [OF l0, of t1 M] e1' by (simp add: t1_def)
  then have "l0 + M * t1 + M * M * t2 < M * M * M"
    using digits_below [of "l0 + M * t1" "M * M" t2 M] e2' by (simp add: t2_def)
  then have "l0 + M * t1 + M * M * t2 + M * M * M * (h2 + l3 + c2) < M * M * M * M
      \<longleftrightarrow> h2 + l3 + c2 < M"
    by (rule digits_below_iff)
  then show ?thesis
    unfolding total by (simp add: not_le power4_eq_xxxx power3_eq_cube power2_eq_square)
qed

lemma unat_hash_split:
  "unat (hash :: Hash) = unat (hash_word hash 0) + 2 ^ 64 * unat (hash_word hash 1)
     + (2 ^ 64) ^ 2 * unat (hash_word hash 2) + (2 ^ 64) ^ 3 * unat (hash_word hash 3)"
proof -
  define H where "H = unat hash"
  define M :: nat where "M = 2 ^ 64"
  have w: "unat (hash_word hash i) = H div M ^ i mod M" for i
    by (simp add: hash_word_def unat_ucast_nat unat_drop_bit_nat H_def M_def power_mult)
  have "H < M ^ 4"
    using unat_le_max [of hash] by (simp add: H_def M_def flip: power_mult)
  then have top: "H div M ^ 3 mod M = H div M ^ 3"
    by (simp add: less_mult_imp_div_less power4_eq_xxxx power3_eq_cube)
  have split: "x = x mod M + M * (x div M)" for x :: nat by simp
  have "H = H mod M + M * (H div M)" by (rule split)
  also have "H div M = H div M mod M + M * (H div M ^ 2)"
    using split [of "H div M"] by (simp add: div_mult2_eq power2_eq_square)
  also have "H div M ^ 2 = H div M ^ 2 mod M + M * (H div M ^ 3)"
    using split [of "H div M ^ 2"] by (simp add: div_mult2_eq power2_eq_square power3_eq_cube)
  finally have "H = H mod M + M * (H div M mod M) + M ^ 2 * (H div M ^ 2 mod M) + M ^ 3 * (H div M ^ 3)"
    by (simp add: algebra_simps power2_eq_square power3_eq_cube)
  then show ?thesis
    using w [of 0] w [of 1] w [of 2] w [of 3] top by (simp only: M_def [symmetric] H_def [symmetric]) simp
qed

lemma mul_split:
  assumes "mul a b = (lo, hi)"
  shows "unat a * unat b = unat hi * 2 ^ 64 + unat lo"
  using div_mult_mod_eq [of "unat a * unat b" "2 ^ 64"] by (simp only: mul_exact [OF assms])

lemma mul_high_below:
  assumes "mul a b = (lo, hi)"
  shows "unat hi < 2 ^ 64 - 1"
proof -
  have "unat a * unat b \<le> (2 ^ 64 - 1) * (2 ^ 64 - 1)"
    using unat_le_max [of a] unat_le_max [of b] by (intro mult_le_mono) simp_all
  also have "\<dots> < (2 ^ 64 - 1) * 2 ^ 64" by simp
  finally show ?thesis
    unfolding mul_exact(2) [OF assms] by (rule less_mult_imp_div_less)
qed

lemma check_hash_iff: "check_hash hash d \<longleftrightarrow> unat hash * unat d < 2 ^ 256"
proof -
  define M :: nat where "M = 2 ^ 64"
  have M: "1 < M" and M4: "M ^ 4 = 2 ^ 256" by (simp_all add: M_def)
  obtain l0 h0 where m0: "mul (hash_word hash 0) d = (l0, h0)" by (meson surj_pair)
  obtain l1 h1 where m1: "mul (hash_word hash 1) d = (l1, h1)" by (meson surj_pair)
  obtain l2 h2 where m2: "mul (hash_word hash 2) d = (l2, h2)" by (meson surj_pair)
  obtain l3 h3 where m3: "mul (hash_word hash 3) d = (l3, h3)" by (meson surj_pair)
  have total: "unat hash * unat d = unat l0 + M * (unat h0 + unat l1) + M ^ 2 * (unat h1 + unat l2)
      + M ^ 3 * (unat h2 + unat l3) + M ^ 4 * unat h3"
  proof -
    have "unat hash * unat d = unat (hash_word hash 0) * unat d + M * (unat (hash_word hash 1) * unat d)
        + M ^ 2 * (unat (hash_word hash 2) * unat d) + M ^ 3 * (unat (hash_word hash 3) * unat d)"
      by (subst unat_hash_split) (simp only: M_def [symmetric] distrib_right mult.assoc)
    then show ?thesis
      unfolding mul_split [OF m0] mul_split [OF m1] mul_split [OF m2] mul_split [OF m3] M_def [symmetric]
      by (simp add: algebra_simps power2_eq_square power3_eq_cube power4_eq_xxxx)
  qed
  show ?thesis
  proof (cases "h3 = 0")
    case False
    then have "M ^ 4 * 1 \<le> M ^ 4 * unat h3" by (intro mult_le_mono2) (simp add: unat_gt_0 Suc_leI)
    then have "M ^ 4 \<le> unat hash * unat d" unfolding total by linarith
    then show ?thesis using False M4 by (simp add: check_hash_def m3 not_less)
  next
    case True
    have l: "unat l < M" for l :: u64 using unat_le_max [of l] by (simp add: M_def)
    have h: "unat h0 < M - 1" "unat h1 < M - 1" "unat h2 < M - 1"
      unfolding M_def by (rule mul_high_below [OF m0] mul_high_below [OF m1] mul_high_below [OF m2])+
    have "check_hash hash d \<longleftrightarrow> \<not> cadc h2 l3 (cadc h1 l2 (cadd h0 l1))"
      using True by (simp add: check_hash_def m0 m1 [unfolded One_nat_def] m2 m3 Let_def)
    also have "\<dots> \<longleftrightarrow> \<not> M \<le> unat h2 + unat l3 + of_bool (M \<le> unat h1 + unat l2 + of_bool (M \<le> unat h0 + unat l1))"
      by (simp only: cadc_iff cadd_iff M_def)
    also have "\<dots> \<longleftrightarrow> unat l0 + M * (unat h0 + unat l1) + M ^ 2 * (unat h1 + unat l2)
        + M ^ 3 * (unat h2 + unat l3) < M ^ 4"
      by (rule columns_below_iff [OF M l l l l h refl refl, symmetric])
    finally show ?thesis using True total M4 by simp
  qed
qed

section \<open>Properties\<close>

text \<open>
  C14. A proof-of-work hash, read as a 256-bit little-endian number, passes
  \<open>check_hash\<close> for a difficulty exactly when hash times difficulty does not reach \<open>2 ^ 256\<close>. The
  code never forms the product: it adds the columns of the four 64-bit partial products and
  looks at the carries only.
\<close>

theorem check_hash_correct:
  "check_hash hash difficulty \<longleftrightarrow> unat hash * unat difficulty < 2 ^ 256"
  by (rule check_hash_iff)

text \<open>
  The two builds of \<open>mul\<close>, with the compiler's 128-bit integers and with
  the portable \<open>mul128\<close>, compute the same pair of words.
\<close>

theorem mul_variants_agree: "mul a b = mul_portable a b"
  by (rule mul_eq_mul_portable)

end
