(* ===== verification/Difficulty_Adjustment.thy ===== *)
theory Difficulty_Adjustment
  imports Currency_Base Difficulty
begin

text \<open>
  The difficulty adjustment algorithms of \<open>src/CryptoNoteCore/Currency.cpp\<close>: the two windowed
  averages \<open>nextDifficulty\<close>, and the linearly weighted moving averages \<open>nextDifficultyLWMA3\<close> and
  \<open>nextDifficultyLWMA1\<close>. Assertions that fail and accesses out of range are \<open>None\<close>. Vector sizes are
  natural numbers, everything computed from timestamps and difficulties is 64-bit.
\<close>

definition resize :: "nat \<Rightarrow> u64 list \<Rightarrow> u64 list" where
  "resize n xs = take n xs @ replicate (n - length xs) 0"

definition cut_bounds :: "nat \<Rightarrow> nat \<Rightarrow> nat \<Rightarrow> nat \<times> nat" where
  "cut_bounds window cutSize len =
    (if len \<le> window - 2 * cutSize then (0, len)
     else
       let cutBegin = (len - (window - 2 * cutSize) + 1) div 2 in
       (cutBegin, cutBegin + (window - 2 * cutSize)))"

text \<open>The block shared by the windowed averages: time span and work between the cut bounds.\<close>

definition span_and_work :: "nat \<Rightarrow> nat \<Rightarrow> u64 list \<Rightarrow> u64 list \<Rightarrow> (u64 \<times> u64) option" where
  "span_and_work window cutSize timestamps cumulativeDifficulties =
    (let timestamps = sort timestamps;
         len = length timestamps in
     if \<not> 2 * cutSize \<le> window - 2 then None
     else
       let (cutBegin, cutEnd) = cut_bounds window cutSize len in
       if \<not> (cutBegin + 2 \<le> cutEnd \<and> cutEnd \<le> len) then None
       else
         let timeSpan = timestamps ! (cutEnd - 1) - timestamps ! cutBegin;
             timeSpan = (if timeSpan = 0 then 1 else timeSpan);
             totalWork = cumulativeDifficulties ! (cutEnd - 1) - cumulativeDifficulties ! cutBegin in
         if \<not> 0 < totalWork then None else Some (timeSpan, totalWork))"

definition nextDifficulty_window :: "Currency \<Rightarrow> u64 list \<Rightarrow> u64 list \<Rightarrow> u64 option" where
  "nextDifficulty_window c timestamps cumulativeDifficulties =
    (let window = unat (m_difficultyWindow c) in
     if \<not> 2 \<le> window then None
     else
       let (timestamps, cumulativeDifficulties) =
         (if window < length timestamps
          then (resize window timestamps, resize window cumulativeDifficulties)
          else (timestamps, cumulativeDifficulties)) in
       if length timestamps \<noteq> length cumulativeDifficulties then None
       else if \<not> length timestamps \<le> window then None
       else if length timestamps \<le> 1 then Some 1
       else
         case span_and_work window (unat (m_difficultyCut c)) timestamps cumulativeDifficulties of
           None \<Rightarrow> None
         | Some (timeSpan, totalWork) \<Rightarrow>
             let (low, high) = mul128 totalWork (m_difficultyTarget c) in
             if high \<noteq> 0 \<or> low + timeSpan - 1 < low then Some 0
             else Some ((low + timeSpan - 1) div timeSpan))"

definition nextDifficulty :: "Currency \<Rightarrow> u8 \<Rightarrow> u32 \<Rightarrow> u64 list \<Rightarrow> u64 list \<Rightarrow> u64 option" where
  "nextDifficulty c version blockIndex timestamps cumulativeDifficulties =
    (if 12750 \<le> blockIndex \<and> blockIndex < 13500 then Some 2160
     else
       let timestamps_o = timestamps;
           cumulativeDifficulties_o = cumulativeDifficulties;
           c_difficultyWindow = unat (difficultyWindowByBlockVersion c version);
           c_difficultyCut = unat (difficultyCutByBlockVersion c version) in
       if \<not> 2 \<le> c_difficultyWindow then None
       else
         let (timestamps, cumulativeDifficulties) =
           (if c_difficultyWindow < length timestamps
            then (resize c_difficultyWindow timestamps, resize c_difficultyWindow cumulativeDifficulties)
            else (timestamps, cumulativeDifficulties)) in
         if length timestamps \<noteq> length cumulativeDifficulties then None
         else if \<not> length timestamps \<le> c_difficultyWindow then None
         else if length timestamps \<le> 1 then Some 1
         else
           case span_and_work c_difficultyWindow c_difficultyCut timestamps cumulativeDifficulties of
             None \<Rightarrow> None
           | Some (timeSpan, totalWork) \<Rightarrow>
               let (low, high) = mul128 totalWork (m_difficultyTarget c) in
               if high \<noteq> 0 \<or> -1 - low < timeSpan - 1 then Some 0
               else
                 let c_zawyDifficultyBlockVersion =
                   (if m_zawyDifficultyV2 c \<noteq> 0 then 2 else m_zawyDifficultyBlockVersion c) in
                 if c_zawyDifficultyBlockVersion \<le> version \<and> c_zawyDifficultyBlockVersion \<noteq> 0 then
                   if high \<noteq> 0 then Some 0 else Some (low div timeSpan)
                 else if m_zawyDifficultyBlockIndex c \<noteq> 0 \<and> m_zawyDifficultyBlockIndex c \<le> blockIndex then
                   let t_difficultyWindow = (if length timestamps < 17 then length timestamps else 17);
                       timestamps_tmp = drop (length timestamps_o - t_difficultyWindow) timestamps_o;
                       cumulativeDifficulties_tmp =
                         drop (length cumulativeDifficulties_o - t_difficultyWindow) cumulativeDifficulties_o in
                   if length timestamps_tmp \<noteq> length cumulativeDifficulties_tmp then None
                   else if \<not> length timestamps_tmp \<le> 17 then None
                   else if length timestamps_tmp \<le> 1 then Some 1
                   else
                     (case span_and_work 17 0 timestamps_tmp cumulativeDifficulties_tmp of
                        None \<Rightarrow> None
                      | Some (timeSpan, totalWork) \<Rightarrow>
                          let (low, high) = mul128 totalWork (m_difficultyTarget c) in
                          if high \<noteq> 0 \<or> -1 - low < timeSpan - 1 then Some 0
                          else
                            let nextDiffZ = low div timeSpan in
                            Some (if nextDiffZ \<le> 100 then 100 else nextDiffZ))
                 else Some ((low + timeSpan - 1) div timeSpan))"

text \<open>
  The loop of LWMA-3 from index \<open>i\<close> to \<open>N\<close> with target \<open>T\<close>: the weighted sum \<open>L\<close> of the solve times
  and the sum of the last three.
\<close>

fun lwma3_loop :: "nat \<Rightarrow> nat \<Rightarrow> u64 list \<Rightarrow> u64 \<Rightarrow> u64 \<Rightarrow> u64 \<Rightarrow> u64 \<times> u64" where
  "lwma3_loop N i [] previous_timestamp L sum_3_ST = (L, sum_3_ST)"
| "lwma3_loop N i (timestamp # timestamps) previous_timestamp L sum_3_ST =
    (if N < i then (L, sum_3_ST)
     else
       let this_timestamp = (if previous_timestamp < timestamp then timestamp else previous_timestamp + 1);
           ST = min (6 * 120) (this_timestamp - previous_timestamp);
           L = L + ST * of_nat i;
           sum_3_ST = (if N - 3 < i then sum_3_ST + ST else sum_3_ST) in
       lwma3_loop N (Suc i) timestamps this_timestamp L sum_3_ST)"

definition nextDifficultyLWMA3 :: "u64 list \<Rightarrow> u64 list \<Rightarrow> u64 option" where
  "nextDifficultyLWMA3 timestamps cumulative_difficulties =
    (let T = 120 in
     if length timestamps \<le> 10 then Some 100
     else
       let N = (if length timestamps < 60 + 1 then length timestamps - 1 else 60) in
       if \<not> N < length cumulative_difficulties then None
       else
         let (L, sum_3_ST) = lwma3_loop N 1 (tl timestamps) (hd timestamps) 0 0;
             next_D = ((cumulative_difficulties ! N - cumulative_difficulties ! 0) * T * of_nat (N + 1) * 99)
               div (100 * 2 * L);
             prev_D = cumulative_difficulties ! N - cumulative_difficulties ! (N - 1);
             next_D = max ((prev_D * 67) div 100) (min next_D ((prev_D * 150) div 100)) in
         if 100 * 2 * L = 0 then None
         else if sum_3_ST < (8 * T) div 10 then Some (max next_D ((prev_D * 108) div 100))
         else Some next_D)"

fun lwma1_loop :: "nat \<Rightarrow> nat \<Rightarrow> u64 list \<Rightarrow> u64 \<Rightarrow> u64 \<Rightarrow> u64" where
  "lwma1_loop N i [] previous_timestamp L = L"
| "lwma1_loop N i (timestamp # timestamps) previous_timestamp L =
    (if N < i then L
     else
       let this_timestamp = (if previous_timestamp < timestamp then timestamp else previous_timestamp + 1);
           L = L + of_nat i * min (6 * 120) (this_timestamp - previous_timestamp) in
       lwma1_loop N (Suc i) timestamps this_timestamp L)"

text \<open>The final loop zeroes insignificant digits.\<close>

function round_loop :: "u64 \<Rightarrow> u64 \<Rightarrow> u64" where
  "round_loop i next_D =
    (if 1 < i then
       if i * 100 < next_D then ((next_D + i div 2) div i) * i
       else round_loop (i div 10) next_D
     else next_D)"
  by pat_completeness auto
termination
  by (relation "measure (\<lambda>(i, d). unat i)") (auto simp: unat_div_nat word_less_nat_alt)

declare round_loop.simps [simp del]

definition nextDifficultyLWMA1 :: "Currency \<Rightarrow> u64 list \<Rightarrow> u64 list \<Rightarrow> u64 \<Rightarrow> u64 option" where
  "nextDifficultyLWMA1 c timestamps cumulative_difficulties height =
    (let T = 120; N = 60 :: nat; nN = 60 :: u64;
         difficulty_guess = (if m_testnet c then 10 else 7200000) in
     if \<not> (length timestamps = length cumulative_difficulties \<and> length timestamps \<le> N + 1) then None
     else if length timestamps \<noteq> N + 1 then None
     else if m_upgradeHeightV8 c \<le> height \<and> height < m_upgradeHeightV8 c + nN then Some difficulty_guess
     else
       let L = lwma1_loop N 1 (tl timestamps) (hd timestamps - T) 0;
           L = (if L < nN * nN * T div 20 then nN * nN * T div 20 else L);
           avg_D = (cumulative_difficulties ! N - cumulative_difficulties ! 0) div nN;
           next_D =
             (if 2000000 * nN * nN * T < avg_D
              then (avg_D div (200 * L)) * (nN * (nN + 1) * T * 99)
              else (avg_D * nN * (nN + 1) * T * 99) div (200 * L)) in
       Some (round_loop 1000000000 next_D))"

text \<open>\<open>checkProofOfWork\<close>: the slow hash of the block, which may fail, is an argument.\<close>

definition checkProofOfWork :: "('block \<Rightarrow> Hash option) \<Rightarrow> 'block \<Rightarrow> u64 \<Rightarrow> (Hash option \<times> bool)" where
  "checkProofOfWork get_block_longhash block currentDifficulty =
    (case get_block_longhash block of
       None \<Rightarrow> (None, False)
     | Some proofOfWork \<Rightarrow> (Some proofOfWork, check_hash proofOfWork currentDifficulty))"

section \<open>Solve times\<close>

text \<open>
  A solve time, with the correction for timestamps out of sequence, is between 1 and six times the
  target; this holds even where the addition wraps.
\<close>

definition solve_time :: "u64 \<Rightarrow> u64 \<Rightarrow> u64" where
  "solve_time previous_timestamp timestamp =
    min (6 * 120) ((if previous_timestamp < timestamp then timestamp else previous_timestamp + 1) - previous_timestamp)"

lemma solve_time_bounds: "1 \<le> unat (solve_time p t)" "unat (solve_time p t) \<le> 720"
proof -
  show "unat (solve_time p t) \<le> 720"
    by (simp add: solve_time_def min_def word_le_nat_alt)
  have "t - p \<noteq> 0" if "p < t" using that by auto
  then have "(if p < t then t else p + 1) - p \<noteq> 0" by auto
  then have "solve_time p t \<noteq> 0" by (auto simp: solve_time_def min_def)
  then show "1 \<le> unat (solve_time p t)" by (simp add: unat_gt_0 Suc_leI)
qed

definition weights :: "nat \<Rightarrow> nat \<Rightarrow> nat" where
  "weights i N = (\<Sum>j\<in>{i..N}. j)"

lemma weights_step: "i \<le> N \<Longrightarrow> weights i N = i + weights (Suc i) N"
  by (simp add: weights_def sum.atLeast_Suc_atMost)

lemma weights_end: "N < i \<Longrightarrow> weights i N = 0"
  by (simp add: weights_def)

text \<open>One weighted solve time is added without overflow.\<close>

lemma weighted_step:
  assumes "i \<le> N" and "N \<le> 60" and "unat L + 720 * weights i N < 2 ^ 64"
  shows "unat (L + solve_time p t * of_nat i) = unat L + unat (solve_time p t) * i"
    and "unat (L + solve_time p t * of_nat i) + 720 * weights (Suc i) N < 2 ^ 64"
    and "unat L + i \<le> unat (L + solve_time p t * of_nat i)"
    and "unat (L + solve_time p t * of_nat i) \<le> unat L + 720 * i"
proof -
  note b = solve_time_bounds [of p t]
  have i: "unat (of_nat i :: u64) = i" using assms(1,2) by (intro unat_of_nat_less) simp
  have le: "unat (solve_time p t) * i \<le> 720 * i" using b(2) by (rule mult_le_mono1)
  have m: "unat (solve_time p t * of_nat i) = unat (solve_time p t) * i"
    using unat_mult_exact [of "solve_time p t" "of_nat i"] i le assms(1,2) by simp
  have w: "720 * weights i N = 720 * i + 720 * weights (Suc i) N"
    using weights_step [OF assms(1)] by simp
  show s: "unat (L + solve_time p t * of_nat i) = unat L + unat (solve_time p t) * i"
  proof -
    have "unat L + unat (solve_time p t) * i < 2 ^ 64" using le w assms(3) by linarith
    then show ?thesis using unat_add_exact [of L "solve_time p t * of_nat i"] m by simp
  qed
  show "unat (L + solve_time p t * of_nat i) + 720 * weights (Suc i) N < 2 ^ 64"
    using s le w assms(3) by linarith
  have "1 * i \<le> unat (solve_time p t) * i" using b(1) by (rule mult_le_mono1)
  then show "unat L + i \<le> unat (L + solve_time p t * of_nat i)" using s by simp
  show "unat (L + solve_time p t * of_nat i) \<le> unat L + 720 * i" using s le by simp
qed

lemma lwma3_loop_bounds:
  assumes "Suc N - i \<le> length ts" and "N \<le> 60" and "unat L + 720 * weights i N < 2 ^ 64"
  shows "unat L + weights i N \<le> unat (fst (lwma3_loop N i ts p L s))
    \<and> unat (fst (lwma3_loop N i ts p L s)) \<le> unat L + 720 * weights i N"
  using assms
proof (induction N i ts p L s rule: lwma3_loop.induct)
  case (1 N i p L s)
  then show ?case by (simp add: weights_end)
next
  case (2 N i t ts p L s)
  show ?case
  proof (cases "N < i")
    case True
    then show ?thesis by (simp add: weights_end)
  next
    case False
    define this_t where "this_t = (if p < t then t else p + 1)"
    have st: "min (6 * 120) (this_t - p) = solve_time p t" by (simp add: solve_time_def this_t_def)
    define s' where "s' = (if N - 3 < i then s + solve_time p t else s)"
    define L' where "L' = L + solve_time p t * of_nat i"
    have step: "lwma3_loop N i (t # ts) p L s = lwma3_loop N (Suc i) ts this_t L' s'"
      using False unfolding lwma3_loop.simps Let_def this_t_def [symmetric] st
      by (simp add: L'_def s'_def)
    note w = weighted_step [OF _ "2.prems"(2,3), of p t, folded L'_def]
    have IH: "unat L' + weights (Suc i) N \<le> unat (fst (lwma3_loop N (Suc i) ts this_t L' s'))
        \<and> unat (fst (lwma3_loop N (Suc i) ts this_t L' s')) \<le> unat L' + 720 * weights (Suc i) N"
      by (rule "2.IH" [OF False this_t_def st [symmetric] L'_def s'_def _ "2.prems"(2)])
        (use w(2) False "2.prems"(1) in auto)
    show ?thesis
      unfolding step using IH w(3,4) False weights_step [of i N] by auto
  qed
qed

lemma lwma1_loop_bounds:
  assumes "Suc N - i \<le> length ts" and "N \<le> 60" and "unat L + 720 * weights i N < 2 ^ 64"
  shows "unat L + weights i N \<le> unat (lwma1_loop N i ts p L)
    \<and> unat (lwma1_loop N i ts p L) \<le> unat L + 720 * weights i N"
  using assms
proof (induction N i ts p L rule: lwma1_loop.induct)
  case (1 N i p L)
  then show ?case by (simp add: weights_end)
next
  case (2 N i t ts p L)
  show ?case
  proof (cases "N < i")
    case True
    then show ?thesis by (simp add: weights_end)
  next
    case False
    define this_t where "this_t = (if p < t then t else p + 1)"
    have st: "min (6 * 120) (this_t - p) = solve_time p t" by (simp add: solve_time_def this_t_def)
    define L' where "L' = L + solve_time p t * of_nat i"
    have L': "L' = L + of_nat i * min (6 * 120) (this_t - p)" by (simp only: L'_def st mult.commute)
    have step: "lwma1_loop N i (t # ts) p L = lwma1_loop N (Suc i) ts this_t L'"
      using False unfolding lwma1_loop.simps Let_def this_t_def [symmetric] by (simp add: L')
    note w = weighted_step [OF _ "2.prems"(2,3), of p t, folded L'_def]
    have IH: "unat L' + weights (Suc i) N \<le> unat (lwma1_loop N (Suc i) ts this_t L')
        \<and> unat (lwma1_loop N (Suc i) ts this_t L') \<le> unat L' + 720 * weights (Suc i) N"
      by (rule "2.IH" [OF False this_t_def L' _ "2.prems"(2)]) (use w(2) False "2.prems"(1) in auto)
    show ?thesis
      unfolding step using IH w(3,4) False weights_step [of i N] by auto
  qed
qed

lemma weights_60: "weights 1 60 = 1830"
  by (simp add: weights_def numeral_eq_Suc atLeastAtMostSuc_conv)

lemma weights_bound: "N \<le> 60 \<Longrightarrow> weights 1 N \<le> 1830"
proof -
  assume "N \<le> 60"
  have "weights 1 N \<le> weights 1 60"
    unfolding weights_def using \<open>N \<le> 60\<close> by (intro sum_mono2) auto
  also have "\<dots> = 1830" by (rule weights_60)
  finally show ?thesis .
qed

lemma weights_pos: "1 \<le> N \<Longrightarrow> 1 \<le> weights 1 N"
  using weights_step [of 1 N] by simp

section \<open>The clamp of LWMA-3\<close>

lemma percent_exact:
  fixes prev_D k :: u64
  assumes "unat prev_D * 150 < 2 ^ 64" and "unat k \<le> 150"
  shows "unat ((prev_D * k) div 100) = unat prev_D * unat k div 100"
proof -
  have "unat prev_D * unat k \<le> unat prev_D * 150" using assms(2) by simp
  then have "unat prev_D * unat k < 2 ^ 64" using assms(1) by linarith
  then have "unat (prev_D * k) = unat prev_D * unat k"
    using unat_mult_exact [of prev_D k] by simp
  then show ?thesis by (simp add: unat_div_nat)
qed

lemma lwma3_clamp:
  fixes prev_D x :: u64
  assumes "unat prev_D * 150 < 2 ^ 64"
  defines "d \<equiv> max ((prev_D * 67) div 100) (min x ((prev_D * 150) div 100))"
  shows "(prev_D * 67) div 100 \<le> d" and "d \<le> (prev_D * 150) div 100"
    and "max d ((prev_D * 108) div 100) \<le> (prev_D * 150) div 100"
    and "(prev_D * 67) div 100 \<le> max d ((prev_D * 108) div 100)"
proof -
  have le: "(prev_D * 67) div 100 \<le> (prev_D * 150) div 100" "(prev_D * 108) div 100 \<le> (prev_D * 150) div 100"
    unfolding word_le_nat_alt using percent_exact [OF assms(1), of 67]
      percent_exact [OF assms(1), of 108] percent_exact [OF assms(1), of 150]
    by (simp_all add: div_le_mono)
  show 1: "(prev_D * 67) div 100 \<le> d" unfolding d_def by (rule max.cobounded1)
  show 2: "d \<le> (prev_D * 150) div 100"
    unfolding d_def using le(1) by (auto simp: min_le_iff_disj)
  show "max d ((prev_D * 108) div 100) \<le> (prev_D * 150) div 100" using 2 le(2) by simp
  show "(prev_D * 67) div 100 \<le> max d ((prev_D * 108) div 100)" using 1 by (simp add: le_max_iff_disj)
qed

lemma nextDifficultyLWMA3_bounds:
  assumes "10 < length ts" and "N = min 60 (length ts - 1)" and "N < length cds"
    and "prev_D = cds ! N - cds ! (N - 1)" and "unat prev_D * 150 < 2 ^ 64"
  shows "\<exists>d. nextDifficultyLWMA3 ts cds = Some d
    \<and> (prev_D * 67) div 100 \<le> d \<and> d \<le> (prev_D * 150) div 100"
proof -
  have N: "(if length ts < 60 + 1 then length ts - 1 else 60) = N" using assms(2) by auto
  have N60: "N \<le> 60" "1 \<le> N" "N \<le> length ts - 1" using assms(1,2) by auto
  obtain L s where loop: "lwma3_loop N 1 (tl ts) (hd ts) 0 0 = (L, s)" by (meson surj_pair)
  have "1 \<le> unat L" "unat L \<le> 720 * 1830"
    using lwma3_loop_bounds [of N 1 "tl ts" 0 "hd ts" 0] loop weights_bound [OF N60(1)]
      weights_pos [OF N60(2)] N60 by auto
  then have "unat (100 * 2 * L) = 200 * unat L"
    using unat_mult_exact [of 200 L] by simp
  with \<open>1 \<le> unat L\<close> have nz: "100 * 2 * L \<noteq> 0" by auto
  define x where "x = ((cds ! N - cds ! 0) * 120 * of_nat (N + 1) * 99) div (100 * 2 * L)"
  define d where "d = max ((prev_D * 67) div 100) (min x ((prev_D * 150) div 100))"
  have "nextDifficultyLWMA3 ts cds =
      Some (if s < (8 * 120) div 10 then max d ((prev_D * 108) div 100) else d)"
    using assms(1,3) nz
    unfolding nextDifficultyLWMA3_def Let_def N loop prod.case assms(4) [symmetric] x_def [symmetric]
      d_def [symmetric] by simp
  then show ?thesis using lwma3_clamp [OF assms(5), of x, folded d_def] by (auto split: if_splits)
qed

section \<open>The rounding of LWMA-1\<close>

lemma round_arith:
  assumes "(m :: nat) \<le> d + h" and "d + h < m + i" and "2 * h \<le> i" and "i \<le> 2 * h + 1" and "i * 100 < d"
  shows "\<bar>int m - int d\<bar> * 200 \<le> int d"
proof -
  have "2 * d \<le> 2 * m + i" using assms(2,4) by simp
  moreover have "2 * m \<le> 2 * d + i" using assms(1,3) by simp
  ultimately have "2 * int d \<le> 2 * int m + int i" "2 * int m \<le> 2 * int d + int i" by linarith+
  moreover have "int i * 100 < int d" using assms(5) by linarith
  ultimately show ?thesis by (cases "int m \<le> int d") simp_all
qed

lemma round_to_multiple:
  fixes d i :: nat
  assumes "1 < i" and "i * 100 < d"
  shows "\<bar>int ((d + i div 2) div i * i) - int d\<bar> * 200 \<le> int d"
proof -
  define q where "q = (d + i div 2) div i"
  have "q * i \<le> d + i div 2" unfolding q_def by (rule div_times_less_eq_dividend)
  moreover have "d + i div 2 < q * i + i"
    unfolding q_def using assms(1) by (metis add.commute dividend_less_times_div mult.commute mult_Suc zero_less_one less_trans plus_1_eq_Suc add_mult_distrib mult_1)
  moreover have "2 * (i div 2) \<le> i" "i \<le> 2 * (i div 2) + 1" by auto
  ultimately show ?thesis unfolding q_def [symmetric] by (rule round_arith [OF _ _ _ _ assms(2)])
qed

lemma round_loop_close:
  assumes "unat d < 2 ^ 63" and "unat i \<le> 1000000000"
  shows "\<bar>int (unat (round_loop i d)) - int (unat d)\<bar> * 200 \<le> int (unat d)"
  using assms
proof (induction i d rule: round_loop.induct)
  case (1 i d)
  show ?case
  proof (cases "1 < i")
    case False
    then show ?thesis by (simp add: round_loop.simps [of i d])
  next
    case True
    have i100: "unat (i * 100) = unat i * 100"
      using unat_mult_exact [of i 100] "1.prems"(2) by simp
    show ?thesis
    proof (cases "i * 100 < d")
      case over: True
      have one: "1 < unat i" using True by (simp add: word_less_nat_alt)
      have lt: "unat i * 100 < unat d" using over i100 by (simp add: word_less_nat_alt)
      have s: "unat (d + i div 2) = unat d + unat i div 2"
        using unat_add_exact [of d "i div 2"] "1.prems" by (simp add: unat_div_nat)
      define q where "q = (unat d + unat i div 2) div unat i"
      have "q * unat i \<le> unat d + unat i div 2" unfolding q_def by (rule div_times_less_eq_dividend)
      moreover have "unat d < 9223372036854775808" using "1.prems"(1) by simp
      ultimately have "q * unat i < 18446744073709551616" using "1.prems"(2) by linarith
      then have fit: "q * unat i < 2 ^ 64" by simp
      have "unat ((d + i div 2) div i) = q" by (simp add: unat_div_nat s q_def)
      then have "unat ((d + i div 2) div i * i) = q * unat i"
        using unat_mult_exact [of "(d + i div 2) div i" i] fit by simp
      moreover have "round_loop i d = (d + i div 2) div i * i"
        using True over by (subst round_loop.simps) simp
      ultimately show ?thesis using round_to_multiple [OF one lt] by (simp only: q_def)
    next
      case False
      have "round_loop i d = round_loop (i div 10) d" using True False by (subst round_loop.simps) simp
      moreover have "unat (i div 10) \<le> 1000000000" using "1.prems"(2) by (simp add: unat_div_nat)
      ultimately show ?thesis using "1.IH" [OF True False "1.prems"(1)] by simp
    qed
  qed
qed

lemma lwma1_unfold:
  assumes "length ts = 61" and "length cds = 61" and "\<not> (m_upgradeHeightV8 c \<le> h \<and> h < m_upgradeHeightV8 c + 60)"
    and "avg_D = (cds ! 60 - cds ! 0) div 60" and "avg_D \<le> 864000000000"
  obtains L where "unat L = max 21600 (unat (lwma1_loop 60 1 (tl ts) (hd ts - 120) 0))" and "unat L \<le> 1317600"
    and "nextDifficultyLWMA1 c ts cds h = Some (round_loop 1000000000 ((avg_D * 43480800) div (200 * L)))"
proof -
  define L0 where "L0 = lwma1_loop 60 1 (tl ts) (hd ts - 120) 0"
  define L where "L = (if L0 < 21600 then 21600 else L0)"
  have "unat L0 \<le> 720 * weights 1 60" and "weights 1 60 \<le> 1830"
    using lwma1_loop_bounds [of 60 1 "tl ts" 0 "hd ts - 120"] assms(1) weights_bound [of 60]
    by (auto simp: L0_def)
  then have "unat L0 \<le> 1317600" by linarith
  then have L: "unat L = max 21600 (unat L0)" "unat L \<le> 1317600"
    by (auto simp: L_def word_less_nat_alt)
  have c1: "(60 :: u64) * 60 * 120 div 20 = 21600" and c2: "(2000000 :: u64) * 60 * 60 * 120 = 864000000000"
    and c3: "(60 :: nat) + 1 = 61" by simp_all
  have f: "\<not> 864000000000 < avg_D" using assms(5) by simp
  have const: "(60 :: u64) * (60 + 1) * 120 * 99 = 43480800" by simp
  have "avg_D * 60 * (60 + 1) * 120 * 99 = avg_D * 43480800"
    by (simp only: const [symmetric] mult.assoc)
  then have "nextDifficultyLWMA1 c ts cds h = Some (round_loop 1000000000 ((avg_D * 43480800) div (200 * L)))"
    using assms(3) f
    by (simp only: nextDifficultyLWMA1_def Let_def assms(1,2) c1 c2 c3 order_refl simp_thms if_True
        if_False flip: L0_def L_def assms(4))
  with L that show ?thesis unfolding L0_def by blast
qed

section \<open>The weighted solve times of LWMA-1\<close>

text \<open>
  The specification, on natural numbers: a block counts at its own timestamp, or one second after
  the block before it where that is later; the block before the window counts 120 seconds before
  the first timestamp. The solve times, cut off at 720 seconds, are weighted with their position.
\<close>

fun corrected_time :: "nat list \<Rightarrow> nat \<Rightarrow> nat" where
  "corrected_time ts 0 = ts ! 0 - 120"
| "corrected_time ts (Suc i) = max (ts ! Suc i) (corrected_time ts i + 1)"

definition weighted_solve_times :: "nat list \<Rightarrow> nat \<Rightarrow> nat" where
  "weighted_solve_times ts N = (\<Sum>i = 1..N. i * min 720 (corrected_time ts i - corrected_time ts (i - 1)))"

lemma corrected_time_bound:
  "i < length ts \<Longrightarrow> \<forall>t \<in> set ts. t < b \<Longrightarrow> corrected_time ts i < b + i"
proof (induction i)
  case (Suc i)
  then have "ts ! Suc i < b" using nth_mem [of "Suc i" ts] by simp
  with Suc show ?case by (simp del: nth_mem)
qed (cases ts; auto)

text \<open>The step of the loop on words is the step on natural numbers, below the wrap.\<close>

lemma corrected_step:
  fixes p t :: u64
  assumes "unat p + 1 < 2 ^ 64"
  shows "unat (if p < t then t else p + 1) = max (unat t) (unat p + 1)"
    and "unat (solve_time p t) = min 720 (max (unat t) (unat p + 1) - unat p)"
proof -
  have one: "unat (p + 1) = unat p + 1" using assms unat_add_exact [of p 1] by simp
  show *: "unat (if p < t then t else p + 1) = max (unat t) (unat p + 1)"
    using one by (auto simp: word_less_nat_alt)
  have "p \<le> (if p < t then t else p + 1)" using one by (auto simp: word_le_nat_alt word_less_nat_alt)
  then have "unat ((if p < t then t else p + 1) - p) = max (unat t) (unat p + 1) - unat p"
    by (simp only: unat_sub *)
  moreover have "unat (min 720 w) = min 720 (unat w)" for w :: u64 by (simp add: min_def word_le_nat_alt)
  ultimately show "unat (solve_time p t) = min 720 (max (unat t) (unat p + 1) - unat p)"
    by (simp add: solve_time_def)
qed

lemma lwma1_loop_weighted:
  assumes "length ts = Suc N" and "N \<le> 60" and "list_all (\<lambda>t. unat t < 2 ^ 63) ts"
    and "1 \<le> i" and "i \<le> Suc N" and "unat p = corrected_time (map unat ts) (i - 1)"
    and "unat L + 720 * weights i N < 2 ^ 64"
  shows "unat (lwma1_loop N i (drop i ts) p L)
    = unat L + (\<Sum>j = i..N. j * min 720 (corrected_time (map unat ts) j - corrected_time (map unat ts) (j - 1)))"
  using assms(4-)
proof (induction "Suc N - i" arbitrary: i p L)
  case 0
  then show ?case using assms(1) by simp
next
  case (Suc k)
  then have i: "i \<le> N" "i < length ts" using assms(1) by auto
  obtain m where m: "i = Suc m" using Suc.prems(1) by (cases i) auto
  let ?q = "corrected_time (map unat ts)"
  define this_t where "this_t = (if p < ts ! i then ts ! i else p + 1)"
  define L' where "L' = L + solve_time p (ts ! i) * of_nat i"
  have "?q m < 2 ^ 63 + m"
    using corrected_time_bound [of m "map unat ts" "2 ^ 63"] assms(3) i m by (auto simp: list_all_iff)
  then have p: "unat p + 1 < 2 ^ 64" using Suc.prems(3) m i(1) assms(2) by simp
  have q: "?q i = max (unat (ts ! i)) (unat p + 1)" using Suc.prems(3) m i by simp
  note c = corrected_step [OF p, of "ts ! i"]
  have st: "min (6 * 120) (this_t - p) = solve_time p (ts ! i)" by (simp add: solve_time_def this_t_def)
  have "lwma1_loop N i (drop i ts) p L = lwma1_loop N (Suc i) (drop (Suc i) ts) this_t L'"
    using i(1) unfolding Cons_nth_drop_Suc [OF i(2), symmetric] lwma1_loop.simps Let_def this_t_def [symmetric] st
    by (simp add: L'_def mult.commute)
  moreover note w = weighted_step [OF i(1) assms(2) Suc.prems(4), of p "ts ! i", folded L'_def]
  moreover have "unat (lwma1_loop N (Suc i) (drop (Suc i) ts) this_t L')
      = unat L' + (\<Sum>j = Suc i..N. j * min 720 (?q j - ?q (j - 1)))"
    by (rule Suc.hyps(1)) (use Suc.hyps(2) i w(2) c(1) q in \<open>simp_all add: this_t_def\<close>)
  moreover have "unat L' = unat L + i * min 720 (?q i - ?q (i - 1))"
    using w(1) c(2) q Suc.prems(3) by simp
  ultimately show ?case using i(1) by (simp add: sum.atLeast_Suc_atMost)
qed

section \<open>Properties\<close>

text \<open>
  C21. With more than ten blocks the LWMA-3 algorithm always returns (the weighted
  sum of solve times is never 0, whatever the timestamps), and the new difficulty is between 67%
  and 150% of the last block's difficulty.
\<close>

theorem lwma3_bounded:
  assumes "10 < length timestamps" and "N = min 60 (length timestamps - 1)"
    and "N < length cumulative_difficulties"
    and "prev_D = cumulative_difficulties ! N - cumulative_difficulties ! (N - 1)"
    and "unat prev_D * 150 < 2 ^ 64"
  shows "\<exists>d. nextDifficultyLWMA3 timestamps cumulative_difficulties = Some d
    \<and> unat prev_D * 67 div 100 \<le> unat d \<and> unat d \<le> unat prev_D * 150 div 100"
  using nextDifficultyLWMA3_bounds [OF assms] percent_exact [OF assms(5), of 67]
    percent_exact [OF assms(5), of 150]
  by (auto simp: word_le_nat_alt)

theorem lwma3_bounded_witness:
  "\<exists>d. nextDifficultyLWMA3 [0, 9, 8, 0, 5, 6, 7, 8, 9, 10, 11, 3]
      [100, 200, 300, 400, 500, 600, 700, 800, 900, 1000, 1100, 1300] = Some d
    \<and> 134 \<le> unat d \<and> unat d \<le> 300"
  using lwma3_bounded [of "[0, 9, 8, 0, 5, 6, 7, 8, 9, 10, 11, 3]" 11
      "[100, 200, 300, 400, 500, 600, 700, 800, 900, 1000, 1100, 1300]" 200]
  by simp

text \<open>
  C22. For an average difficulty up to 424250337475 and timestamps of at least 120 that
  fit in 63 bits, nothing overflows in the LWMA-1 algorithm: it returns the quotient of
  \<open>average * 60 * 61 * 120 * 99\<close> and 200 times \<open>L\<close>, rounded by at most half a percent, where \<open>L\<close> is
  the sum of the solve times of the corrected timestamps, each cut off at 720 seconds and weighted
  with its position from 1 to 60, and at least 21600.
\<close>

theorem lwma1_exact:
  assumes "length timestamps = 61" and "length cumulative_difficulties = 61"
    and "\<not> (m_upgradeHeightV8 c \<le> height \<and> height < m_upgradeHeightV8 c + 60)"
    and "avg_D = (cumulative_difficulties ! 60 - cumulative_difficulties ! 0) div 60"
    and "unat avg_D \<le> 424250337475"
    and "120 \<le> timestamps ! 0" and "list_all (\<lambda>t. unat t < 2 ^ 63) timestamps"
    and "L = max 21600 (weighted_solve_times (map unat timestamps) 60)"
  shows "\<exists>d. nextDifficultyLWMA1 c timestamps cumulative_difficulties height = Some d
    \<and> \<bar>int (unat d) - int (unat avg_D * 43480800 div (200 * L))\<bar> * 200
        \<le> int (unat avg_D * 43480800 div (200 * L))"
proof -
  have avg: "avg_D \<le> 864000000000" using assms(5) by (simp add: word_le_nat_alt)
  obtain L' where max: "unat L' = max 21600 (unat (lwma1_loop 60 1 (tl timestamps) (hd timestamps - 120) 0))"
    and L': "unat L' \<le> 1317600"
    and r: "nextDifficultyLWMA1 c timestamps cumulative_difficulties height
      = Some (round_loop 1000000000 ((avg_D * 43480800) div (200 * L')))"
    by (rule lwma1_unfold [OF assms(1-4) avg])
  have ts: "hd timestamps = timestamps ! 0" "tl timestamps = drop 1 timestamps"
    using assms(1) by (cases timestamps; simp)+
  have "unat (timestamps ! 0 - 120) = corrected_time (map unat timestamps) 0"
    using assms(1,6) by (simp add: unat_sub)
  then have "unat L' = L"
    using lwma1_loop_weighted [of timestamps 60 1 "timestamps ! 0 - 120" 0] assms(1,7,8) weights_bound [of 60]
    unfolding max ts weighted_solve_times_def by simp
  then have L: "unat L' = L" "21600 \<le> L" using max by simp_all
  define raw where "raw = (avg_D * 43480800) div (200 * L')"
  have m: "unat (avg_D * 43480800) = unat avg_D * 43480800"
    using unat_mult_exact [of avg_D 43480800] assms(5) by simp
  have n: "unat (200 * L') = 200 * L" using unat_mult_exact [of 200 L'] L' L(1) by simp
  have raw: "unat raw = unat avg_D * 43480800 div (200 * L)"
    unfolding raw_def by (simp only: unat_div_nat m n)
  have "unat raw < 2 ^ 63"
  proof -
    have "unat raw \<le> unat avg_D * 43480800 div 4320000"
      unfolding raw using L(2) by (intro div_le_mono2) simp_all
    then show ?thesis using assms(5) by simp
  qed
  then have "\<bar>int (unat (round_loop 1000000000 raw)) - int (unat raw)\<bar> * 200 \<le> int (unat raw)"
    by (rule round_loop_close) simp
  with r raw show ?thesis unfolding raw_def [symmetric] by auto
qed

text \<open>A window of blocks two minutes apart; the first solve time counts four minutes.\<close>

definition steady_window :: "nat list" where
  "steady_window = map (\<lambda>i. 1000 + 120 * i) [0..<61]"

lemma steady_times: "i \<le> 60 \<Longrightarrow> corrected_time steady_window i = (if i = 0 then 880 else 1000 + 120 * i)"
  by (induction i) (auto simp: steady_window_def nth_append)

lemma steady_sum: "weighted_solve_times steady_window 60 = 219720"
proof -
  have "weighted_solve_times steady_window 60 = (\<Sum>i = 1..60. i * 120 + (if i = 1 then 120 else 0))"
    unfolding weighted_solve_times_def
  proof (rule sum.cong)
    fix i :: nat
    assume "i \<in> {1..60}"
    then obtain k where "i = Suc k" "k < 60" by (cases i) auto
    then show "i * min 720 (corrected_time steady_window i - corrected_time steady_window (i - 1))
        = i * 120 + (if i = 1 then 120 else 0)"
      by (simp add: steady_times del: corrected_time.simps)
  qed simp
  also have "\<dots> = weights 1 60 * 120 + 120"
    unfolding weights_def sum.distrib sum_distrib_right by simp
  also have "\<dots> = 219720" unfolding weights_60 by simp
  finally show ?thesis .
qed

theorem lwma1_exact_witness:
  "weighted_solve_times steady_window 60 = 219720
    \<and> (\<exists>d. nextDifficultyLWMA1 mainnet (map of_nat steady_window) (replicate 60 0 @ [60000000]) 800000 = Some d
    \<and> \<bar>int (unat d) - int (1000000 * 43480800 div (200 * 219720))\<bar> * 200
        \<le> int (1000000 * 43480800 div (200 * 219720)))"
proof -
  have len: "length (map of_nat steady_window :: u64 list) = 61" by (simp add: steady_window_def)
  have window: "x < 2 ^ 63" if "x \<in> set steady_window" for x
    using that by (auto simp: steady_window_def)
  have exact: "unat (of_nat x :: u64) = x" if "x \<in> set steady_window" for x
    using window [OF that] by (simp add: unat_of_nat)
  have small: "list_all (\<lambda>t. unat t < 2 ^ 63) (map of_nat steady_window :: u64 list)"
    unfolding list_all_iff set_map using window exact by auto
  have unat: "map unat (map of_nat steady_window :: u64 list) = steady_window"
    unfolding map_map by (rule map_idI) (simp only: comp_apply exact)
  have first: "120 \<le> (map of_nat steady_window :: u64 list) ! 0"
    by (simp add: steady_window_def nth_append word_le_nat_alt)
  show ?thesis
    using lwma1_exact [OF len _ _ _ _ first small refl, of "replicate 60 0 @ [60000000]" mainnet 800000 1000000]
    unfolding unat steady_sum by (simp add: nth_append)
qed

text \<open>
  Above that bound, but below the threshold 864000000000 where the code switches to the formula that
  avoids it, the product wraps.
\<close>

lemma lwma1_product_wraps:
  assumes "424250337475 < unat avg_D" and "avg_D \<le> 2000000 * 60 * 60 * 120"
  shows "unat (avg_D * 60 * (60 + 1) * 120 * 99 :: u64) < unat avg_D * 60 * (60 + 1) * 120 * 99"
proof -
  have "unat (avg_D * 60 * (60 + 1) * 120 * 99 :: u64) < 18446744073709551616" by (rule unat_le_max64)
  also have "\<dots> \<le> unat avg_D * 60 * (60 + 1) * 120 * 99" using assms(1) by simp
  finally show ?thesis .
qed

end
