(* ===== verification/Upgrade_Detector.thy ===== *)
theory Upgrade_Detector
  imports Currency_Base
begin

text \<open>
  The upgrade detector of \<open>src/CryptoNoteCore/UpgradeDetector.h\<close>. The block container it watches is the
  list of the (major, minor) versions of the blocks; an assertion that fails is \<open>None\<close>. Comparisons
  with \<open>m_targetVersion - 1\<close> are made in \<open>int\<close>, as the promotions of C++ do.
\<close>

type_synonym versions = "(u8 \<times> u8) list"

definition UNDEF_HEIGHT :: u32 where "UNDEF_HEIGHT = 0xFFFFFFFF"

record UpgradeDetector =
  ud_targetVersion :: u8
  ud_votingCompleteHeight :: u32

definition UpgradeDetector_create :: "u8 \<Rightarrow> UpgradeDetector" where
  "UpgradeDetector_create targetVersion =
    \<lparr>ud_targetVersion = targetVersion, ud_votingCompleteHeight = UNDEF_HEIGHT\<rparr>"

definition previous_version :: "UpgradeDetector \<Rightarrow> int" where
  "previous_version d = uint (ud_targetVersion d) - 1"

definition currency_undefined :: "Currency \<Rightarrow> UpgradeDetector \<Rightarrow> bool" where
  "currency_undefined c d \<longleftrightarrow> upgradeHeight c (ud_targetVersion d) = ucast UNDEF_HEIGHT"

definition ud_upgradeHeight :: "Currency \<Rightarrow> UpgradeDetector \<Rightarrow> u32" where
  "ud_upgradeHeight c d =
    (if currency_undefined c d then
       if ud_votingCompleteHeight d = UNDEF_HEIGHT then UNDEF_HEIGHT
       else calculateUpgradeHeight c (ud_votingCompleteHeight d)
     else ucast (upgradeHeight c (ud_targetVersion d)))"

definition is_vote :: "UpgradeDetector \<Rightarrow> u8 \<times> u8 \<Rightarrow> bool" where
  "is_vote d v \<longleftrightarrow> uint (fst v) = previous_version d \<and> snd v = 1"

definition getNumberOfVotes :: "Currency \<Rightarrow> UpgradeDetector \<Rightarrow> versions \<Rightarrow> u32 \<Rightarrow> nat" where
  "getNumberOfVotes c d chain height =
    (if height < m_upgradeVotingWindow c - 1 then 0
     else length (filter (\<lambda>i. is_vote d (chain ! i))
       [unat (height + 1 - m_upgradeVotingWindow c)..<Suc (unat height)]))"

definition isVotingComplete :: "Currency \<Rightarrow> UpgradeDetector \<Rightarrow> versions \<Rightarrow> u32 \<Rightarrow> bool option" where
  "isVotingComplete c d chain height =
    (if \<not> currency_undefined c d then None
     else if \<not> 1 < m_upgradeVotingWindow c then None
     else if \<not> (0 < m_upgradeVotingThreshold c \<and> m_upgradeVotingThreshold c \<le> 100) then None
     else Some (unat (m_upgradeVotingThreshold c) * unat (m_upgradeVotingWindow c)
       \<le> 100 * getNumberOfVotes c d chain height))"

fun find_voting_loop :: "Currency \<Rightarrow> UpgradeDetector \<Rightarrow> versions \<Rightarrow> nat list \<Rightarrow> u32 option" where
  "find_voting_loop c d chain [] = Some UNDEF_HEIGHT"
| "find_voting_loop c d chain (i # is) =
    (case isVotingComplete c d chain (of_nat i) of
       None \<Rightarrow> None
     | Some complete \<Rightarrow> if complete then Some (of_nat i) else find_voting_loop c d chain is)"

definition findVotingCompleteHeight :: "Currency \<Rightarrow> UpgradeDetector \<Rightarrow> versions \<Rightarrow> u32 \<Rightarrow> u32 option" where
  "findVotingCompleteHeight c d chain probableUpgradeHeight =
    (if \<not> currency_undefined c d then None
     else
       let probableVotingCompleteHeight =
         (if maxUpgradeDistance c < probableUpgradeHeight
          then probableUpgradeHeight - maxUpgradeDistance c else 0) in
       find_voting_loop c d chain [unat probableVotingCompleteHeight..<Suc (unat probableUpgradeHeight)])"

text \<open>\<open>init\<close>: the result and the detector; \<open>None\<close> when an assertion fails.\<close>

definition UpgradeDetector_init :: "Currency \<Rightarrow> versions \<Rightarrow> UpgradeDetector \<Rightarrow> (bool \<times> UpgradeDetector) option" where
  "UpgradeDetector_init c chain d =
    (let upgradeHeight = ucast (upgradeHeight c (ud_targetVersion d)) in
     if upgradeHeight = UNDEF_HEIGHT then
       if chain = [] then Some (True, d\<lparr>ud_votingCompleteHeight := UNDEF_HEIGHT\<rparr>)
       else if previous_version d = uint (fst (last chain)) then
         map_option (\<lambda>h. (True, d\<lparr>ud_votingCompleteHeight := h\<rparr>))
           (findVotingCompleteHeight c d chain (of_nat (length chain - 1)))
       else if ud_targetVersion d \<le> fst (last chain) then
         let it = length (takeWhile (\<lambda>b. fst b < ud_targetVersion d) chain) in
         if it = length chain \<or> fst (chain ! it) \<noteq> ud_targetVersion d then Some (False, d)
         else
           map_option (\<lambda>h. (h \<noteq> UNDEF_HEIGHT, d\<lparr>ud_votingCompleteHeight := h\<rparr>))
             (findVotingCompleteHeight c d chain (of_nat it))
       else Some (True, d\<lparr>ud_votingCompleteHeight := UNDEF_HEIGHT\<rparr>)
     else if chain \<noteq> [] then
       if length chain \<le> unat (upgradeHeight + 1) then
         Some (\<not> ud_targetVersion d \<le> fst (last chain), d)
       else
         Some (fst (chain ! unat (upgradeHeight + 1)) = ud_targetVersion d, d)
     else Some (True, d))"

text \<open>\<open>blockPushed\<close> and \<open>blockPopped\<close>, with the container after the push or pop.\<close>

definition blockPushed :: "Currency \<Rightarrow> versions \<Rightarrow> UpgradeDetector \<Rightarrow> UpgradeDetector option" where
  "blockPushed c chain d =
    (if chain = [] then None
     else if \<not> currency_undefined c d then
       if length chain \<le> unat (upgradeHeight c (ud_targetVersion d) + 1) then
         if uint (fst (last chain)) \<le> previous_version d then Some d else None
       else if ud_targetVersion d \<le> fst (last chain) then Some d else None
     else if ud_votingCompleteHeight d \<noteq> UNDEF_HEIGHT then
       if \<not> unat (ud_votingCompleteHeight d) < length chain then None
       else if length chain \<le> unat (ud_upgradeHeight c d) then
         if uint (fst (last chain)) = previous_version d then Some d else None
       else if length chain = unat (ud_upgradeHeight c d + 1) then
         if uint (fst (last chain)) = previous_version d then Some d else None
       else if fst (last chain) = ud_targetVersion d then Some d else None
     else
       let lastBlockHeight = of_nat (length chain - 1) in
       case isVotingComplete c d chain lastBlockHeight of
         None \<Rightarrow> None
       | Some complete \<Rightarrow>
           if complete then Some (d\<lparr>ud_votingCompleteHeight := lastBlockHeight\<rparr>) else Some d)"

definition blockPopped :: "Currency \<Rightarrow> versions \<Rightarrow> UpgradeDetector \<Rightarrow> UpgradeDetector option" where
  "blockPopped c chain d =
    (if ud_votingCompleteHeight d \<noteq> UNDEF_HEIGHT then
       if \<not> currency_undefined c d then None
       else if length chain = unat (ud_votingCompleteHeight d)
       then Some (d\<lparr>ud_votingCompleteHeight := UNDEF_HEIGHT\<rparr>)
       else if unat (ud_votingCompleteHeight d) < length chain then Some d
       else None
     else Some d)"

section \<open>Pushing and popping\<close>

definition push_version :: "Currency \<Rightarrow> u8 \<times> u8 \<Rightarrow> versions \<times> UpgradeDetector \<Rightarrow> (versions \<times> UpgradeDetector) option" where
  "push_version c v s = map_option (Pair (fst s @ [v])) (blockPushed c (fst s @ [v]) (snd s))"

definition pop_version :: "Currency \<Rightarrow> u8 \<times> u8 \<Rightarrow> versions \<times> UpgradeDetector \<Rightarrow> (versions \<times> UpgradeDetector) option" where
  "pop_version c v s = map_option (Pair (butlast (fst s))) (blockPopped c (butlast (fst s)) (snd s))"

definition ud_inv :: "Currency \<Rightarrow> nat \<Rightarrow> versions \<times> UpgradeDetector \<Rightarrow> bool" where
  "ud_inv c n s \<longleftrightarrow> length (fst s) + n < 2 ^ 32 - 1
    \<and> (ud_votingCompleteHeight (snd s) \<noteq> UNDEF_HEIGHT \<longrightarrow>
        currency_undefined c (snd s) \<and> unat (ud_votingCompleteHeight (snd s)) < length (fst s))"

lemma blockPushed_cases:
  assumes "blockPushed c (chain @ [v]) d = Some d'"
  shows "d' = d \<or> (currency_undefined c d \<and> ud_votingCompleteHeight d = UNDEF_HEIGHT
    \<and> d' = d\<lparr>ud_votingCompleteHeight := of_nat (length chain)\<rparr>)"
  using assms by (auto simp: blockPushed_def Let_def split: if_splits option.splits)

lemma height_defined: "n < 2 ^ 32 - 1 \<Longrightarrow> (of_nat n :: u32) \<noteq> UNDEF_HEIGHT"
proof
  assume n: "n < 2 ^ 32 - 1" and "(of_nat n :: u32) = UNDEF_HEIGHT"
  then have "unat (of_nat n :: u32) = 4294967295" by (simp add: UNDEF_HEIGHT_def)
  moreover have "unat (of_nat n :: u32) = n" using n by (intro unat_of_nat_less) simp
  ultimately show False using n by simp
qed

lemma currency_undefined_upd [simp]:
  "currency_undefined c (d\<lparr>ud_votingCompleteHeight := h\<rparr>) = currency_undefined c d"
  by (simp add: currency_undefined_def)

lemma push_version_laws:
  assumes inv: "ud_inv c (Suc n) s" and push: "push_version c v s = Some s'"
  shows "ud_inv c n s'" and "pop_version c v s' = Some s"
proof -
  obtain chain d where s: "s = (chain, d)" by (cases s)
  obtain d' where d': "blockPushed c (chain @ [v]) d = Some d'" and s': "s' = (chain @ [v], d')"
    using push by (auto simp: push_version_def s)
  have len: "length chain < 2 ^ 32 - 1" using inv by (simp add: ud_inv_def s)
  then have u: "unat (of_nat (length chain) :: u32) = length chain"
    by (intro unat_of_nat_less) simp
  from blockPushed_cases [OF d'] show "ud_inv c n s'"
    using inv len u by (auto simp: ud_inv_def s s')
  from blockPushed_cases [OF d'] show "pop_version c v s' = Some s"
    using inv len u height_defined [OF len]
    by (auto simp: ud_inv_def pop_version_def blockPopped_def s s')
qed

interpretation version_undo: undo_stack "ud_inv c" "push_version c" "pop_version c" for c
  by unfold_locales (blast intro: push_version_laws)+

section \<open>Votes\<close>


lemma ceil_div_le_iff: "(n + 99) div 100 \<le> v \<longleftrightarrow> n \<le> 100 * (v :: nat)"
  by auto

lemma minNumberVotingBlocks_exact:
  assumes "unat (m_upgradeVotingWindow c) * unat (m_upgradeVotingThreshold c) + 99 < 2 ^ 32"
  shows "unat (minNumberVotingBlocks c)
    = (unat (m_upgradeVotingWindow c) * unat (m_upgradeVotingThreshold c) + 99) div 100"
proof -
  have m: "unat (m_upgradeVotingWindow c * m_upgradeVotingThreshold c)
      = unat (m_upgradeVotingWindow c) * unat (m_upgradeVotingThreshold c)"
    by (rule unat_mult_exact) (use assms in simp)
  then have "unat (m_upgradeVotingWindow c * m_upgradeVotingThreshold c + 99)
      = unat (m_upgradeVotingWindow c) * unat (m_upgradeVotingThreshold c) + 99"
    using unat_add_exact [of "m_upgradeVotingWindow c * m_upgradeVotingThreshold c" 99] assms by simp
  then show ?thesis by (simp add: minNumberVotingBlocks_def unat_div_nat)
qed

lemma getNumberOfVotes_window:
  assumes "unat h < length chain" and "length chain < 2 ^ 32" and "0 < unat (m_upgradeVotingWindow c)"
  shows "getNumberOfVotes c d chain h =
    (if Suc (unat h) < unat (m_upgradeVotingWindow c) then 0
     else length (filter (is_vote d)
       (take (unat (m_upgradeVotingWindow c)) (drop (Suc (unat h) - unat (m_upgradeVotingWindow c)) chain))))"
proof -
  define w where "w = m_upgradeVotingWindow c"
  have w1: "unat (w - 1) = unat w - 1"
    using unat_sub_exact [of 1 w] assms(3) by (simp add: w_def word_le_nat_alt)
  have h1: "unat (h + 1) = Suc (unat h)"
    using unat_add_exact [of h 1] assms(1,2) by simp
  have lt: "h < w - 1 \<longleftrightarrow> Suc (unat h) < unat w"
    using w1 assms(3) by (auto simp: word_less_nat_alt w_def)
  show ?thesis
  proof (cases "Suc (unat h) < unat w")
    case True
    then show ?thesis using lt by (simp add: getNumberOfVotes_def flip: w_def)
  next
    case False
    define k where "k = Suc (unat h) - unat w"
    have "w \<le> h + 1" using False h1 by (simp add: word_le_nat_alt)
    then have start: "unat (h + 1 - w) = k" using unat_sub_exact [of w "h + 1"] h1 by (simp add: k_def)
    have kw: "Suc (unat h) = k + unat w" using False by (simp add: k_def)
    have "length (filter (\<lambda>i. is_vote d (chain ! i)) [k..<k + unat w])
        = length (filter (is_vote d) (map ((!) chain) [k..<k + unat w]))"
      by (simp add: filter_map o_def)
    also have "map ((!) chain) [k..<k + unat w] = take (unat w) (drop k chain)"
      using kw assms(1) by (intro nth_equalityI) auto
    finally show ?thesis
      using False lt kw by (simp add: getNumberOfVotes_def start flip: w_def k_def)
  qed
qed

section \<open>Properties\<close>

text \<open>
  C36. For a version without a fixed upgrade height, voting is complete at a height exactly
  when at least \<open>minNumberVotingBlocks\<close> of the last voting-window blocks up to it have the previous
  major version and minor version 1; before a full window exists nobody has voted.
\<close>

theorem voting_rule:
  assumes "currency_undefined c d" and "1 < m_upgradeVotingWindow c"
    and "0 < m_upgradeVotingThreshold c" and "m_upgradeVotingThreshold c \<le> 100"
    and "unat (m_upgradeVotingWindow c) * unat (m_upgradeVotingThreshold c) + 99 < 2 ^ 32"
    and "unat height < length chain" and "length chain < 2 ^ 32"
  shows "isVotingComplete c d chain height = Some (unat (minNumberVotingBlocks c)
    \<le> (if Suc (unat height) < unat (m_upgradeVotingWindow c) then 0
       else length (filter (is_vote d) (take (unat (m_upgradeVotingWindow c))
         (drop (Suc (unat height) - unat (m_upgradeVotingWindow c)) chain)))))"
proof -
  have "0 < unat (m_upgradeVotingWindow c)" using assms(2) by (auto simp: word_less_nat_alt)
  then have votes: "getNumberOfVotes c d chain height = (if Suc (unat height) < unat (m_upgradeVotingWindow c) then 0
     else length (filter (is_vote d) (take (unat (m_upgradeVotingWindow c))
       (drop (Suc (unat height) - unat (m_upgradeVotingWindow c)) chain))))" (is "_ = ?v")
    by (rule getNumberOfVotes_window [OF assms(6,7)])
  have "unat (minNumberVotingBlocks c) \<le> ?v \<longleftrightarrow>
      unat (m_upgradeVotingThreshold c) * unat (m_upgradeVotingWindow c) \<le> 100 * ?v"
    unfolding minNumberVotingBlocks_exact [OF assms(5)] ceil_div_le_iff by (simp only: mult.commute)
  then show ?thesis using assms(1-4) votes by (simp only: isVotingComplete_def) simp
qed

theorem voting_rule_witness:
  "isVotingComplete (mainnet\<lparr>m_upgradeVotingWindow := 2\<rparr>) (UpgradeDetector_create 9)
      [(8, 0), (8, 1), (8, 1)] 2 = Some (2 \<le> length [(8 :: u8, 1 :: u8), (8, 1)])"
  using voting_rule [of "mainnet\<lparr>m_upgradeVotingWindow := 2\<rparr>" "UpgradeDetector_create 9" 2
      "[(8, 0), (8, 1), (8, 1)]"]
  by (simp add: currency_undefined_def upgradeHeight_def UNDEF_HEIGHT_def UpgradeDetector_create_def
      minNumberVotingBlocks_def is_vote_def previous_version_def)

text \<open>
  The detector follows a reorganisation: after any successful sequence of
  pushed blocks, popping them restores the detector to the state before, and no assertion of
  \<open>blockPopped\<close> fails on the way.
\<close>

theorem upgrade_detector_undo:
  assumes "length chain + length vs < 2 ^ 32 - 1"
    and "ud_votingCompleteHeight d \<noteq> UNDEF_HEIGHT \<longrightarrow>
      currency_undefined c d \<and> unat (ud_votingCompleteHeight d) < length chain"
    and "run_ops (push_version c) vs (chain, d) = Some s"
  shows "run_ops (pop_version c) (rev vs) s = Some (chain, d)"
proof -
  have "ud_inv c (length vs) (chain, d)" using assms(1,2) by (simp add: ud_inv_def)
  from version_undo.undo_all [OF this assms(3)] show ?thesis .
qed

theorem upgrade_detector_undo_witness:
  "run_ops (pop_version (mainnet\<lparr>m_upgradeVotingWindow := 2\<rparr>)) (rev [(8, 1), (8, 1)])
      ([(8, 0), (8, 1), (8, 1)], (UpgradeDetector_create 9)\<lparr>ud_votingCompleteHeight := 2\<rparr>)
    = Some ([(8, 0)], UpgradeDetector_create 9)"
proof -
  have "run_ops (push_version (mainnet\<lparr>m_upgradeVotingWindow := 2\<rparr>)) [(8, 1), (8, 1)]
      ([(8, 0)], UpgradeDetector_create 9)
    = Some ([(8, 0), (8, 1), (8, 1)], (UpgradeDetector_create 9)\<lparr>ud_votingCompleteHeight := 2\<rparr>)"
    by (simp add: push_version_def blockPushed_def currency_undefined_def upgradeHeight_def
        UNDEF_HEIGHT_def UpgradeDetector_create_def isVotingComplete_def getNumberOfVotes_def
        is_vote_def previous_version_def upt_conv_Cons)
  from upgrade_detector_undo [OF _ _ this] show ?thesis by (simp add: UpgradeDetector_create_def)
qed

end
