(* ===== verification/Binary_Serializer.thy ===== *)
theory Binary_Serializer
  imports Varint Bytes
begin

text \<open>
  The binary serializers: \<open>src/Serialization/BinaryInputStreamSerializer.cpp\<close>,
  \<open>BinaryOutputStreamSerializer.cpp\<close> and the containers of \<open>SerializationOverloads.h\<close>, over
  the memory and vector streams of \<open>src/Common\<close>. An input serializer reads a value off the
  front of a byte list and returns the rest; an output serializer returns the bytes it writes;
  a thrown exception is a left injection. Field names, which the binary format ignores, are left
  out. The contract of a pair of an output and an input serializer is the locale
  \<open>byte_codec\<close>: the reader accepts exactly the bytes of the writer, on exactly the values that
  are in bounds.
\<close>

datatype serialization_error =
    ReadError varint_error
  | ArraySizeTooBig
  | StringSizeTooBig
  | InvalidBlobSize
  | WrongValue
  | UnknownVariantTag
  | WrongTransactionVersion
  | WrongMajorVersion
  | UnexpectedSignatureSize
  | UnexpectedSignatures

type_synonym written = "serialization_error + u8 list"
type_synonym 'a read = "serialization_error + 'a \<times> u8 list"

text \<open>An exception thrown by a step ends the whole serialization.\<close>

definition then_read :: "'a read \<Rightarrow> ('a \<Rightarrow> u8 list \<Rightarrow> 'b read) \<Rightarrow> 'b read" where
  "then_read r k = (case r of Inl e \<Rightarrow> Inl e | Inr (x, rest) \<Rightarrow> k x rest)"

definition then_write :: "written \<Rightarrow> written \<Rightarrow> written" where
  "then_write a b =
    (case a of Inl e \<Rightarrow> Inl e
     | Inr xs \<Rightarrow> (case b of Inl e \<Rightarrow> Inl e | Inr ys \<Rightarrow> Inr (xs @ ys)))"

section \<open>Streams\<close>

text \<open>
  \<open>MemoryInputStream::readSome\<close>: the stream is the list of the bytes after \<open>position\<close>, and
  \<open>endOfStream\<close> is its emptiness. \<open>read\<close> of \<open>StreamTools.cpp\<close> loops over it.
\<close>

definition readSome :: "nat \<Rightarrow> u8 list \<Rightarrow> u8 list \<times> u8 list" where
  "readSome n stream = (let readSize = min n (length stream) in (take readSize stream, drop readSize stream))"

definition endOfStream :: "u8 list \<Rightarrow> bool" where
  "endOfStream stream \<longleftrightarrow> stream = []"

function read_bytes :: "nat \<Rightarrow> u8 list \<Rightarrow> u8 list read" where
  "read_bytes n stream =
    (if n = 0 then Inr ([], stream)
     else let (data, rest) = readSome n stream in
       if length data = 0 then Inl (ReadError ReadFailed)
       else case read_bytes (n - length data) rest of
           Inl e \<Rightarrow> Inl e
         | Inr (more, rest') \<Rightarrow> Inr (data @ more, rest'))"
  by pat_completeness auto
termination
  by (relation "measure fst") (auto simp: readSome_def Let_def)

declare read_bytes.simps [simp del]

text \<open>
  \<open>VectorOutputStream::writeSome\<close> takes everything it is given, so \<open>write\<close> appends the whole
  block to the output vector and the bytes written are the block.
\<close>

definition write_bytes :: "u8 list \<Rightarrow> written" where
  "write_bytes data = Inr data"

section \<open>Scalars, strings and binary blocks\<close>

definition in_uint :: "u8 list \<Rightarrow> 'a::len word read" where
  "in_uint stream = (case readVarint stream of Inl e \<Rightarrow> Inl (ReadError e) | Inr r \<Rightarrow> Inr r)"

definition out_uint :: "'a::len word \<Rightarrow> written" where
  "out_uint v = write_bytes (writeVarint (ucast v))"

definition in_bool :: "u8 list \<Rightarrow> bool read" where
  "in_bool stream = then_read (read_bytes 1 stream) (\<lambda>data rest. Inr (data \<noteq> [0], rest))"

definition out_bool :: "bool \<Rightarrow> written" where
  "out_bool v = write_bytes [if v then 1 else 0]"

definition max_serialized_size :: u64 where
  "max_serialized_size = 128 * 1024 * 1024"

definition in_beginArray :: "u8 list \<Rightarrow> nat read" where
  "in_beginArray stream =
    then_read (in_uint stream) (\<lambda>size_read rest.
      if max_serialized_size < (size_read :: u64) then Inl ArraySizeTooBig
      else Inr (unat size_read, rest))"

definition out_beginArray :: "nat \<Rightarrow> written" where
  "out_beginArray n = write_bytes (writeVarint (of_nat n))"

definition in_string :: "u8 list \<Rightarrow> u8 list read" where
  "in_string stream =
    then_read (in_uint stream) (\<lambda>size_read rest.
      if max_serialized_size < (size_read :: u64) then Inl StringSizeTooBig
      else if 0 < size_read then read_bytes (unat size_read) rest
      else Inr ([], rest))"

definition out_string :: "u8 list \<Rightarrow> written" where
  "out_string s = then_write (write_bytes (writeVarint (of_nat (length s)))) (write_bytes s)"

text \<open>\<open>binary(&v, sizeof(v), name)\<close> on a plain-data value: \<open>serializePod\<close>.\<close>

definition in_pod :: "u8 list \<Rightarrow> 'a::len word read" where
  "in_pod stream =
    then_read (read_bytes (LENGTH('a) div 8) stream) (\<lambda>data rest. Inr (pod_of_bytes data, rest))"

definition out_pod :: "'a::len word \<Rightarrow> written" where
  "out_pod v = write_bytes (pod_bytes v)"

section \<open>Containers\<close>

text \<open>\<open>serializeAsBinary\<close> of a vector of plain data: the elements as one size-prefixed blob.\<close>

fun chunks :: "nat \<Rightarrow> nat \<Rightarrow> u8 list \<Rightarrow> u8 list list" where
  "chunks 0 w blob = []"
| "chunks (Suc n) w blob = take w blob # chunks n w (drop w blob)"

definition in_asBinary :: "u8 list \<Rightarrow> 'a::len word list read" where
  "in_asBinary stream =
    then_read (in_string stream) (\<lambda>blob rest.
      let sizeof = LENGTH('a) div 8 in
      if length blob mod sizeof \<noteq> 0 then Inl InvalidBlobSize
      else Inr (map pod_of_bytes (chunks (length blob div sizeof) sizeof blob), rest))"

definition out_asBinary :: "'a::len word list \<Rightarrow> written" where
  "out_asBinary v = out_string (if v \<noteq> [] then concat (map pod_bytes v) else [])"

text \<open>\<open>serializeContainer\<close>, with the serializers of the elements as arguments.\<close>

fun in_items :: "(u8 list \<Rightarrow> 'a read) \<Rightarrow> nat \<Rightarrow> u8 list \<Rightarrow> 'a list read" where
  "in_items dec 0 stream = Inr ([], stream)"
| "in_items dec (Suc n) stream =
    then_read (dec stream) (\<lambda>x rest.
      then_read (in_items dec n rest) (\<lambda>xs rest'. Inr (x # xs, rest')))"

fun out_items :: "('a \<Rightarrow> written) \<Rightarrow> 'a list \<Rightarrow> written" where
  "out_items enc [] = Inr []"
| "out_items enc (x # xs) = then_write (enc x) (out_items enc xs)"

definition in_container :: "(u8 list \<Rightarrow> 'a read) \<Rightarrow> u8 list \<Rightarrow> 'a list read" where
  "in_container dec stream = then_read (in_beginArray stream) (\<lambda>n rest. in_items dec n rest)"

definition out_container :: "('a \<Rightarrow> written) \<Rightarrow> 'a list \<Rightarrow> written" where
  "out_container enc xs = then_write (out_beginArray (length xs)) (out_items enc xs)"

text \<open>\<open>serialize\<close> of a pair, also the key and value of a map entry.\<close>

definition in_pair :: "(u8 list \<Rightarrow> 'a read) \<Rightarrow> (u8 list \<Rightarrow> 'b read) \<Rightarrow> u8 list \<Rightarrow> ('a \<times> 'b) read" where
  "in_pair dec_a dec_b stream =
    then_read (dec_a stream) (\<lambda>a rest. then_read (dec_b rest) (\<lambda>b rest'. Inr ((a, b), rest')))"

definition out_pair :: "('a \<Rightarrow> written) \<Rightarrow> ('b \<Rightarrow> written) \<Rightarrow> 'a \<times> 'b \<Rightarrow> written" where
  "out_pair enc_a enc_b p = then_write (enc_a (fst p)) (enc_b (snd p))"

text \<open>
  \<open>serializeMap\<close>: on output the entries in the iteration order of the container, on input
  successive \<open>insert\<close> calls, which keep the value of a key already present. The result is the map
  the container holds.
\<close>

fun insert_all :: "('k \<times> 'v) list \<Rightarrow> ('k \<rightharpoonup> 'v) \<Rightarrow> ('k \<rightharpoonup> 'v)" where
  "insert_all [] m = m"
| "insert_all ((k, v) # kvs) m = insert_all kvs (if m k = None then m(k \<mapsto> v) else m)"

definition in_map ::
    "(u8 list \<Rightarrow> 'k read) \<Rightarrow> (u8 list \<Rightarrow> 'v read) \<Rightarrow> u8 list \<Rightarrow> ('k \<rightharpoonup> 'v) read" where
  "in_map dec_k dec_v stream =
    then_read (in_beginArray stream) (\<lambda>n rest.
      then_read (in_items (in_pair dec_k dec_v) n rest) (\<lambda>kvs rest'. Inr (insert_all kvs Map.empty, rest')))"

definition out_map :: "('k \<Rightarrow> written) \<Rightarrow> ('v \<Rightarrow> written) \<Rightarrow> ('k \<times> 'v) list \<Rightarrow> written" where
  "out_map enc_k enc_v kvs = then_write (out_beginArray (length kvs)) (out_items (out_pair enc_k enc_v) kvs)"

text \<open>\<open>serializeSet\<close>.\<close>

definition in_set_of :: "(u8 list \<Rightarrow> 'a read) \<Rightarrow> u8 list \<Rightarrow> 'a set read" where
  "in_set_of dec stream =
    then_read (in_beginArray stream) (\<lambda>n rest.
      then_read (in_items dec n rest) (\<lambda>xs rest'. Inr (set xs, rest')))"

definition out_set_of :: "('a \<Rightarrow> written) \<Rightarrow> 'a list \<Rightarrow> written" where
  "out_set_of enc xs = then_write (out_beginArray (length xs)) (out_items enc xs)"

text \<open>\<open>serializeBlockHeight\<close>: written at 32 bits, read at 64 with the old end marker mapped.\<close>

definition in_blockHeight :: "u8 list \<Rightarrow> u32 read" where
  "in_blockHeight stream =
    then_read (in_uint stream) (\<lambda>height rest.
      if (height :: u64) = 0xffffffffffffffff then Inr (0xffffffff, rest)
      else if 0xffffffff < height \<and> height < 0xffffffffffffffff then Inl WrongValue
      else Inr (ucast height, rest))"

definition out_blockHeight :: "u32 \<Rightarrow> written" where
  "out_blockHeight blockHeight = out_uint blockHeight"

section \<open>Sequencing\<close>

lemma then_read_Inr [simp]: "then_read (Inr (x, rest)) k = k x rest"
  by (simp add: then_read_def)

lemma then_read_Inl [simp]: "then_read (Inl e) k = Inl e"
  by (simp add: then_read_def)

lemma then_read_eq_Inr:
  "then_read r k = Inr z \<longleftrightarrow> (\<exists>x rest. r = Inr (x, rest) \<and> k x rest = Inr z)"
  by (auto simp: then_read_def split: sum.splits)

lemma then_write_Inr [simp]: "then_write (Inr xs) (Inr ys) = Inr (xs @ ys)"
  by (simp add: then_write_def)

lemma then_write_Inl [simp]: "then_write (Inl e) b = Inl e" "then_write (Inr xs) (Inl e) = Inl e"
  by (simp_all add: then_write_def)

lemma then_write_eq_Inr:
  "then_write a b = Inr bs \<longleftrightarrow> (\<exists>xs ys. a = Inr xs \<and> b = Inr ys \<and> bs = xs @ ys)"
  by (auto simp: then_write_def split: sum.splits)

lemmas serial_iff = then_read_eq_Inr then_write_eq_Inr

lemma read_bytes_short: "length stream < n \<Longrightarrow> read_bytes n stream = Inl (ReadError ReadFailed)"
proof (induction n stream rule: read_bytes.induct)
  case (1 n stream)
  then show ?case
    by (subst read_bytes.simps) (auto simp: readSome_def Let_def read_bytes.simps)
qed

lemma read_bytes_eq:
  "read_bytes n stream =
    (if n \<le> length stream then Inr (take n stream, drop n stream) else Inl (ReadError ReadFailed))"
proof (cases "n \<le> length stream")
  case True
  then have "read_bytes 0 (drop n stream) = Inr ([], drop n stream)"
    by (simp add: read_bytes.simps)
  with True show ?thesis by (subst read_bytes.simps) (auto simp: readSome_def)
next
  case False
  then show ?thesis by (simp add: read_bytes_short)
qed

lemma read_bytes_eq_Inr:
  "read_bytes n stream = Inr (data, rest) \<longleftrightarrow> length data = n \<and> stream = data @ rest"
  by (auto simp: read_bytes_eq)

lemma in_uint_eq_Inr:
  assumes "8 \<le> LENGTH('a::len)" and "LENGTH('a) \<le> 64"
  shows "in_uint stream = Inr (v :: 'a word, rest) \<longleftrightarrow> stream = writeVarint (ucast v) @ rest"
proof -
  have "unat (ucast v :: u64) = unat v"
    using less_le_trans [OF unat_le_max [of v] power_increasing [OF assms(2)]]
    by (simp add: unat_ucast_nat)
  then have "stream = writeVarint (ucast v) @ rest \<longleftrightarrow> readVarint stream = Inr (v, rest)"
    using assms(1) by (simp add: readVarint_iff writeVarint_eq)
  then show ?thesis by (simp add: in_uint_def split: sum.splits)
qed

lemma unat_size_bound: "n \<le> 134217728 \<Longrightarrow> unat (of_nat n :: u64) = n"
  by (rule unat_of_nat_less) simp

lemma size_ok_iff: "\<not> max_serialized_size < (v :: u64) \<longleftrightarrow> unat v \<le> 134217728"
  by (simp add: max_serialized_size_def word_less_nat_alt not_less)

lemma in_beginArray_eq_Inr:
  "in_beginArray stream = Inr (n, rest)
    \<longleftrightarrow> n \<le> 134217728 \<and> stream = writeVarint (of_nat n) @ rest"
proof
  assume "in_beginArray stream = Inr (n, rest)"
  then show "n \<le> 134217728 \<and> stream = writeVarint (of_nat n) @ rest"
    by (auto simp: in_beginArray_def serial_iff in_uint_eq_Inr size_ok_iff split: if_splits)
next
  assume a: "n \<le> 134217728 \<and> stream = writeVarint (of_nat n) @ rest"
  then have "in_uint stream = Inr (of_nat n :: u64, rest)" by (simp add: in_uint_eq_Inr)
  with a show "in_beginArray stream = Inr (n, rest)"
    by (simp add: in_beginArray_def size_ok_iff unat_size_bound)
qed

lemma in_string_alt:
  "in_string stream = then_read (in_uint stream) (\<lambda>v rest.
      if max_serialized_size < (v :: u64) then Inl StringSizeTooBig else read_bytes (unat v) rest)"
  unfolding in_string_def
  by (rule arg_cong [where f = "then_read (in_uint stream)"])
    (auto simp: fun_eq_iff word_gt_0 read_bytes_eq)

lemma in_string_eq_Inr:
  "in_string stream = Inr (s, rest)
    \<longleftrightarrow> length s \<le> 134217728 \<and> out_string s = Inr (writeVarint (of_nat (length s)) @ s)
      \<and> stream = writeVarint (of_nat (length s)) @ s @ rest"
proof -
  have "in_string stream = Inr (s, rest)
      \<longleftrightarrow> (\<exists>n rest'. in_beginArray stream = Inr (n, rest') \<and> read_bytes n rest' = Inr (s, rest))"
    unfolding in_string_alt by (auto simp: in_beginArray_def serial_iff split: if_splits)
  then show ?thesis
    by (auto simp: in_beginArray_eq_Inr read_bytes_eq_Inr out_string_def write_bytes_def)
qed

lemma items_written: "(\<And>x. x \<in> set xs \<Longrightarrow> \<exists>bs. enc x = Inr bs) \<Longrightarrow> \<exists>bs. out_items enc xs = Inr bs"
proof (induction xs)
  case (Cons x xs)
  obtain a where "enc x = Inr a" using Cons.prems [of x] by auto
  moreover obtain b where "out_items enc xs = Inr b" using Cons by auto
  ultimately show ?case by simp
qed simp

lemma container_written:
  "(\<And>x. x \<in> set xs \<Longrightarrow> \<exists>bs. enc x = Inr bs) \<Longrightarrow> \<exists>bs. out_container enc xs = Inr bs"
  using items_written [of xs enc] by (auto simp: out_container_def out_beginArray_def write_bytes_def)

section \<open>Contracts\<close>

text \<open>
  What the users of a pair of serializers rely on: the reader succeeds exactly on the bytes the
  writer produces for a value in bounds, whatever follows them, and the writer does not throw on
  such a value.
\<close>

locale byte_codec =
  fixes enc :: "'a \<Rightarrow> written"
    and dec :: "u8 list \<Rightarrow> 'a read"
    and ok :: "'a \<Rightarrow> bool"
  assumes dec_iff: "dec stream = Inr (x, rest) \<longleftrightarrow> ok x \<and> (\<exists>bs. enc x = Inr bs \<and> stream = bs @ rest)"
    and enc_ok: "ok x \<Longrightarrow> \<exists>bs. enc x = Inr bs"
begin

lemma round_trip:
  assumes "ok x" obtains bs where "enc x = Inr bs" and "\<And>rest. dec (bs @ rest) = Inr (x, rest)"
  using enc_ok [OF assms] assms dec_iff by blast

lemma prefix_free:
  assumes "ok x" and "enc x = Inr bs" and "enc y = Inr bs'" and "ok y" and "bs @ rest = bs' @ rest'"
  shows "x = y \<and> rest = rest'"
proof -
  have "dec (bs @ rest) = Inr (x, rest)" using assms(1, 2) dec_iff by blast
  moreover have "dec (bs @ rest) = Inr (y, rest')" using assms(3, 4, 5) dec_iff by metis
  ultimately show ?thesis by simp
qed

lemma injective: "ok x \<Longrightarrow> ok y \<Longrightarrow> enc x = enc y \<Longrightarrow> x = y"
  by (metis enc_ok prefix_free)

lemma items_iff:
  "in_items dec n stream = Inr (xs, rest)
    \<longleftrightarrow> length xs = n \<and> list_all ok xs \<and> (\<exists>bs. out_items enc xs = Inr bs \<and> stream = bs @ rest)"
proof (induction n arbitrary: stream xs)
  case (Suc n)
  show ?case
  proof (cases xs)
    case (Cons y ys)
    then show ?thesis by (auto simp: serial_iff Suc.IH dec_iff)
  qed (auto simp: serial_iff)
qed auto

lemma items_ok: "list_all ok xs \<Longrightarrow> \<exists>bs. out_items enc xs = Inr bs"
  by (rule items_written) (simp add: enc_ok list_all_iff)

lemma container_codec:
  "byte_codec (out_container enc) (in_container dec) (\<lambda>xs. length xs \<le> 134217728 \<and> list_all ok xs)"
proof
  fix stream xs rest
  show "in_container dec stream = Inr (xs, rest)
      \<longleftrightarrow> (length xs \<le> 134217728 \<and> list_all ok xs)
        \<and> (\<exists>bs. out_container enc xs = Inr bs \<and> stream = bs @ rest)"
    by (auto simp: in_container_def out_container_def serial_iff in_beginArray_eq_Inr items_iff
        out_beginArray_def write_bytes_def)
next
  fix xs :: "'a list" assume "length xs \<le> 134217728 \<and> list_all ok xs"
  then show "\<exists>bs. out_container enc xs = Inr bs"
    using items_ok [of xs] by (auto simp: out_container_def out_beginArray_def write_bytes_def)
qed

end

section \<open>The codecs of the scalars\<close>

lemma uint_codec:
  assumes "8 \<le> LENGTH('a::len)" and "LENGTH('a) \<le> 64"
  shows "byte_codec out_uint (in_uint :: u8 list \<Rightarrow> 'a word read) (\<lambda>_. True)"
  using assms by unfold_locales (auto simp: in_uint_eq_Inr out_uint_def write_bytes_def)

interpretation u8_codec: byte_codec out_uint in_uint "\<lambda>_ :: u8. True"
  by (rule uint_codec) simp_all

interpretation u32_codec: byte_codec out_uint in_uint "\<lambda>_ :: u32. True"
  by (rule uint_codec) simp_all

interpretation u64_codec: byte_codec out_uint in_uint "\<lambda>_ :: u64. True"
  by (rule uint_codec) simp_all

lemma pod_codec:
  assumes "8 dvd LENGTH('a::len)"
  shows "byte_codec out_pod (in_pod :: u8 list \<Rightarrow> 'a word read) (\<lambda>_. True)"
proof
  fix stream rest :: "u8 list" and v :: "'a word"
  have "(\<exists>data. length data = LENGTH('a) div 8 \<and> stream = data @ rest \<and> pod_of_bytes data = v)
      \<longleftrightarrow> stream = pod_bytes v @ rest"
    (is "?L \<longleftrightarrow> ?R")
  proof
    assume ?L
    then obtain data where "length data = LENGTH('a) div 8" "stream = data @ rest" "v = pod_of_bytes data"
      by blast
    then show ?R using pod_bytes_of_bytes [OF _ assms, of data] by simp
  next
    assume ?R
    then show ?L using pod_of_pod_bytes [OF assms, of v] length_pod_bytes [of v] by blast
  qed
  then show "in_pod stream = Inr (v, rest)
      \<longleftrightarrow> True \<and> (\<exists>bs. out_pod v = Inr bs \<and> stream = bs @ rest)"
    by (auto simp: in_pod_def serial_iff read_bytes_eq_Inr out_pod_def write_bytes_def)
qed (simp add: out_pod_def write_bytes_def)

interpretation tag_codec: byte_codec out_pod in_pod "\<lambda>_ :: u8. True"
  by (rule pod_codec) simp

interpretation nonce_codec: byte_codec out_pod in_pod "\<lambda>_ :: u32. True"
  by (rule pod_codec) simp

interpretation hash_codec: byte_codec out_pod in_pod "\<lambda>_ :: Hash. True"
  by (rule pod_codec) simp

interpretation signature_codec: byte_codec out_pod in_pod "\<lambda>_ :: Signature. True"
  by (rule pod_codec) simp

interpretation string_codec: byte_codec out_string in_string "\<lambda>s. length s \<le> 134217728"
  by unfold_locales (auto simp: in_string_eq_Inr, auto simp: out_string_def write_bytes_def)

text \<open>The vectors of hashes, keys and output offsets.\<close>

interpretation hashes_codec: byte_codec "out_container out_pod" "in_container in_pod"
    "\<lambda>xs :: Hash list. length xs \<le> 134217728"
  using hash_codec.container_codec by (simp add: list_all_iff)

interpretation indexes_codec: byte_codec "out_container out_uint" "in_container in_uint"
    "\<lambda>xs :: u32 list. length xs \<le> 134217728"
  using u32_codec.container_codec by (simp add: list_all_iff)

lemma concat_single_bytes [simp]: "concat (map pod_bytes (v :: u8 list)) = v"
proof -
  have "pod_bytes b = [b]" for b :: u8
    by (simp add: pod_bytes_def unat_le_max8)
  then show ?thesis by (induction v) simp_all
qed

lemma chunks_one: "length blob = n \<Longrightarrow> chunks n 1 blob = map (\<lambda>b. [b]) blob"
  by (induction n arbitrary: blob) (auto simp: length_Suc_conv)

interpretation extra_codec: byte_codec out_asBinary in_asBinary "\<lambda>v :: u8 list. length v \<le> 134217728"
proof -
  have "map pod_of_bytes (chunks (length blob) (Suc 0) blob) = blob" for blob :: "u8 list"
    using chunks_one [of blob] by (simp add: comp_def pod_of_bytes_def)
  then have "(in_asBinary stream :: u8 list read) = in_string stream" for stream
    by (auto simp: in_asBinary_def then_read_def split: sum.splits)
  moreover have "out_asBinary v = out_string v" for v :: "u8 list"
    by (simp add: out_asBinary_def)
  ultimately show "byte_codec out_asBinary in_asBinary (\<lambda>v :: u8 list. length v \<le> 134217728)"
    using string_codec.byte_codec_axioms by (simp add: fun_eq_iff byte_codec_def)
qed

section \<open>Pairs, maps and sets\<close>

lemma insert_all_eq: "insert_all kvs m k = (case m k of Some v \<Rightarrow> Some v | None \<Rightarrow> map_of kvs k)"
  by (induction kvs m rule: insert_all.induct) (auto split: option.splits)

lemma insert_all_empty: "insert_all kvs Map.empty = map_of kvs"
  by (simp add: insert_all_eq fun_eq_iff)

locale codec_pair = key: byte_codec enc_k dec_k ok_k + val: byte_codec enc_v dec_v ok_v
  for enc_k :: "'k \<Rightarrow> written" and dec_k and ok_k and enc_v :: "'v \<Rightarrow> written" and dec_v and ok_v
begin

lemma pair_codec:
  "byte_codec (out_pair enc_k enc_v) (in_pair dec_k dec_v) (\<lambda>(k, v). ok_k k \<and> ok_v v)"
proof
  fix stream p rest
  show "in_pair dec_k dec_v stream = Inr (p, rest)
      \<longleftrightarrow> (case p of (k, v) \<Rightarrow> ok_k k \<and> ok_v v)
        \<and> (\<exists>bs. out_pair enc_k enc_v p = Inr bs \<and> stream = bs @ rest)"
    by (cases p) (auto simp: in_pair_def out_pair_def serial_iff key.dec_iff val.dec_iff)
next
  fix p assume "case p of (k, v) \<Rightarrow> ok_k k \<and> ok_v v"
  then obtain a b where "enc_k (fst p) = Inr a" and "enc_v (snd p) = Inr b"
    using key.enc_ok [of "fst p"] val.enc_ok [of "snd p"] by (auto split: prod.splits)
  then show "\<exists>bs. out_pair enc_k enc_v p = Inr bs" by (simp add: out_pair_def)
qed

lemma map_round_trip:
  assumes "length kvs \<le> 134217728" and "list_all (\<lambda>(k, v). ok_k k \<and> ok_v v) kvs"
    and "out_map enc_k enc_v kvs = Inr bs"
  shows "in_map dec_k dec_v (bs @ rest) = Inr (map_of kvs, rest)"
proof -
  obtain bs' where bs': "out_items (out_pair enc_k enc_v) kvs = Inr bs'"
      and bs: "bs = writeVarint (of_nat (length kvs)) @ bs'"
    using assms(3) by (auto simp: out_map_def serial_iff out_beginArray_def write_bytes_def)
  have "in_items (in_pair dec_k dec_v) (length kvs) (bs' @ rest) = Inr (kvs, rest)"
    using byte_codec.items_iff [OF pair_codec] bs' assms(2) by blast
  moreover have "in_beginArray (bs @ rest) = Inr (length kvs, bs' @ rest)"
    using assms(1) by (simp add: in_beginArray_eq_Inr bs)
  ultimately show ?thesis by (simp add: in_map_def insert_all_empty)
qed

end

text \<open>The container of a transaction counter per block height is serialized this way.\<close>

interpretation height_count: codec_pair out_uint in_uint "\<lambda>_ :: u32. True" out_uint in_uint "\<lambda>_ :: u64. True"
  by unfold_locales

lemma block_height_round_trip:
  "out_blockHeight h = Inr bs \<Longrightarrow> in_blockHeight (bs @ rest) = Inr (h, rest)"
proof -
  assume "out_blockHeight h = Inr bs"
  then have bs: "bs = writeVarint (ucast h)"
    by (simp add: out_blockHeight_def out_uint_def write_bytes_def)
  define h64 :: u64 where "h64 = ucast h"
  have u: "unat h64 = unat h" using unat_le_max [of h] by (simp add: h64_def unat_ucast_nat)
  have "in_uint (bs @ rest) = Inr (h64, rest)" by (simp add: bs in_uint_eq_Inr h64_def)
  moreover have "h64 \<noteq> 0xffffffffffffffff" using unat_le_max [of h] u by auto
  moreover have "\<not> 0xffffffff < h64" using unat_le_max [of h] u by (simp add: word_less_nat_alt)
  moreover have "ucast h64 = h" by (rule unat_eqI) (use u unat_le_max [of h] in \<open>simp add: unat_ucast_nat\<close>)
  ultimately show ?thesis by (simp add: in_blockHeight_def)
qed

end
