(* ===== verification/CryptoNote_Serialization.thy ===== *)
theory CryptoNote_Serialization
  imports Binary_Serializer CryptoNote_Types
begin

text \<open>
  The binary form of transactions and blocks: \<open>src/CryptoNoteCore/CryptoNoteSerialization.cpp\<close>
  over the binary serializers, and the conversions of \<open>src/CryptoNoteCore/CryptoNoteTools.h\<close>.
  Each \<open>serialize\<close> function, which the source runs in both directions, is a pair of an
  \<open>out_\<close> and an \<open>in_\<close> definition. The hash function \<open>cn_fast_hash\<close> is an argument.
\<close>

definition TRANSACTION_VERSION_1 :: u8 where "TRANSACTION_VERSION_1 = 1"
definition TRANSACTION_VERSION_2 :: u8 where "TRANSACTION_VERSION_2 = 2"
definition BLOCK_MAJOR_VERSION_8 :: u8 where "BLOCK_MAJOR_VERSION_8 = 8"

definition getSignaturesCount :: "TransactionInput \<Rightarrow> nat" where
  "getSignaturesCount input = (case input of
      InBase _ \<Rightarrow> 0
    | InKey txin \<Rightarrow> length (ki_outputIndexes txin)
    | InMultisig txin \<Rightarrow> unat (mi_signatureCount txin))"

definition input_tag :: "TransactionInput \<Rightarrow> u8" where
  "input_tag input = (case input of InBase _ \<Rightarrow> 0xff | InKey _ \<Rightarrow> 0x2 | InMultisig _ \<Rightarrow> 0x3)"

definition target_tag :: "TransactionOutputTarget \<Rightarrow> u8" where
  "target_tag target = (case target of OutKey _ \<Rightarrow> 0x2 | OutMultisig _ \<Rightarrow> 0x3)"

section \<open>Inputs\<close>

text \<open>\<open>serializeVarintVector\<close> reads and writes the same bytes as \<open>serializeContainer\<close>.\<close>

definition out_varintVector :: "u32 list \<Rightarrow> written" where
  "out_varintVector v = then_write (out_beginArray (length v)) (out_items out_uint v)"

definition in_varintVector :: "u8 list \<Rightarrow> u32 list read" where
  "in_varintVector stream = then_read (in_beginArray stream) (\<lambda>n rest. in_items in_uint n rest)"

definition out_BaseInput :: "BaseInput \<Rightarrow> written" where
  "out_BaseInput gen = out_uint (bi_blockIndex gen)"

definition in_BaseInput :: "u8 list \<Rightarrow> BaseInput read" where
  "in_BaseInput stream =
    then_read (in_uint stream) (\<lambda>blockIndex rest. Inr (\<lparr>bi_blockIndex = blockIndex\<rparr>, rest))"

definition out_KeyInput :: "KeyInput \<Rightarrow> written" where
  "out_KeyInput key =
    then_write (out_uint (ki_amount key))
      (then_write (out_varintVector (ki_outputIndexes key)) (out_pod (ki_keyImage key)))"

definition in_KeyInput :: "u8 list \<Rightarrow> KeyInput read" where
  "in_KeyInput stream =
    then_read (in_uint stream) (\<lambda>amount rest.
    then_read (in_varintVector rest) (\<lambda>outputIndexes rest.
    then_read (in_pod rest) (\<lambda>keyImage rest.
      Inr (\<lparr>ki_amount = amount, ki_outputIndexes = outputIndexes, ki_keyImage = keyImage\<rparr>, rest))))"

definition out_MultisignatureInput :: "MultisignatureInput \<Rightarrow> written" where
  "out_MultisignatureInput multisignature =
    then_write (out_uint (mi_amount multisignature))
      (then_write (out_uint (mi_signatureCount multisignature))
        (then_write (out_uint (mi_outputIndex multisignature)) (out_uint (mi_term multisignature))))"

definition in_MultisignatureInput :: "u8 list \<Rightarrow> MultisignatureInput read" where
  "in_MultisignatureInput stream =
    then_read (in_uint stream) (\<lambda>amount rest.
    then_read (in_uint rest) (\<lambda>signatureCount rest.
    then_read (in_uint rest) (\<lambda>outputIndex rest.
    then_read (in_uint rest) (\<lambda>term rest.
      Inr (\<lparr>mi_amount = amount, mi_signatureCount = signatureCount, mi_outputIndex = outputIndex,
        mi_term = term\<rparr>, rest)))))"

definition out_TransactionInput :: "TransactionInput \<Rightarrow> written" where
  "out_TransactionInput input =
    then_write (out_pod (input_tag input))
      (case input of InBase v \<Rightarrow> out_BaseInput v | InKey v \<Rightarrow> out_KeyInput v
       | InMultisig v \<Rightarrow> out_MultisignatureInput v)"

definition in_TransactionInput :: "u8 list \<Rightarrow> TransactionInput read" where
  "in_TransactionInput stream =
    then_read (in_pod stream) (\<lambda>tag rest.
      if (tag :: u8) = 0xff then then_read (in_BaseInput rest) (\<lambda>v rest. Inr (InBase v, rest))
      else if tag = 0x2 then then_read (in_KeyInput rest) (\<lambda>v rest. Inr (InKey v, rest))
      else if tag = 0x3 then then_read (in_MultisignatureInput rest) (\<lambda>v rest. Inr (InMultisig v, rest))
      else Inl UnknownVariantTag)"

section \<open>Outputs\<close>

definition out_KeyOutput :: "KeyOutput \<Rightarrow> written" where
  "out_KeyOutput key = out_pod (ko_key key)"

definition in_KeyOutput :: "u8 list \<Rightarrow> KeyOutput read" where
  "in_KeyOutput stream = then_read (in_pod stream) (\<lambda>key rest. Inr (\<lparr>ko_key = key\<rparr>, rest))"

definition out_MultisignatureOutput :: "MultisignatureOutput \<Rightarrow> written" where
  "out_MultisignatureOutput multisignature =
    then_write (out_container out_pod (mo_keys multisignature))
      (then_write (out_uint (mo_requiredSignatureCount multisignature)) (out_uint (mo_term multisignature)))"

definition in_MultisignatureOutput :: "u8 list \<Rightarrow> MultisignatureOutput read" where
  "in_MultisignatureOutput stream =
    then_read (in_container in_pod stream) (\<lambda>keys rest.
    then_read (in_uint rest) (\<lambda>requiredSignatureCount rest.
    then_read (in_uint rest) (\<lambda>term rest.
      Inr (\<lparr>mo_keys = keys, mo_requiredSignatureCount = requiredSignatureCount, mo_term = term\<rparr>, rest))))"

definition out_TransactionOutputTarget :: "TransactionOutputTarget \<Rightarrow> written" where
  "out_TransactionOutputTarget target =
    then_write (out_pod (target_tag target))
      (case target of OutKey v \<Rightarrow> out_KeyOutput v | OutMultisig v \<Rightarrow> out_MultisignatureOutput v)"

definition in_TransactionOutputTarget :: "u8 list \<Rightarrow> TransactionOutputTarget read" where
  "in_TransactionOutputTarget stream =
    then_read (in_pod stream) (\<lambda>tag rest.
      if (tag :: u8) = 0x2 then then_read (in_KeyOutput rest) (\<lambda>v rest. Inr (OutKey v, rest))
      else if tag = 0x3 then then_read (in_MultisignatureOutput rest) (\<lambda>v rest. Inr (OutMultisig v, rest))
      else Inl UnknownVariantTag)"

definition out_TransactionOutput :: "TransactionOutput \<Rightarrow> written" where
  "out_TransactionOutput output =
    then_write (out_uint (to_amount output)) (out_TransactionOutputTarget (to_target output))"

definition in_TransactionOutput :: "u8 list \<Rightarrow> TransactionOutput read" where
  "in_TransactionOutput stream =
    then_read (in_uint stream) (\<lambda>amount rest.
    then_read (in_TransactionOutputTarget rest) (\<lambda>target rest.
      Inr (\<lparr>to_amount = amount, to_target = target\<rparr>, rest)))"

section \<open>Transactions\<close>

definition out_TransactionPrefix :: "'a TransactionPrefix_scheme \<Rightarrow> written" where
  "out_TransactionPrefix txP =
    then_write (out_uint (tp_version txP))
      (if TRANSACTION_VERSION_2 < tp_version txP then Inl WrongTransactionVersion
       else then_write (out_uint (tp_unlockTime txP))
         (then_write (out_container out_TransactionInput (tp_inputs txP))
           (then_write (out_container out_TransactionOutput (tp_outputs txP))
             (out_asBinary (tp_extra txP)))))"

definition in_TransactionPrefix :: "u8 list \<Rightarrow> TransactionPrefix read" where
  "in_TransactionPrefix stream =
    then_read (in_uint stream) (\<lambda>version rest.
      if TRANSACTION_VERSION_2 < version then Inl WrongTransactionVersion
      else
        then_read (in_uint rest) (\<lambda>unlockTime rest.
        then_read (in_container in_TransactionInput rest) (\<lambda>inputs rest.
        then_read (in_container in_TransactionOutput rest) (\<lambda>outputs rest.
        then_read (in_asBinary rest) (\<lambda>extra rest.
          Inr (\<lparr>tp_version = version, tp_unlockTime = unlockTime, tp_inputs = inputs,
            tp_outputs = outputs, tp_extra = extra\<rparr>, rest))))))"

text \<open>
  The loop over the inputs in \<open>serialize(Transaction&)\<close>, on output and on input. The source
  indexes the signatures in step with the inputs.
\<close>

fun out_unsigned :: "TransactionInput list \<Rightarrow> written" where
  "out_unsigned [] = Inr []"
| "out_unsigned (i # is) =
    (if getSignaturesCount i = 0 then out_unsigned is else Inl UnexpectedSignatures)"

fun out_signed :: "TransactionInput list \<Rightarrow> Signature list list \<Rightarrow> written" where
  "out_signed (i # is) (sigs # rest) =
    (if getSignaturesCount i \<noteq> length sigs then Inl UnexpectedSignatureSize
     else then_write (out_items out_pod sigs) (out_signed is rest))"
| "out_signed _ _ = Inr []"

fun in_signatures :: "TransactionInput list \<Rightarrow> u8 list \<Rightarrow> Signature list list read" where
  "in_signatures [] stream = Inr ([], stream)"
| "in_signatures (i # is) stream =
    then_read (in_items in_pod (getSignaturesCount i) stream) (\<lambda>sigs rest.
    then_read (in_signatures is rest) (\<lambda>more rest'. Inr (sigs # more, rest')))"

definition out_Transaction :: "Transaction \<Rightarrow> written" where
  "out_Transaction tx =
    then_write (out_TransactionPrefix tx)
      (let signaturesNotExpected = tx_signatures tx = [] in
       if \<not> signaturesNotExpected \<and> length (tp_inputs tx) \<noteq> length (tx_signatures tx)
       then Inl UnexpectedSignatureSize
       else if signaturesNotExpected then out_unsigned (tp_inputs tx)
       else out_signed (tp_inputs tx) (tx_signatures tx))"

definition in_Transaction :: "u8 list \<Rightarrow> Transaction read" where
  "in_Transaction stream =
    then_read (in_TransactionPrefix stream) (\<lambda>p rest.
    then_read (in_signatures (tp_inputs p) rest) (\<lambda>signatures rest.
      Inr (\<lparr>tp_version = tp_version p, tp_unlockTime = tp_unlockTime p, tp_inputs = tp_inputs p,
        tp_outputs = tp_outputs p, tp_extra = tp_extra p, tx_signatures = signatures\<rparr>, rest)))"

section \<open>Blocks and addresses\<close>

definition out_BlockHeader :: "'a BlockHeader_scheme \<Rightarrow> written" where
  "out_BlockHeader header =
    then_write (out_uint (bh_majorVersion header))
      (if BLOCK_MAJOR_VERSION_8 < bh_majorVersion header then Inl WrongMajorVersion
       else then_write (out_uint (bh_minorVersion header))
         (then_write (out_uint (bh_timestamp header))
           (then_write (out_pod (bh_previousBlockHash header)) (out_pod (bh_nonce header)))))"

definition in_BlockHeader :: "u8 list \<Rightarrow> BlockHeader read" where
  "in_BlockHeader stream =
    then_read (in_uint stream) (\<lambda>majorVersion rest.
      if BLOCK_MAJOR_VERSION_8 < majorVersion then Inl WrongMajorVersion
      else
        then_read (in_uint rest) (\<lambda>minorVersion rest.
        then_read (in_uint rest) (\<lambda>timestamp rest.
        then_read (in_pod rest) (\<lambda>previousBlockHash rest.
        then_read (in_pod rest) (\<lambda>nonce rest.
          Inr (\<lparr>bh_majorVersion = majorVersion, bh_minorVersion = minorVersion, bh_nonce = nonce,
            bh_timestamp = timestamp, bh_previousBlockHash = previousBlockHash\<rparr>, rest))))))"

definition out_Block :: "Block \<Rightarrow> written" where
  "out_Block block =
    then_write (out_BlockHeader block)
      (then_write (out_Transaction (bl_baseTransaction block))
        (out_container out_pod (bl_transactionHashes block)))"

definition in_Block :: "u8 list \<Rightarrow> Block read" where
  "in_Block stream =
    then_read (in_BlockHeader stream) (\<lambda>h rest.
    then_read (in_Transaction rest) (\<lambda>baseTransaction rest.
    then_read (in_container in_pod rest) (\<lambda>transactionHashes rest.
      Inr (\<lparr>bh_majorVersion = bh_majorVersion h, bh_minorVersion = bh_minorVersion h,
        bh_nonce = bh_nonce h, bh_timestamp = bh_timestamp h,
        bh_previousBlockHash = bh_previousBlockHash h, bl_baseTransaction = baseTransaction,
        bl_transactionHashes = transactionHashes\<rparr>, rest))))"

definition out_AccountPublicAddress :: "AccountPublicAddress \<Rightarrow> written" where
  "out_AccountPublicAddress address =
    then_write (out_pod (aa_spendPublicKey address)) (out_pod (aa_viewPublicKey address))"

definition in_AccountPublicAddress :: "u8 list \<Rightarrow> AccountPublicAddress read" where
  "in_AccountPublicAddress stream =
    then_read (in_pod stream) (\<lambda>spend rest.
    then_read (in_pod rest) (\<lambda>view rest.
      Inr (\<lparr>aa_spendPublicKey = spend, aa_viewPublicKey = view\<rparr>, rest)))"

definition out_AccountKeys :: "AccountKeys \<Rightarrow> written" where
  "out_AccountKeys keys =
    then_write (out_AccountPublicAddress (ak_address keys))
      (then_write (out_pod (ak_spendSecretKey keys)) (out_pod (ak_viewSecretKey keys)))"

definition in_AccountKeys :: "u8 list \<Rightarrow> AccountKeys read" where
  "in_AccountKeys stream =
    then_read (in_AccountPublicAddress stream) (\<lambda>address rest.
    then_read (in_pod rest) (\<lambda>spend rest.
    then_read (in_pod rest) (\<lambda>view rest.
      Inr (\<lparr>ak_address = address, ak_spendSecretKey = spend, ak_viewSecretKey = view\<rparr>, rest))))"

definition out_KeyPair :: "KeyPair \<Rightarrow> written" where
  "out_KeyPair keyPair = then_write (out_pod (kp_secretKey keyPair)) (out_pod (kp_publicKey keyPair))"

definition in_KeyPair :: "u8 list \<Rightarrow> KeyPair read" where
  "in_KeyPair stream =
    then_read (in_pod stream) (\<lambda>secret rest.
    then_read (in_pod rest) (\<lambda>pub rest.
      Inr (\<lparr>kp_publicKey = pub, kp_secretKey = secret\<rparr>, rest)))"

section \<open>Byte arrays and hashes\<close>

definition toBinaryArray :: "('a \<Rightarrow> written) \<Rightarrow> 'a \<Rightarrow> u8 list option" where
  "toBinaryArray enc object = (case enc object of Inl _ \<Rightarrow> None | Inr ba \<Rightarrow> Some ba)"

definition fromBinaryArray :: "(u8 list \<Rightarrow> 'a read) \<Rightarrow> u8 list \<Rightarrow> 'a option" where
  "fromBinaryArray dec binaryArray =
    (case dec binaryArray of Inl _ \<Rightarrow> None
     | Inr (object, stream) \<Rightarrow> if endOfStream stream then Some object else None)"

definition getObjectBinarySize :: "('a \<Rightarrow> written) \<Rightarrow> 'a \<Rightarrow> bool \<times> u64" where
  "getObjectBinarySize enc object =
    (case toBinaryArray enc object of None \<Rightarrow> (False, 0xffffffffffffffff) | Some ba \<Rightarrow> (True, of_nat (length ba)))"

definition getObjectHash :: "(u8 list \<Rightarrow> Hash) \<Rightarrow> ('a \<Rightarrow> written) \<Rightarrow> 'a \<Rightarrow> bool \<times> Hash" where
  "getObjectHash cn_fast_hash enc object =
    (case toBinaryArray enc object of None \<Rightarrow> (False, 0) | Some ba \<Rightarrow> (True, cn_fast_hash ba))"

section \<open>Values in bounds\<close>

text \<open>
  The values the readers can return: vectors of at most \<open>128 * 1024 * 1024\<close> elements, a known
  version, and for a transaction one vector of signatures per input, of the size the input
  announces.
\<close>

definition ok_input :: "TransactionInput \<Rightarrow> bool" where
  "ok_input input = (case input of InKey k \<Rightarrow> length (ki_outputIndexes k) \<le> 134217728 | _ \<Rightarrow> True)"

definition ok_target :: "TransactionOutputTarget \<Rightarrow> bool" where
  "ok_target target = (case target of OutMultisig m \<Rightarrow> length (mo_keys m) \<le> 134217728 | _ \<Rightarrow> True)"

definition ok_prefix :: "'a TransactionPrefix_scheme \<Rightarrow> bool" where
  "ok_prefix p \<longleftrightarrow> tp_version p \<le> 2
    \<and> length (tp_inputs p) \<le> 134217728 \<and> list_all ok_input (tp_inputs p)
    \<and> length (tp_outputs p) \<le> 134217728 \<and> list_all (\<lambda>out. ok_target (to_target out)) (tp_outputs p)
    \<and> length (tp_extra p) \<le> 134217728"

definition ok_transaction :: "Transaction \<Rightarrow> bool" where
  "ok_transaction tx \<longleftrightarrow> ok_prefix tx
    \<and> map length (tx_signatures tx) = map getSignaturesCount (tp_inputs tx)"

definition ok_header :: "'a BlockHeader_scheme \<Rightarrow> bool" where
  "ok_header h \<longleftrightarrow> bh_majorVersion h \<le> 8"

definition ok_block :: "Block \<Rightarrow> bool" where
  "ok_block b \<longleftrightarrow> ok_header b \<and> ok_transaction (bl_baseTransaction b)
    \<and> length (bl_transactionHashes b) \<le> 134217728"

section \<open>Each reader accepts exactly what its writer writes\<close>

lemma uint_written: "\<exists>bs. out_uint v = Inr bs"
  by (simp add: out_uint_def write_bytes_def)

lemma pod_written: "\<exists>bs. out_pod v = Inr bs"
  by (simp add: out_pod_def write_bytes_def)

lemmas scalar_iff = u8_codec.dec_iff u32_codec.dec_iff u64_codec.dec_iff tag_codec.dec_iff
  nonce_codec.dec_iff hash_codec.dec_iff hashes_codec.dec_iff extra_codec.dec_iff

lemma varintVector_eq: "out_varintVector = out_container out_uint" "in_varintVector = in_container in_uint"
  by (simp_all add: fun_eq_iff out_varintVector_def out_container_def in_varintVector_def in_container_def)

lemma out_pod_tag [simp]: "out_pod (b :: u8) = Inr [b]"
  using concat_single_bytes [of "[b]"] by (simp add: out_pod_def write_bytes_def)

lemma in_pod_tag: "in_pod stream = Inr (b :: u8, rest) \<longleftrightarrow> stream = b # rest"
  by (simp add: tag_codec.dec_iff)

lemma in_pod_cons [simp]: "in_pod (b # rest) = Inr (b :: u8, rest)"
  by (simp add: in_pod_tag)

interpretation base_input: byte_codec out_BaseInput in_BaseInput "\<lambda>_. True"
proof
  fix stream rest x
  show "in_BaseInput stream = Inr (x, rest)
      \<longleftrightarrow> True \<and> (\<exists>bs. out_BaseInput x = Inr bs \<and> stream = bs @ rest)"
    by (cases x) (auto simp: in_BaseInput_def out_BaseInput_def serial_iff scalar_iff)
qed (simp add: out_BaseInput_def uint_written)

interpretation key_input: byte_codec out_KeyInput in_KeyInput
  "\<lambda>k. length (ki_outputIndexes k) \<le> 134217728"
proof
  fix stream rest x
  show "in_KeyInput stream = Inr (x, rest) \<longleftrightarrow> length (ki_outputIndexes x) \<le> 134217728
      \<and> (\<exists>bs. out_KeyInput x = Inr bs \<and> stream = bs @ rest)"
    by (cases x) (auto simp: in_KeyInput_def out_KeyInput_def serial_iff scalar_iff varintVector_eq
        indexes_codec.dec_iff)
next
  fix x :: KeyInput assume "length (ki_outputIndexes x) \<le> 134217728"
  then show "\<exists>bs. out_KeyInput x = Inr bs"
    using indexes_codec.enc_ok [of "ki_outputIndexes x"] uint_written [of "ki_amount x"]
      pod_written [of "ki_keyImage x"]
    by (auto simp: out_KeyInput_def varintVector_eq)
qed

interpretation multisignature_input: byte_codec out_MultisignatureInput in_MultisignatureInput "\<lambda>_. True"
proof
  fix stream rest x
  show "in_MultisignatureInput stream = Inr (x, rest)
      \<longleftrightarrow> True \<and> (\<exists>bs. out_MultisignatureInput x = Inr bs \<and> stream = bs @ rest)"
    by (cases x) (auto simp: in_MultisignatureInput_def out_MultisignatureInput_def serial_iff scalar_iff)
next
  fix x show "\<exists>bs. out_MultisignatureInput x = Inr bs"
    by (auto simp: out_MultisignatureInput_def out_uint_def write_bytes_def)
qed

lemma in_TransactionInput_iff:
  "in_TransactionInput stream = Inr (x, rest)
    \<longleftrightarrow> ok_input x \<and> (\<exists>bs. out_TransactionInput x = Inr bs \<and> stream = bs @ rest)"
    (is "?L \<longleftrightarrow> ?R")
proof
  assume ?L
  then show ?R
    by (auto simp: in_TransactionInput_def out_TransactionInput_def serial_iff in_pod_tag input_tag_def
        ok_input_def base_input.dec_iff key_input.dec_iff multisignature_input.dec_iff split: if_splits)
next
  assume ?R
  then show ?L
    by (cases x) (clarsimp simp: out_TransactionInput_def then_write_eq_Inr input_tag_def ok_input_def,
        simp add: in_TransactionInput_def then_read_eq_Inr base_input.dec_iff key_input.dec_iff
          multisignature_input.dec_iff)+
qed

interpretation transaction_input: byte_codec out_TransactionInput in_TransactionInput ok_input
proof
  fix x assume "ok_input x"
  then show "\<exists>bs. out_TransactionInput x = Inr bs"
    using base_input.enc_ok key_input.enc_ok multisignature_input.enc_ok
    by (cases x) (auto simp: out_TransactionInput_def serial_iff ok_input_def)
qed (rule in_TransactionInput_iff)

interpretation key_output: byte_codec out_KeyOutput in_KeyOutput "\<lambda>_. True"
proof
  fix stream rest x
  show "in_KeyOutput stream = Inr (x, rest)
      \<longleftrightarrow> True \<and> (\<exists>bs. out_KeyOutput x = Inr bs \<and> stream = bs @ rest)"
    by (cases x) (auto simp: in_KeyOutput_def out_KeyOutput_def serial_iff scalar_iff)
qed (simp add: out_KeyOutput_def pod_written)

interpretation multisignature_output: byte_codec out_MultisignatureOutput in_MultisignatureOutput
  "\<lambda>m. length (mo_keys m) \<le> 134217728"
proof
  fix stream rest x
  show "in_MultisignatureOutput stream = Inr (x, rest) \<longleftrightarrow> length (mo_keys x) \<le> 134217728
      \<and> (\<exists>bs. out_MultisignatureOutput x = Inr bs \<and> stream = bs @ rest)"
    by (cases x) (auto simp: in_MultisignatureOutput_def out_MultisignatureOutput_def serial_iff scalar_iff)
next
  fix x :: MultisignatureOutput assume "length (mo_keys x) \<le> 134217728"
  then show "\<exists>bs. out_MultisignatureOutput x = Inr bs"
    using hashes_codec.enc_ok [of "mo_keys x"]
    by (auto simp: out_MultisignatureOutput_def out_uint_def write_bytes_def)
qed

lemma in_TransactionOutputTarget_iff:
  "in_TransactionOutputTarget stream = Inr (x, rest)
    \<longleftrightarrow> ok_target x \<and> (\<exists>bs. out_TransactionOutputTarget x = Inr bs \<and> stream = bs @ rest)"
    (is "?L \<longleftrightarrow> ?R")
proof
  assume ?L
  then show ?R
    by (auto simp: in_TransactionOutputTarget_def out_TransactionOutputTarget_def serial_iff in_pod_tag
        target_tag_def ok_target_def key_output.dec_iff multisignature_output.dec_iff split: if_splits)
next
  assume ?R
  then show ?L
    by (cases x) (clarsimp simp: out_TransactionOutputTarget_def then_write_eq_Inr target_tag_def ok_target_def,
        simp add: in_TransactionOutputTarget_def then_read_eq_Inr key_output.dec_iff
          multisignature_output.dec_iff)+
qed

interpretation output_target: byte_codec out_TransactionOutputTarget in_TransactionOutputTarget ok_target
proof
  fix x assume "ok_target x"
  then show "\<exists>bs. out_TransactionOutputTarget x = Inr bs"
    using key_output.enc_ok multisignature_output.enc_ok
    by (cases x) (auto simp: out_TransactionOutputTarget_def serial_iff ok_target_def)
qed (rule in_TransactionOutputTarget_iff)

interpretation transaction_output: byte_codec out_TransactionOutput in_TransactionOutput
  "\<lambda>out. ok_target (to_target out)"
proof
  fix stream rest x
  show "in_TransactionOutput stream = Inr (x, rest) \<longleftrightarrow> ok_target (to_target x)
      \<and> (\<exists>bs. out_TransactionOutput x = Inr bs \<and> stream = bs @ rest)"
    by (cases x) (auto simp: in_TransactionOutput_def out_TransactionOutput_def serial_iff scalar_iff
        output_target.dec_iff)
next
  fix x :: TransactionOutput assume "ok_target (to_target x)"
  then show "\<exists>bs. out_TransactionOutput x = Inr bs"
    using output_target.enc_ok uint_written [of "to_amount x"] by (auto simp: out_TransactionOutput_def serial_iff)
qed

interpretation inputs_codec: byte_codec "out_container out_TransactionInput" "in_container in_TransactionInput"
    "\<lambda>xs. length xs \<le> 134217728 \<and> list_all ok_input xs"
  by (rule transaction_input.container_codec)

interpretation outputs_codec: byte_codec "out_container out_TransactionOutput" "in_container in_TransactionOutput"
    "\<lambda>xs. length xs \<le> 134217728 \<and> list_all (\<lambda>out. ok_target (to_target out)) xs"
  by (rule transaction_output.container_codec)

lemma version_le_2: "\<not> TRANSACTION_VERSION_2 < v \<longleftrightarrow> v \<le> 2"
  by (simp add: TRANSACTION_VERSION_2_def not_less)

lemma in_TransactionPrefix_iff:
  "in_TransactionPrefix stream = Inr (x, rest)
    \<longleftrightarrow> ok_prefix x \<and> (\<exists>bs. out_TransactionPrefix x = Inr bs \<and> stream = bs @ rest)"
proof (cases "tp_version x \<le> 2")
  case True
  then have v: "\<not> TRANSACTION_VERSION_2 < tp_version x" by (simp add: version_le_2)
  have "in_TransactionPrefix stream = Inr (x, rest)
      \<longleftrightarrow> (\<exists>r0 r1 r2 r3. in_uint stream = Inr (tp_version x, r0) \<and> in_uint r0 = Inr (tp_unlockTime x, r1)
        \<and> in_container in_TransactionInput r1 = Inr (tp_inputs x, r2)
        \<and> in_container in_TransactionOutput r2 = Inr (tp_outputs x, r3)
        \<and> in_asBinary r3 = Inr (tp_extra x, rest))"
    using v by (cases x) (auto simp: in_TransactionPrefix_def serial_iff split: if_splits)
  also have "\<dots> \<longleftrightarrow> ok_prefix x \<and> (\<exists>bs. out_TransactionPrefix x = Inr bs \<and> stream = bs @ rest)"
    unfolding scalar_iff inputs_codec.dec_iff outputs_codec.dec_iff out_TransactionPrefix_def ok_prefix_def
    using v True by (auto simp: serial_iff)
  finally show ?thesis .
next
  case False
  then have "TRANSACTION_VERSION_2 < tp_version x" by (simp add: TRANSACTION_VERSION_2_def not_le)
  then show ?thesis
    using False by (cases x) (auto simp: in_TransactionPrefix_def serial_iff ok_prefix_def split: if_splits)
qed

lemma prefix_written: "ok_prefix x \<Longrightarrow> \<exists>bs. out_TransactionPrefix x = Inr bs"
  using inputs_codec.enc_ok [of "tp_inputs x"] outputs_codec.enc_ok [of "tp_outputs x"]
    extra_codec.enc_ok [of "tp_extra x"] version_le_2 [of "tp_version x"]
  by (auto simp: ok_prefix_def out_TransactionPrefix_def serial_iff out_uint_def write_bytes_def)

interpretation prefix_codec: byte_codec out_TransactionPrefix in_TransactionPrefix ok_prefix
  by unfold_locales (fact in_TransactionPrefix_iff, rule prefix_written)

lemma signatures_iff:
  "in_signatures is stream = Inr (sigs, rest)
    \<longleftrightarrow> map length sigs = map getSignaturesCount is
      \<and> (\<exists>bs. out_signed is sigs = Inr bs \<and> stream = bs @ rest)"
proof (induction "is" arbitrary: stream sigs)
  case (Cons i "is")
  show ?case
  proof (cases sigs)
    case (Cons s ss)
    have "in_signatures (i # is) stream = Inr (s # ss, rest)
        \<longleftrightarrow> (\<exists>r. in_items in_pod (getSignaturesCount i) stream = Inr (s, r) \<and> in_signatures is r = Inr (ss, rest))"
      by (auto simp: serial_iff)
    also have "\<dots> \<longleftrightarrow> map length (s # ss) = map getSignaturesCount (i # is)
        \<and> (\<exists>bs. out_signed (i # is) (s # ss) = Inr bs \<and> stream = bs @ rest)"
      unfolding signature_codec.items_iff Cons.IH by (auto simp: serial_iff list_all_iff)
    finally show ?thesis using Cons by simp
  qed (auto simp: serial_iff)
qed auto

lemma signatures_written:
  "map length sigs = map getSignaturesCount is \<Longrightarrow> \<exists>bs. out_signed is sigs = Inr bs"
proof (induction "is" sigs rule: out_signed.induct)
  case (1 i "is" sigs rest)
  then obtain b where "out_signed is rest = Inr b" by auto
  moreover obtain a where "out_items out_pod sigs = Inr a"
    using signature_codec.items_ok [of sigs] by (auto simp: list_all_iff)
  ultimately show ?case using 1 by simp
qed auto

lemma out_Transaction_signed:
  assumes "map length (tx_signatures tx) = map getSignaturesCount (tp_inputs tx)"
  shows "out_Transaction tx
    = then_write (out_TransactionPrefix tx) (out_signed (tp_inputs tx) (tx_signatures tx))"
  using assms map_eq_imp_length_eq [OF assms] by (auto simp: out_Transaction_def Let_def)

lemma out_TransactionPrefix_truncate:
  "out_TransactionPrefix (TransactionPrefix.truncate tx) = out_TransactionPrefix tx"
  "ok_prefix (TransactionPrefix.truncate tx) = ok_prefix tx"
  by (simp_all add: out_TransactionPrefix_def ok_prefix_def TransactionPrefix.truncate_def)

lemma in_Transaction_iff:
  "in_Transaction stream = Inr (tx, rest)
    \<longleftrightarrow> ok_transaction tx \<and> (\<exists>bs. out_Transaction tx = Inr bs \<and> stream = bs @ rest)"
proof -
  let ?p = "TransactionPrefix.truncate tx"
  have "in_Transaction stream = Inr (tx, rest)
      \<longleftrightarrow> (\<exists>r. in_TransactionPrefix stream = Inr (?p, r)
        \<and> in_signatures (tp_inputs tx) r = Inr (tx_signatures tx, rest))"
    by (cases tx) (auto simp: in_Transaction_def serial_iff TransactionPrefix.truncate_def)
  also have "\<dots> \<longleftrightarrow> ok_transaction tx \<and> (\<exists>bs. out_Transaction tx = Inr bs \<and> stream = bs @ rest)"
    unfolding in_TransactionPrefix_iff signatures_iff out_TransactionPrefix_truncate ok_transaction_def
    by (auto simp: out_Transaction_signed serial_iff)
  finally show ?thesis .
qed

interpretation transaction_codec: byte_codec out_Transaction in_Transaction ok_transaction
proof
  fix tx assume "ok_transaction tx"
  then show "\<exists>bs. out_Transaction tx = Inr bs"
    using prefix_written [of tx] signatures_written [of "tx_signatures tx" "tp_inputs tx"]
    by (auto simp: ok_transaction_def out_Transaction_signed)
qed (rule in_Transaction_iff)

lemma in_BlockHeader_iff:
  "in_BlockHeader stream = Inr (x, rest)
    \<longleftrightarrow> ok_header x \<and> (\<exists>bs. out_BlockHeader x = Inr bs \<and> stream = bs @ rest)"
proof -
  have "in_BlockHeader stream = Inr (x, rest)
      \<longleftrightarrow> ok_header x \<and> (\<exists>r0 r1 r2 r3. in_uint stream = Inr (bh_majorVersion x, r0)
        \<and> in_uint r0 = Inr (bh_minorVersion x, r1) \<and> in_uint r1 = Inr (bh_timestamp x, r2)
        \<and> in_pod r2 = Inr (bh_previousBlockHash x, r3) \<and> in_pod r3 = Inr (bh_nonce x, rest))"
    by (cases x) (auto simp: in_BlockHeader_def serial_iff ok_header_def BLOCK_MAJOR_VERSION_8_def not_less
        split: if_splits)
  also have "\<dots> \<longleftrightarrow> ok_header x \<and> (\<exists>bs. out_BlockHeader x = Inr bs \<and> stream = bs @ rest)"
    unfolding scalar_iff
    by (auto simp: serial_iff out_BlockHeader_def ok_header_def BLOCK_MAJOR_VERSION_8_def not_less)
  finally show ?thesis .
qed

lemma header_written: "ok_header x \<Longrightarrow> \<exists>bs. out_BlockHeader x = Inr bs"
  by (auto simp: out_BlockHeader_def ok_header_def BLOCK_MAJOR_VERSION_8_def not_less out_uint_def
      out_pod_def write_bytes_def)

interpretation header_codec: byte_codec out_BlockHeader in_BlockHeader ok_header
  by unfold_locales (fact in_BlockHeader_iff, rule header_written)

lemma out_BlockHeader_truncate:
  "out_BlockHeader (BlockHeader.truncate b) = out_BlockHeader b"
  "ok_header (BlockHeader.truncate b) = ok_header b"
  by (simp_all add: out_BlockHeader_def ok_header_def BlockHeader.truncate_def)

lemma in_Block_iff:
  "in_Block stream = Inr (b, rest) \<longleftrightarrow> ok_block b \<and> (\<exists>bs. out_Block b = Inr bs \<and> stream = bs @ rest)"
proof -
  let ?h = "BlockHeader.truncate b"
  have "in_Block stream = Inr (b, rest)
      \<longleftrightarrow> (\<exists>r0 r1. in_BlockHeader stream = Inr (?h, r0) \<and> in_Transaction r0 = Inr (bl_baseTransaction b, r1)
        \<and> in_container in_pod r1 = Inr (bl_transactionHashes b, rest))"
    by (cases b) (auto simp: in_Block_def serial_iff BlockHeader.truncate_def)
  also have "\<dots> \<longleftrightarrow> ok_block b \<and> (\<exists>bs. out_Block b = Inr bs \<and> stream = bs @ rest)"
    unfolding in_BlockHeader_iff in_Transaction_iff hashes_codec.dec_iff out_BlockHeader_truncate ok_block_def
    by (auto simp: out_Block_def serial_iff)
  finally show ?thesis .
qed

interpretation block_codec: byte_codec out_Block in_Block ok_block
proof
  fix b assume "ok_block b"
  then show "\<exists>bs. out_Block b = Inr bs"
    using header_written [of b] transaction_codec.enc_ok hashes_codec.enc_ok [of "bl_transactionHashes b"]
    by (auto simp: ok_block_def out_Block_def serial_iff)
qed (rule in_Block_iff)

interpretation address_codec: byte_codec out_AccountPublicAddress in_AccountPublicAddress "\<lambda>_. True"
proof
  fix stream rest x
  show "in_AccountPublicAddress stream = Inr (x, rest)
      \<longleftrightarrow> True \<and> (\<exists>bs. out_AccountPublicAddress x = Inr bs \<and> stream = bs @ rest)"
    by (cases x) (auto simp: in_AccountPublicAddress_def out_AccountPublicAddress_def serial_iff scalar_iff)
qed (simp add: out_AccountPublicAddress_def out_pod_def write_bytes_def)

interpretation keys_codec: byte_codec out_AccountKeys in_AccountKeys "\<lambda>_. True"
proof
  fix stream rest x
  show "in_AccountKeys stream = Inr (x, rest)
      \<longleftrightarrow> True \<and> (\<exists>bs. out_AccountKeys x = Inr bs \<and> stream = bs @ rest)"
    by (cases x) (auto simp: in_AccountKeys_def out_AccountKeys_def serial_iff scalar_iff
        address_codec.dec_iff)
qed (simp add: out_AccountKeys_def out_AccountPublicAddress_def out_pod_def write_bytes_def)

interpretation key_pair_codec: byte_codec out_KeyPair in_KeyPair "\<lambda>_. True"
proof
  fix stream rest x
  show "in_KeyPair stream = Inr (x, rest)
      \<longleftrightarrow> True \<and> (\<exists>bs. out_KeyPair x = Inr bs \<and> stream = bs @ rest)"
    by (cases x) (auto simp: in_KeyPair_def out_KeyPair_def serial_iff scalar_iff)
qed (simp add: out_KeyPair_def out_pod_def write_bytes_def)

section \<open>Byte arrays\<close>

context byte_codec
begin

lemma binary_array_iff:
  "fromBinaryArray dec ba = Some x \<longleftrightarrow> ok x \<and> toBinaryArray enc x = Some ba"
proof -
  have "fromBinaryArray dec ba = Some x \<longleftrightarrow> dec ba = Inr (x, [])"
    by (auto simp: fromBinaryArray_def endOfStream_def split: sum.splits)
  also have "\<dots> \<longleftrightarrow> ok x \<and> toBinaryArray enc x = Some ba"
    by (auto simp: dec_iff toBinaryArray_def split: sum.splits)
  finally show ?thesis .
qed

end

text \<open>Writing: the inputs, the outputs and the extra field never throw.\<close>

lemma input_written: "\<exists>bs. out_TransactionInput x = Inr bs"
proof (cases x)
  case (InKey k)
  then show ?thesis
    using container_written [of "ki_outputIndexes k" out_uint, OF uint_written] uint_written [of "ki_amount k"]
      pod_written [of "ki_keyImage k"]
    by (auto simp: out_TransactionInput_def out_KeyInput_def varintVector_eq)
qed (use base_input.enc_ok multisignature_input.enc_ok in \<open>auto simp: out_TransactionInput_def serial_iff\<close>)

lemma target_written: "\<exists>bs. out_TransactionOutputTarget x = Inr bs"
proof (cases x)
  case (OutMultisig m)
  then show ?thesis
    using container_written [of "mo_keys m" out_pod, OF pod_written]
    by (auto simp: out_TransactionOutputTarget_def out_MultisignatureOutput_def out_uint_def write_bytes_def)
qed (use key_output.enc_ok in \<open>auto simp: out_TransactionOutputTarget_def serial_iff\<close>)

lemma output_written: "\<exists>bs. out_TransactionOutput x = Inr bs"
  using target_written [of "to_target x"] uint_written [of "to_amount x"]
  by (auto simp: out_TransactionOutput_def)

lemma out_TransactionPrefix_cases:
  "if 2 < tp_version tx then out_TransactionPrefix tx = Inl WrongTransactionVersion
   else \<exists>bs. out_TransactionPrefix tx = Inr bs"
  using container_written [of "tp_inputs tx" out_TransactionInput, OF input_written]
    container_written [of "tp_outputs tx" out_TransactionOutput, OF output_written]
    uint_written [of "tp_version tx"] uint_written [of "tp_unlockTime tx"]
  by (auto simp: out_TransactionPrefix_def TRANSACTION_VERSION_2_def out_asBinary_def out_string_def write_bytes_def)

lemma out_unsigned_cases:
  "out_unsigned is = (if list_all (\<lambda>i. getSignaturesCount i = 0) is then Inr [] else Inl UnexpectedSignatures)"
  by (induction "is") auto

lemma out_signed_mismatch:
  "length is = length sigs \<Longrightarrow> map length sigs \<noteq> map getSignaturesCount is
    \<Longrightarrow> out_signed is sigs = Inl UnexpectedSignatureSize"
proof (induction "is" sigs rule: out_signed.induct)
  case (1 i "is" sigs rest)
  moreover obtain a where "out_items out_pod sigs = Inr a"
    using signature_codec.items_ok [of sigs] by (auto simp: list_all_iff)
  ultimately show ?case by auto
qed auto

section \<open>Properties\<close>

text \<open>
  C18. A byte array is read as the transaction \<open>tx\<close> exactly when \<open>tx\<close> is
  within the bounds of the format and the array is what writing \<open>tx\<close> produces. So reading inverts
  writing, every other array is rejected, and a transaction has a single binary form.
\<close>

theorem transaction_binary_exact:
  "fromBinaryArray in_Transaction ba = Some tx
    \<longleftrightarrow> ok_transaction tx \<and> toBinaryArray out_Transaction tx = Some ba"
  by (rule transaction_codec.binary_array_iff)

text \<open>
  C37. The same for blocks: a byte array is read as a block exactly when the block
  is within bounds and the array is its binary form, so no two arrays are read as the same block.
\<close>

theorem block_binary_exact:
  "fromBinaryArray in_Block ba = Some b \<longleftrightarrow> ok_block b \<and> toBinaryArray out_Block b = Some ba"
  by (rule block_codec.binary_array_iff)

text \<open>
  C38. Writing a transaction throws in exactly three cases: its version is
  above 2; it carries no signatures although some input needs them; or it carries signatures whose
  numbers do not match what the inputs announce. Each case has its own exception, and in no other
  case does writing throw.
\<close>

theorem transaction_write_errors:
  "case out_Transaction tx of
     Inl e \<Rightarrow>
       (if 2 < tp_version tx then e = WrongTransactionVersion
        else if tx_signatures tx = []
        then e = UnexpectedSignatures \<and> list_ex (\<lambda>i. getSignaturesCount i \<noteq> 0) (tp_inputs tx)
        else e = UnexpectedSignatureSize
          \<and> map length (tx_signatures tx) \<noteq> map getSignaturesCount (tp_inputs tx))
   | Inr _ \<Rightarrow> tp_version tx \<le> 2
       \<and> (if tx_signatures tx = [] then list_all (\<lambda>i. getSignaturesCount i = 0) (tp_inputs tx)
          else map length (tx_signatures tx) = map getSignaturesCount (tp_inputs tx))"
proof (cases "2 < tp_version tx")
  case True
  then show ?thesis
    using out_TransactionPrefix_cases [of tx] by (auto simp: out_Transaction_def)
next
  case False
  then obtain p where p: "out_TransactionPrefix tx = Inr p"
    using out_TransactionPrefix_cases [of tx] by auto
  consider (unsigned) "tx_signatures tx = []"
    | (signed) "map length (tx_signatures tx) = map getSignaturesCount (tp_inputs tx)"
    | (mismatch) "tx_signatures tx \<noteq> []"
        "map length (tx_signatures tx) \<noteq> map getSignaturesCount (tp_inputs tx)" by blast
  then show ?thesis
  proof cases
    case unsigned
    with False p show ?thesis
      by (auto simp: out_Transaction_def out_unsigned_cases not_less list_all_iff list_ex_iff)
  next
    case signed
    with False p show ?thesis
      using signatures_written [OF signed] by (auto simp: out_Transaction_signed not_less)
  next
    case mismatch
    with False p show ?thesis
      using out_signed_mismatch [of "tp_inputs tx" "tx_signatures tx"]
      by (auto simp: out_Transaction_def Let_def)
  qed
qed

text \<open>
  A transaction written without its vector of signatures, as a
  freshly built coinbase transaction is, does not read back as itself: reading gives it one empty
  vector of signatures per input and changes nothing else.
\<close>

theorem unsigned_transaction_reads_back:
  assumes "ok_prefix tx" and "tx_signatures tx = []" and "toBinaryArray out_Transaction tx = Some ba"
  shows "fromBinaryArray in_Transaction ba
    = Some (tx\<lparr>tx_signatures := replicate (length (tp_inputs tx)) []\<rparr>)"
proof -
  let ?t = "tx\<lparr>tx_signatures := replicate (length (tp_inputs tx)) []\<rparr>"
  have zero: "list_all (\<lambda>i. getSignaturesCount i = 0) (tp_inputs tx)"
    using assms(2, 3)
    by (auto simp: toBinaryArray_def out_Transaction_def out_unsigned_cases then_write_def
        split: sum.splits if_splits)
  then have len: "map length (tx_signatures ?t) = map getSignaturesCount (tp_inputs ?t)"
    by (auto simp: list_all_iff map_replicate_const [symmetric] simp del: map_replicate_const)
  have "out_signed is (replicate (length is) []) = out_unsigned is"
    if "list_all (\<lambda>i. getSignaturesCount i = 0) is" for "is"
    using that by (induction "is") (auto simp: out_unsigned_cases)
  moreover have "out_TransactionPrefix ?t = out_TransactionPrefix tx" "ok_prefix ?t = ok_prefix tx"
    by (simp_all add: out_TransactionPrefix_def ok_prefix_def)
  ultimately have "out_Transaction ?t = out_Transaction tx" and "ok_prefix ?t"
    unfolding out_Transaction_signed [OF len]
    using assms(1, 2) zero by (simp_all add: out_Transaction_def)
  then show ?thesis
    using assms(3) len transaction_codec.binary_array_iff [of ba ?t]
    unfolding ok_transaction_def toBinaryArray_def by simp
qed

theorem unsigned_transaction_reads_back_witness:
  "fromBinaryArray in_Transaction
     [1, 10, 1, 0xff, 5, 1, 7, 3, 0, 1, 0, 0]
   = Some \<lparr>tp_version = 1, tp_unlockTime = 10, tp_inputs = [InBase \<lparr>bi_blockIndex = 5\<rparr>],
       tp_outputs = [\<lparr>to_amount = 7, to_target = OutMultisig \<lparr>mo_keys = [],
         mo_requiredSignatureCount = 1, mo_term = 0\<rparr>\<rparr>],
       tp_extra = [], tx_signatures = [[]]\<rparr>"
  using unsigned_transaction_reads_back [of "\<lparr>tp_version = 1, tp_unlockTime = 10,
       tp_inputs = [InBase \<lparr>bi_blockIndex = 5\<rparr>],
       tp_outputs = [\<lparr>to_amount = 7, to_target = OutMultisig \<lparr>mo_keys = [],
         mo_requiredSignatureCount = 1, mo_term = 0\<rparr>\<rparr>],
       tp_extra = [], tx_signatures = []\<rparr>" "[1, 10, 1, 0xff, 5, 1, 7, 3, 0, 1, 0, 0]"]
  by (simp add: ok_prefix_def ok_input_def ok_target_def toBinaryArray_def out_Transaction_def
      out_TransactionPrefix_def TRANSACTION_VERSION_2_def out_container_def out_beginArray_def
      out_TransactionInput_def out_BaseInput_def input_tag_def out_TransactionOutput_def
      out_TransactionOutputTarget_def target_tag_def out_MultisignatureOutput_def out_asBinary_def
      out_string_def out_uint_def write_bytes_def writeVarint.simps getSignaturesCount_def)

end
