(* ===== verification/ChaCha8.thy ===== *)
theory ChaCha8
  imports Bytes
begin

text \<open>
  The stream cipher of \<open>src/crypto/chacha8.c\<close>, which encrypts the messages of a transaction and
  the wallet files. The sixteen local variables of the block function are a list; \<open>PLUS\<close> wraps at
  32 bits. The buffer \<open>tmp\<close>, which holds a last short block and is not initialised beyond it, is
  an argument: nothing that is returned depends on it.
\<close>

definition rol32 :: "u32 \<Rightarrow> nat \<Rightarrow> u32" where
  "rol32 x r = push_bit (r mod 32) x OR drop_bit ((32 - r mod 32) mod 32) x"

definition QUARTERROUND :: "nat \<Rightarrow> nat \<Rightarrow> nat \<Rightarrow> nat \<Rightarrow> u32 list \<Rightarrow> u32 list" where
  "QUARTERROUND a b c d x =
    (let x = x[a := x ! a + x ! b];
         x = x[d := rol32 (x ! d XOR x ! a) 16];
         x = x[c := x ! c + x ! d];
         x = x[b := rol32 (x ! b XOR x ! c) 12];
         x = x[a := x ! a + x ! b];
         x = x[d := rol32 (x ! d XOR x ! a) 8];
         x = x[c := x ! c + x ! d];
         x = x[b := rol32 (x ! b XOR x ! c) 7]
     in x)"

definition double_round :: "u32 list \<Rightarrow> u32 list" where
  "double_round x =
    QUARTERROUND 3 4 9 14 (QUARTERROUND 2 7 8 13 (QUARTERROUND 1 6 11 12 (QUARTERROUND 0 5 10 15
      (QUARTERROUND 3 7 11 15 (QUARTERROUND 2 6 10 14 (QUARTERROUND 1 5 9 13 (QUARTERROUND 0 4 8 12 x)))))))"

text \<open>Bytes to little-endian words and back, and the constant \<open>"expand 32-byte k"\<close>.\<close>

fun words_of_bytes :: "nat \<Rightarrow> u8 list \<Rightarrow> u32 list" where
  "words_of_bytes 0 bytes = []"
| "words_of_bytes (Suc n) bytes = pod_of_bytes (take 4 bytes) # words_of_bytes n (drop 4 bytes)"

definition bytes_of_words :: "u32 list \<Rightarrow> u8 list" where
  "bytes_of_words ws = concat (map pod_bytes ws)"

definition sigma :: "u32 list" where
  "sigma = [0x61707865, 0x3320646e, 0x79622d32, 0x6b206574]"

definition chacha8_start :: "u8 list \<Rightarrow> u8 list \<Rightarrow> u32 list" where
  "chacha8_start key iv = sigma @ words_of_bytes 8 key @ [0, 0] @ words_of_bytes 2 iv"

definition keystream_block :: "u32 list \<Rightarrow> u32 list" where
  "keystream_block j = map2 (+) (double_round (double_round (double_round (double_round j)))) j"

definition next_counter :: "u32 list \<Rightarrow> u32 list" where
  "next_counter j =
    (let j = j[12 := j ! 12 + 1] in if j ! 12 = 0 then j[13 := j ! 13 + 1] else j)"

function chacha8_loop :: "(nat \<Rightarrow> u8) \<Rightarrow> u32 list \<Rightarrow> u8 list \<Rightarrow> u8 list" where
  "chacha8_loop tmp j data =
    (let block = (if length data < 64 then data @ map tmp [length data ..< 64] else take 64 data);
         cipher = bytes_of_words (map2 (XOR) (keystream_block j) (words_of_bytes 16 block))
     in if length data \<le> 64 then take (length data) cipher
        else cipher @ chacha8_loop tmp (next_counter j) (drop 64 data))"
  by pat_completeness auto
termination
  by (relation "measure (\<lambda>(_, _, data). length data)") auto

declare chacha8_loop.simps [simp del]

definition chacha8 :: "(nat \<Rightarrow> u8) \<Rightarrow> u8 list \<Rightarrow> u8 list \<Rightarrow> u8 list \<Rightarrow> u8 list" where
  "chacha8 tmp data key iv = (if data = [] then [] else chacha8_loop tmp (chacha8_start key iv) data)"

section \<open>The cipher is an exclusive or with a key stream\<close>

lemma length_words_of_bytes [simp]: "length (words_of_bytes n bytes) = n"
  by (induction n arbitrary: bytes) simp_all

lemma length_bytes_of_words [simp]: "length (bytes_of_words ws) = 4 * length ws"
  by (induction ws) (simp_all add: bytes_of_words_def)

lemma length_QUARTERROUND [simp]: "length (QUARTERROUND a b c d x) = length x"
  by (simp add: QUARTERROUND_def Let_def)

lemma length_double_round [simp]: "length (double_round x) = length x"
  by (simp add: double_round_def)

lemma length_keystream_block [simp]: "length (keystream_block j) = length j"
  by (simp add: keystream_block_def)

lemma length_next_counter [simp]: "length (next_counter j) = length j"
  by (simp add: next_counter_def Let_def)

lemma length_chacha8_start [simp]: "length (chacha8_start key iv) = 16"
  by (simp add: chacha8_start_def sigma_def)

text \<open>Exclusive or of words is exclusive or of their bytes.\<close>

lemma le_bytes_bit:
  "le_bytes n v = map (\<lambda>i. (of_nat (drop_bit (8 * i) v) :: u8)) [0 ..< n]"
proof (induction n arbitrary: v)
  case (Suc n)
  have "(of_nat (v mod 256) :: u8) = of_nat v"
    by (rule unat_eqI) (simp add: unat_of_nat)
  moreover have "drop_bit (8 * i) (v div 256) = drop_bit (8 * Suc i) v" for i
    by (simp add: drop_bit_eq_div div_mult2_eq [symmetric] power_add mult.commute)
  ultimately show ?case
    by (simp only: le_bytes.simps Suc.IH upt_conv_Cons [OF zero_less_Suc])
      (simp add: map_Suc_upt [symmetric] comp_def del: upt_Suc)
qed simp

lemma xor_bytes: "pod_bytes (a XOR b :: u32) = map2 (XOR) (pod_bytes a) (pod_bytes b)"
proof -
  have "(of_nat (drop_bit m (unat (a XOR b))) :: u8)
      = of_nat (drop_bit m (unat a)) XOR of_nat (drop_bit m (unat b))" for m
    by (rule bit_word_eqI) (simp add: bit_of_nat_iff bit_drop_bit_eq bit_xor_iff bit_unsigned_iff)
  then show ?thesis
    unfolding pod_bytes_def le_bytes_bit by (simp add: list_eq_iff_nth_eq)
qed

lemma xor_bytes_of_words:
  "length a = length b \<Longrightarrow>
    bytes_of_words (map2 (XOR) a b) = map2 (XOR) (bytes_of_words a) (bytes_of_words b)"
  by (induction a b rule: list_induct2) (simp_all add: bytes_of_words_def xor_bytes)

lemma bytes_of_words_of_bytes: "length bytes = 4 * n \<Longrightarrow> bytes_of_words (words_of_bytes n bytes) = bytes"
proof (induction n arbitrary: bytes)
  case (Suc n)
  then have "pod_bytes (pod_of_bytes (take 4 bytes) :: u32) = take 4 bytes"
    by (intro pod_bytes_of_bytes) simp_all
  with Suc show ?case by (simp add: bytes_of_words_def)
qed (simp add: bytes_of_words_def)

fun keystream :: "nat \<Rightarrow> u32 list \<Rightarrow> u8 list" where
  "keystream 0 j = []"
| "keystream (Suc n) j = bytes_of_words (keystream_block j) @ keystream n (next_counter j)"

lemma length_keystream [simp]: "length j = 16 \<Longrightarrow> length (keystream n j) = 64 * n"
  by (induction n arbitrary: j) simp_all

lemma take_map2: "take n (map2 f xs ys) = map2 f (take n xs) (take n ys)"
  by (simp add: take_map take_zip)

lemma map2_append: "length a = length c \<Longrightarrow> map2 f (a @ b) (c @ d) = map2 f a c @ map2 f b d"
  by simp

lemma chacha8_loop_xor:
  "length j = 16 \<Longrightarrow> length data \<le> 64 * n \<Longrightarrow>
    chacha8_loop tmp j data = map2 (XOR) (take (length data) (keystream n j)) data"
proof (induction tmp j data arbitrary: n rule: chacha8_loop.induct)
  case (1 tmp j data)
  define block where "block = (if length data < 64 then data @ map tmp [length data ..< 64] else take 64 data)"
  have len: "length block = 64" by (simp add: block_def)
  define cipher where "cipher = bytes_of_words (map2 (XOR) (keystream_block j) (words_of_bytes 16 block))"
  have cipher: "cipher = map2 (XOR) (bytes_of_words (keystream_block j)) block"
    using "1.prems"(1) len by (simp add: cipher_def xor_bytes_of_words bytes_of_words_of_bytes)
  show ?case
  proof (cases "length data \<le> 64")
    case True
    have eq: "chacha8_loop tmp j data = take (length data) cipher"
      using True by (subst chacha8_loop.simps) (simp add: Let_def block_def cipher_def)
    have tb: "take (length data) block = data" using True by (auto simp: block_def)
    show ?thesis
    proof (cases n)
      case 0
      then show ?thesis using "1.prems"(2) eq by simp
    next
      case (Suc m)
      then show ?thesis
        using True "1.prems"(1) by (simp add: eq cipher take_map2 tb)
    qed
  next
    case False
    then obtain m where n: "n = Suc m" and m: "length (drop 64 data) \<le> 64 * m"
      using "1.prems"(2) by (cases n) auto
    have "chacha8_loop tmp j data = cipher @ chacha8_loop tmp (next_counter j) (drop 64 data)"
      using False by (subst chacha8_loop.simps) (simp add: Let_def block_def cipher_def)
    also have "chacha8_loop tmp (next_counter j) (drop 64 data)
        = map2 (XOR) (take (length data - 64) (keystream m (next_counter j))) (drop 64 data)"
      using "1.IH" [OF block_def cipher_def False _ m] "1.prems"(1) by simp
    also have "cipher = map2 (XOR) (bytes_of_words (keystream_block j)) (take 64 data)"
      using False by (simp add: cipher block_def)
    also have "map2 (XOR) (bytes_of_words (keystream_block j)) (take 64 data)
          @ map2 (XOR) (take (length data - 64) (keystream m (next_counter j))) (drop 64 data)
        = map2 (XOR) (bytes_of_words (keystream_block j)
            @ take (length data - 64) (keystream m (next_counter j))) (take 64 data @ drop 64 data)"
      using False "1.prems"(1) by (intro map2_append [symmetric]) simp
    finally show ?thesis using False "1.prems"(1) by (simp add: n)
  qed
qed

text \<open>The bytes the cipher adds to a message of a given length.\<close>

definition pad_bytes :: "nat \<Rightarrow> u8 list \<Rightarrow> u8 list \<Rightarrow> u8 list" where
  "pad_bytes n key iv = take n (keystream n (chacha8_start key iv))"

lemma length_pad_bytes [simp]: "length (pad_bytes n key iv) = n"
  by (simp add: pad_bytes_def)

lemma chacha8_xor: "chacha8 tmp data key iv = map2 (XOR) (pad_bytes (length data) key iv) data"
  by (simp add: chacha8_def pad_bytes_def chacha8_loop_xor [where n = "length data"])

lemma length_chacha8 [simp]: "length (chacha8 tmp data key iv) = length data"
  by (simp add: chacha8_xor)

lemma map2_xor_twice: "length p = length d \<Longrightarrow> map2 (XOR) p (map2 (XOR) p d) = (d :: u8 list)"
  by (induction p d rule: list_induct2) (simp_all flip: xor.assoc)

lemma chacha8_twice: "chacha8 tmp (chacha8 tmp' data key iv) key iv = data"
  by (simp add: chacha8_xor map2_xor_twice)

section \<open>The definition of the cipher\<close>

text \<open>
  Bernstein's definition, independent of the code: the state is a matrix of four rows of four words,
  a round applies the quarter round to the four columns, or to the four diagonals, which are the
  columns after row \<open>r\<close> has been rotated by \<open>r\<close> places. A block is the sum of the start matrix and
  the result of eight rounds, and the matrix holds the constant, the key, the 64-bit number of the
  block and the nonce.
\<close>

definition quarter_round :: "u32 \<times> u32 \<times> u32 \<times> u32 \<Rightarrow> u32 \<times> u32 \<times> u32 \<times> u32" where
  "quarter_round = (\<lambda>(a, b, c, d).
    let a1 = a + b; d1 = word_rotl 16 (d XOR a1); c1 = c + d1; b1 = word_rotl 12 (b XOR c1);
        a2 = a1 + b1; d2 = word_rotl 8 (d1 XOR a2); c2 = c1 + d2; b2 = word_rotl 7 (b1 XOR c2)
    in (a2, b2, c2, d2))"

definition column_round :: "u32 list \<Rightarrow> u32 list" where
  "column_round x =
    (let q = map (\<lambda>i. quarter_round (x ! i, x ! (4 + i), x ! (8 + i), x ! (12 + i))) [0, 1, 2, 3] in
     map fst q @ map (fst \<circ> snd) q @ map (fst \<circ> snd \<circ> snd) q @ map (snd \<circ> snd \<circ> snd) q)"

definition rotate_rows :: "nat list \<Rightarrow> u32 list \<Rightarrow> u32 list" where
  "rotate_rows places x = concat (map2 (\<lambda>r n. rotate n (take 4 (drop (4 * r) x))) [0, 1, 2, 3] places)"

definition diagonal_round :: "u32 list \<Rightarrow> u32 list" where
  "diagonal_round x = rotate_rows [0, 3, 2, 1] (column_round (rotate_rows [0, 1, 2, 3] x))"

definition start_matrix :: "u8 list \<Rightarrow> u8 list \<Rightarrow> nat \<Rightarrow> u32 list" where
  "start_matrix key iv n =
    map (\<lambda>i. pod_of_bytes (take 4 (drop (4 * i) (map of_char ''expand 32-byte k'')))) [0, 1, 2, 3]
    @ map (\<lambda>i. pod_of_bytes (take 4 (drop (4 * i) key))) [0, 1, 2, 3, 4, 5, 6, 7]
    @ [of_nat n, of_nat (n div 2 ^ 32)]
    @ map (\<lambda>i. pod_of_bytes (take 4 (drop (4 * i) iv))) [0, 1]"

definition chacha_block :: "u8 list \<Rightarrow> u8 list \<Rightarrow> nat \<Rightarrow> u32 list" where
  "chacha_block key iv n =
    map2 (+) (((diagonal_round \<circ> column_round) ^^ 4) (start_matrix key iv n)) (start_matrix key iv n)"

text \<open>Byte \<open>p\<close> of the key stream: byte \<open>p mod 64\<close> of block \<open>p div 64\<close>, its words little-endian.\<close>

definition chacha_byte :: "u8 list \<Rightarrow> u8 list \<Rightarrow> nat \<Rightarrow> u8" where
  "chacha_byte key iv p =
    of_nat (unat (chacha_block key iv (p div 64) ! (p mod 64 div 4)) div 256 ^ (p mod 4))"

section \<open>The code computes it\<close>

lemma rol32_rotl: "0 < r \<Longrightarrow> r < 32 \<Longrightarrow> rol32 x r = word_rotl r x"
proof (rule bit_word_eqI)
  fix n
  assume r: "0 < r" "r < 32" and "n < LENGTH(32)"
  then have n: "n < 32" by simp
  have "bit x ((n + (32 - r)) mod 32) = (if r \<le> n then bit x (n - r) else bit x (32 - r + n))"
  proof (cases "r \<le> n")
    case True
    then have "n + (32 - r) = 32 + (n - r)" using r by simp
    then have "(n + (32 - r)) mod 32 = n - r" using n by (simp only: mod_add_self1) simp
    then show ?thesis using True by simp
  next
    case False
    then have "(n + (32 - r)) mod 32 = 32 - r + n" using r n by simp
    then show ?thesis using False by simp
  qed
  moreover have "\<not> bit x (32 - r + n)" if "r \<le> n"
    using that r by (intro impossible_bit) simp
  ultimately show "bit (rol32 x r) n = bit (word_rotl r x) n"
    using r n by (auto simp: rol32_def bit_word_rotl_iff bit_or_iff bit_push_bit_iff bit_drop_bit_eq)
qed

lemma QUARTERROUND_eq:
  assumes "distinct [a, b, c, d]" and "a < length x" "b < length x" "c < length x" "d < length x"
  shows "QUARTERROUND a b c d x =
    (case quarter_round (x ! a, x ! b, x ! c, x ! d) of (p, q, r, s) \<Rightarrow> x[a := p, b := q, c := r, d := s])"
  using assms by (auto simp: QUARTERROUND_def quarter_round_def Let_def rol32_rotl list_eq_iff_nth_eq nth_list_update)

lemma sixteen_words: "length x = 16 \<Longrightarrow> \<exists>x0 x1 x2 x3 x4 x5 x6 x7 x8 x9 x10 x11 x12 x13 x14 x15.
    x = [x0, x1, x2, x3, x4, x5, x6, x7, x8, x9, x10, x11, x12, x13, x14, x15]"
  by (auto simp: numeral_eq_Suc length_Suc_conv)

lemma column_round_eq:
  assumes "length x = 16"
  shows "QUARTERROUND 3 7 11 15 (QUARTERROUND 2 6 10 14 (QUARTERROUND 1 5 9 13 (QUARTERROUND 0 4 8 12 x)))
    = column_round x"
proof -
  obtain x0 x1 x2 x3 x4 x5 x6 x7 x8 x9 x10 x11 x12 x13 x14 x15
    where "x = [x0, x1, x2, x3, x4, x5, x6, x7, x8, x9, x10, x11, x12, x13, x14, x15]"
    using sixteen_words [OF assms] by blast
  then show ?thesis
    by (simp add: QUARTERROUND_eq column_round_def case_prod_beta)
qed

lemma length_column_round [simp]: "length (column_round x) = 16"
  by (simp add: column_round_def Let_def)

lemma rotate_rows_simps:
  "rotate 1 [a, b, c, d] = [b, c, d, a]" "rotate 2 [a, b, c, d] = [c, d, a, b]" "rotate 3 [a, b, c, d] = [d, a, b, c]"
  by (simp_all add: rotate_def numeral_eq_Suc)

lemma diagonal_round_eq:
  assumes "length x = 16"
  shows "QUARTERROUND 3 4 9 14 (QUARTERROUND 2 7 8 13 (QUARTERROUND 1 6 11 12 (QUARTERROUND 0 5 10 15 x)))
    = diagonal_round x"
proof -
  obtain x0 x1 x2 x3 x4 x5 x6 x7 x8 x9 x10 x11 x12 x13 x14 x15
    where "x = [x0, x1, x2, x3, x4, x5, x6, x7, x8, x9, x10, x11, x12, x13, x14, x15]"
    using sixteen_words [OF assms] by blast
  then show ?thesis
    by (simp add: QUARTERROUND_eq diagonal_round_def column_round_def rotate_rows_def case_prod_beta rotate_rows_simps)
qed

lemma double_round_eq: "length x = 16 \<Longrightarrow> double_round x = diagonal_round (column_round x)"
  unfolding double_round_def column_round_eq by (rule diagonal_round_eq) simp

lemma keystream_block_eq:
  assumes "length j = 16"
  shows "keystream_block j = map2 (+) (((diagonal_round \<circ> column_round) ^^ 4) j) j"
proof -
  have "double_round (double_round (double_round (double_round j))) = ((diagonal_round \<circ> column_round) ^^ 4) j"
    using assms by (simp add: numeral_eq_Suc flip: double_round_eq)
  then show ?thesis by (simp only: keystream_block_def)
qed

text \<open>The two counter words together count the blocks.\<close>

definition with_counter :: "nat \<Rightarrow> u32 list \<Rightarrow> u32 list" where
  "with_counter n j = j[12 := of_nat n, 13 := of_nat (n div 2 ^ 32)]"

lemma next_with_counter:
  assumes "length j = 16"
  shows "next_counter (with_counter n j) = with_counter (Suc n) j"
proof -
  have zero: "(of_nat (Suc n) :: u32) = 0 \<longleftrightarrow> 2 ^ 32 dvd Suc n"
    using word_of_nat_eq_0_iff [where 'a = 32, of "Suc n"] by simp
  have div: "Suc n div 2 ^ 32 = (if 2 ^ 32 dvd Suc n then Suc (n div 2 ^ 32) else n div 2 ^ 32)"
    by (simp only: div_Suc mod_eq_0_iff_dvd)
  have twelve: "with_counter n j ! 12 = of_nat n" "with_counter n j ! 13 = of_nat (n div 2 ^ 32)"
    using assms by (simp_all add: with_counter_def)
  have one: "(of_nat k :: u32) + 1 = of_nat (Suc k)" for k by (simp only: of_nat_Suc add.commute)
  have "next_counter (with_counter n j) = (let k = (with_counter n j)[12 := of_nat (Suc n)] in
      if (of_nat (Suc n) :: u32) = 0 then k[13 := of_nat (Suc (n div 2 ^ 32))] else k)"
    using assms unfolding next_counter_def Let_def twelve one by (simp add: with_counter_def add.commute)
  also have "\<dots> = with_counter (Suc n) j"
    unfolding zero Let_def with_counter_def div by (simp only: list_update_swap [of 12 13] list_update_overwrite split: if_split) simp
  finally show ?thesis .
qed

lemma words_of_bytes_map:
  "words_of_bytes n bytes = map (\<lambda>i. pod_of_bytes (take 4 (drop (4 * i) bytes))) [0 ..< n]"
proof (induction n arbitrary: bytes)
  case (Suc n)
  show ?case
    unfolding words_of_bytes.simps Suc.IH upt_conv_Cons [OF zero_less_Suc] list.map map_Suc_upt [symmetric]
    by (simp add: comp_def add.commute)
qed simp

lemma sigma_text:
  "map (\<lambda>i. pod_of_bytes (take 4 (drop (4 * i) (map of_char ''expand 32-byte k'')))) [0, 1, 2, 3] = sigma"
  by (simp add: sigma_def pod_of_bytes_def)

lemma set_counter:
  "length a = 4 \<Longrightarrow> length b = 8 \<Longrightarrow> (a @ b @ [c, d] @ e)[12 := v, 13 := w] = a @ b @ [v, w] @ e"
  by (simp add: list_update_append)

lemma counter_start: "with_counter n (chacha8_start key iv) = start_matrix key iv n"
proof -
  have upt: "[0 ..< 8] = [0, 1, 2, 3, 4, 5, 6, 7 :: nat]" "[0 ..< 2] = [0, 1 :: nat]" by (simp_all add: upt_rec)
  show ?thesis
    unfolding with_counter_def chacha8_start_def start_matrix_def sigma_text words_of_bytes_map upt
    by (rule set_counter) (simp_all add: sigma_def)
qed

lemma keystream_nth:
  "length j = 16 \<Longrightarrow> p < 64 * n \<Longrightarrow> keystream n (with_counter m j) ! p
    = bytes_of_words (keystream_block (with_counter (m + p div 64) j)) ! (p mod 64)"
proof (induction n arbitrary: m p)
  case (Suc n)
  have len: "length (with_counter m j) = 16" using Suc.prems(1) by (simp add: with_counter_def)
  show ?case
  proof (cases "p < 64")
    case True
    then show ?thesis using len by (simp add: nth_append)
  next
    case False
    then have "keystream (Suc n) (with_counter m j) ! p = keystream n (with_counter (Suc m) j) ! (p - 64)"
      using len Suc.prems(1) by (simp add: nth_append next_with_counter)
    also have "\<dots> = bytes_of_words (keystream_block (with_counter (Suc m + (p - 64) div 64) j)) ! ((p - 64) mod 64)"
      using Suc.prems False by (intro Suc.IH) auto
    also have "Suc m + (p - 64) div 64 = m + p div 64" using False by (simp add: le_div_geq)
    also have "(p - 64) mod 64 = p mod 64" using False by (simp add: le_mod_geq)
    finally show ?thesis .
  qed
qed simp

lemma bytes_of_words_nth:
  "q < 4 * length ws \<Longrightarrow> bytes_of_words ws ! q = of_nat (unat (ws ! (q div 4)) div 256 ^ (q mod 4))"
proof (induction ws arbitrary: q)
  case (Cons w ws)
  show ?case
  proof (cases "q < 4")
    case True
    then show ?thesis
      by (simp add: bytes_of_words_def nth_append pod_bytes_def le_bytes_bit drop_bit_eq_div power_mult)
  next
    case False
    then have "bytes_of_words (w # ws) ! q = bytes_of_words ws ! (q - 4)"
      by (simp add: bytes_of_words_def nth_append)
    also have "\<dots> = of_nat (unat (ws ! ((q - 4) div 4)) div 256 ^ ((q - 4) mod 4))"
      using False Cons.prems by (intro Cons.IH) simp
    also have "ws ! ((q - 4) div 4) = (w # ws) ! (q div 4)" using False by (simp add: le_div_geq)
    also have "(q - 4) mod 4 = q mod 4" using False by (simp add: le_mod_geq)
    finally show ?thesis .
  qed
qed simp

lemma pad_byte:
  assumes "p < n"
  shows "pad_bytes n key iv ! p = chacha_byte key iv p"
proof -
  let ?j = "chacha8_start key iv"
  have "?j = with_counter 0 ?j"
    unfolding with_counter_def chacha8_start_def by (subst set_counter) (simp_all add: sigma_def)
  then have "pad_bytes n key iv ! p = keystream n (with_counter 0 ?j) ! p"
    using assms by (simp add: pad_bytes_def)
  also have "\<dots> = bytes_of_words (keystream_block (start_matrix key iv (p div 64))) ! (p mod 64)"
    using keystream_nth [of ?j p n 0] assms by (simp add: counter_start)
  also have "keystream_block (start_matrix key iv (p div 64)) = chacha_block key iv (p div 64)"
    unfolding chacha_block_def by (rule keystream_block_eq) (simp add: start_matrix_def)
  moreover have "length (keystream_block (start_matrix key iv (p div 64))) = 16" by (simp add: start_matrix_def)
  ultimately show ?thesis by (simp add: chacha_byte_def bytes_of_words_nth mod_mod_cancel)
qed

section \<open>Properties\<close>

text \<open>
  C39. The cipher is ChaCha with eight rounds: byte \<open>p\<close> of the cipher text is byte \<open>p\<close>
  of the data exclusive-or byte \<open>p mod 64\<close> of the block with number \<open>p div 64\<close>, as the definition of
  the cipher gives it, for every length and whatever the uninitialised part of the temporary buffer
  holds. So decryption is encryption with the same key and nonce.
\<close>

theorem chacha8_exact:
  "chacha8 tmp data key iv = map (\<lambda>p. data ! p XOR chacha_byte key iv p) [0 ..< length data]
    \<and> chacha8 tmp' (chacha8 tmp data key iv) key iv = data"
proof -
  have "chacha8 tmp data key iv = map (\<lambda>p. data ! p XOR chacha_byte key iv p) [0 ..< length data]"
    by (rule nth_equalityI) (simp_all add: chacha8_xor pad_byte xor.commute)
  then show ?thesis using chacha8_twice by blast
qed

end
