(* ===== verification/Transaction_Extra.thy ===== *)
theory Transaction_Extra
  imports CryptoNote_Serialization String_Tools ChaCha8
begin

text \<open>
  The extra field of a transaction: \<open>src/CryptoNoteCore/TransactionExtra.cpp\<close>. The parser
  returns its success flag together with the fields it has read, because callers such as
  \<open>getTransactionPublicKeyFromExtra\<close> use the fields also after a failure. Key derivation and the
  hash function are arguments of the message cipher.
\<close>

record TransactionExtraMergeMiningTag =
  mm_depth :: u64
  mm_merkleRoot :: Hash

datatype TransactionExtraField =
    ExPadding nat
  | ExPublicKey PublicKey
  | ExNonce "u8 list"
  | ExMergeMiningTag TransactionExtraMergeMiningTag
  | ExMessage "u8 list"
  | ExTTL u64

definition TX_EXTRA_PADDING_MAX_COUNT :: nat where "TX_EXTRA_PADDING_MAX_COUNT = 255"
definition TX_EXTRA_NONCE_MAX_COUNT :: nat where "TX_EXTRA_NONCE_MAX_COUNT = 255"
definition TX_EXTRA_TAG_PADDING :: u8 where "TX_EXTRA_TAG_PADDING = 0x00"
definition TX_EXTRA_TAG_PUBKEY :: u8 where "TX_EXTRA_TAG_PUBKEY = 0x01"
definition TX_EXTRA_NONCE :: u8 where "TX_EXTRA_NONCE = 0x02"
definition TX_EXTRA_MERGE_MINING_TAG :: u8 where "TX_EXTRA_MERGE_MINING_TAG = 0x03"
definition TX_EXTRA_MESSAGE_TAG :: u8 where "TX_EXTRA_MESSAGE_TAG = 0x04"
definition TX_EXTRA_TTL :: u8 where "TX_EXTRA_TTL = 0x05"
definition TX_EXTRA_NONCE_PAYMENT_ID :: u8 where "TX_EXTRA_NONCE_PAYMENT_ID = 0x00"

lemmas extra_tags = TX_EXTRA_TAG_PADDING_def TX_EXTRA_TAG_PUBKEY_def TX_EXTRA_NONCE_def
  TX_EXTRA_MERGE_MINING_TAG_def TX_EXTRA_MESSAGE_TAG_def TX_EXTRA_TTL_def

section \<open>Serialization of the merge mining tag\<close>

definition doSerialize_out :: "TransactionExtraMergeMiningTag \<Rightarrow> written" where
  "doSerialize_out tag = then_write (out_uint (mm_depth tag)) (out_pod (mm_merkleRoot tag))"

definition doSerialize_in :: "u8 list \<Rightarrow> TransactionExtraMergeMiningTag read" where
  "doSerialize_in stream =
    then_read (in_uint stream) (\<lambda>depth rest.
    then_read (in_pod rest) (\<lambda>root rest. Inr (\<lparr>mm_depth = depth, mm_merkleRoot = root\<rparr>, rest)))"

definition out_MergeMiningTag :: "TransactionExtraMergeMiningTag \<Rightarrow> written" where
  "out_MergeMiningTag tag =
    (case doSerialize_out tag of Inl e \<Rightarrow> Inl e | Inr field \<Rightarrow> out_string field)"

definition in_MergeMiningTag :: "u8 list \<Rightarrow> TransactionExtraMergeMiningTag read" where
  "in_MergeMiningTag stream =
    then_read (in_string stream) (\<lambda>field rest.
      then_read (doSerialize_in field) (\<lambda>tag _. Inr (tag, rest)))"

section \<open>Parsing\<close>

text \<open>The padding loop: \<open>None\<close> is the return of false on a byte that is not zero.\<close>

fun padding_loop :: "nat \<Rightarrow> u8 list \<Rightarrow> (nat \<times> u8 list) option" where
  "padding_loop n [] = Some (n, [])"
| "padding_loop n (b # iss) =
    (if n \<le> TX_EXTRA_PADDING_MAX_COUNT
     then if b \<noteq> 0 then None else padding_loop (n + 1) iss
     else Some (n, b # iss))"

definition in_nonce :: "u8 list \<Rightarrow> u8 list read" where
  "in_nonce iss =
    then_read (in_pod iss) (\<lambda>n rest.
      if 0 < (n :: u8) then read_bytes (unat n) rest else Inr ([], rest))"

definition in_ttl :: "u8 list \<Rightarrow> u64 read" where
  "in_ttl iss = then_read (in_uint iss) (\<lambda>n rest. let _ = (n :: u8) in in_uint rest)"

lemma padding_loop_shorter: "padding_loop n iss = Some (m, rest) \<Longrightarrow> length rest \<le> length iss"
  by (induction n iss rule: padding_loop.induct) (auto split: if_splits)

lemma in_nonce_shorter: "in_nonce iss = Inr (x, rest) \<Longrightarrow> length rest \<le> length iss"
  by (auto simp: in_nonce_def serial_iff in_pod_tag read_bytes_eq_Inr split: if_splits)

lemma in_ttl_shorter: "in_ttl iss = Inr (x, rest) \<Longrightarrow> length rest \<le> length iss"
  by (auto simp: in_ttl_def serial_iff u8_codec.dec_iff u64_codec.dec_iff)

lemma in_hash_shorter: "in_pod iss = Inr (x :: Hash, rest) \<Longrightarrow> length rest \<le> length iss"
  by (auto simp: hash_codec.dec_iff)

lemma in_string_shorter: "in_string iss = Inr (x, rest) \<Longrightarrow> length rest \<le> length iss"
  by (auto simp: string_codec.dec_iff)

lemma in_MergeMiningTag_shorter: "in_MergeMiningTag iss = Inr (x, rest) \<Longrightarrow> length rest \<le> length iss"
  by (auto simp: in_MergeMiningTag_def serial_iff string_codec.dec_iff)

lemmas shorter = padding_loop_shorter in_nonce_shorter in_ttl_shorter in_hash_shorter in_string_shorter
  in_MergeMiningTag_shorter

function parse_loop ::
    "TransactionExtraField list \<Rightarrow> u8 list \<Rightarrow> bool \<times> TransactionExtraField list" where
  "parse_loop parsed [] = (True, parsed)"
| "parse_loop parsed (c # iss) =
    (if c = TX_EXTRA_TAG_PADDING then
       (case padding_loop 1 iss of
          None \<Rightarrow> (False, parsed)
        | Some (n, rest) \<Rightarrow>
            if TX_EXTRA_PADDING_MAX_COUNT < n then (False, parsed)
            else parse_loop (parsed @ [ExPadding n]) rest)
     else if c = TX_EXTRA_TAG_PUBKEY then
       (case in_pod iss of
          Inl _ \<Rightarrow> (False, parsed)
        | Inr (publicKey, rest) \<Rightarrow> parse_loop (parsed @ [ExPublicKey publicKey]) rest)
     else if c = TX_EXTRA_NONCE then
       (case in_nonce iss of
          Inl _ \<Rightarrow> (False, parsed)
        | Inr (nonce, rest) \<Rightarrow> parse_loop (parsed @ [ExNonce nonce]) rest)
     else if c = TX_EXTRA_MERGE_MINING_TAG then
       (case in_MergeMiningTag iss of
          Inl _ \<Rightarrow> (False, parsed)
        | Inr (mmTag, rest) \<Rightarrow> parse_loop (parsed @ [ExMergeMiningTag mmTag]) rest)
     else if c = TX_EXTRA_MESSAGE_TAG then
       (case in_string iss of
          Inl _ \<Rightarrow> (False, parsed)
        | Inr (message, rest) \<Rightarrow> parse_loop (parsed @ [ExMessage message]) rest)
     else if c = TX_EXTRA_TTL then
       (case in_ttl iss of
          Inl _ \<Rightarrow> (False, parsed)
        | Inr (ttl, rest) \<Rightarrow> parse_loop (parsed @ [ExTTL ttl]) rest)
     else parse_loop parsed iss)"
  by pat_completeness auto
termination
  by (relation "measure (\<lambda>(_, iss). length iss)") (auto dest!: shorter)

declare parse_loop.simps(2) [simp del]

definition parseTransactionExtra :: "u8 list \<Rightarrow> bool \<times> TransactionExtraField list" where
  "parseTransactionExtra transactionExtra =
    (if transactionExtra = [] then (True, []) else parse_loop [] transactionExtra)"

section \<open>Writing\<close>

definition addTransactionPublicKeyToExtra :: "u8 list \<Rightarrow> PublicKey \<Rightarrow> bool \<times> u8 list" where
  "addTransactionPublicKeyToExtra tx_extra tx_pub_key =
    (True, tx_extra @ [TX_EXTRA_TAG_PUBKEY] @ pod_bytes tx_pub_key)"

definition addExtraNonceToTransactionExtra :: "u8 list \<Rightarrow> u8 list \<Rightarrow> bool \<times> u8 list" where
  "addExtraNonceToTransactionExtra tx_extra extra_nonce =
    (if TX_EXTRA_NONCE_MAX_COUNT < length extra_nonce then (False, tx_extra)
     else (True, tx_extra @ [TX_EXTRA_NONCE, of_nat (length extra_nonce)] @ extra_nonce))"

definition appendMergeMiningTagToExtra ::
    "u8 list \<Rightarrow> TransactionExtraMergeMiningTag \<Rightarrow> bool \<times> u8 list" where
  "appendMergeMiningTagToExtra tx_extra mm_tag =
    (case toBinaryArray out_MergeMiningTag mm_tag of
       None \<Rightarrow> (False, tx_extra)
     | Some blob \<Rightarrow> (True, tx_extra @ [TX_EXTRA_MERGE_MINING_TAG] @ blob))"

definition append_message_to_extra :: "u8 list \<Rightarrow> u8 list \<Rightarrow> bool \<times> u8 list" where
  "append_message_to_extra tx_extra message =
    (case toBinaryArray out_string message of
       None \<Rightarrow> (False, tx_extra)
     | Some blob \<Rightarrow> (True, tx_extra @ [TX_EXTRA_MESSAGE_TAG] @ blob))"

definition appendTTLToExtra :: "u8 list \<Rightarrow> u64 \<Rightarrow> u8 list" where
  "appendTTLToExtra tx_extra ttl =
    (let ttlData = get_varint_data ttl;
         extraFieldSize = get_varint_data (of_nat (length ttlData))
     in tx_extra @ [TX_EXTRA_TTL] @ extraFieldSize @ ttlData)"

definition write_field :: "u8 list \<Rightarrow> TransactionExtraField \<Rightarrow> bool \<times> u8 list" where
  "write_field extra f = (case f of
      ExPadding n \<Rightarrow>
        if TX_EXTRA_PADDING_MAX_COUNT < n then (False, extra) else (True, extra @ replicate n 0)
    | ExPublicKey publicKey \<Rightarrow> addTransactionPublicKeyToExtra extra publicKey
    | ExNonce nonce \<Rightarrow> addExtraNonceToTransactionExtra extra nonce
    | ExMergeMiningTag t \<Rightarrow> appendMergeMiningTagToExtra extra t
    | ExMessage t \<Rightarrow> append_message_to_extra extra t
    | ExTTL ttl \<Rightarrow> (True, appendTTLToExtra extra ttl))"

fun writeTransactionExtra :: "u8 list \<Rightarrow> TransactionExtraField list \<Rightarrow> bool \<times> u8 list" where
  "writeTransactionExtra tx_extra [] = (True, tx_extra)"
| "writeTransactionExtra tx_extra (tag # tags) =
    (case write_field tx_extra tag of
       (False, extra) \<Rightarrow> (False, extra)
     | (True, extra) \<Rightarrow> writeTransactionExtra extra tags)"

section \<open>Looking up fields\<close>

text \<open>\<open>findTransactionExtraFieldByType\<close>: the first field of the wanted type.\<close>

fun find_public_key :: "TransactionExtraField list \<Rightarrow> PublicKey option" where
  "find_public_key [] = None"
| "find_public_key (f # fs) = (case f of ExPublicKey k \<Rightarrow> Some k | _ \<Rightarrow> find_public_key fs)"

fun find_nonce :: "TransactionExtraField list \<Rightarrow> u8 list option" where
  "find_nonce [] = None"
| "find_nonce (f # fs) = (case f of ExNonce n \<Rightarrow> Some n | _ \<Rightarrow> find_nonce fs)"

fun find_merge_mining_tag :: "TransactionExtraField list \<Rightarrow> TransactionExtraMergeMiningTag option" where
  "find_merge_mining_tag [] = None"
| "find_merge_mining_tag (f # fs) =
    (case f of ExMergeMiningTag t \<Rightarrow> Some t | _ \<Rightarrow> find_merge_mining_tag fs)"

definition getTransactionPublicKeyFromExtra :: "u8 list \<Rightarrow> PublicKey" where
  "getTransactionPublicKeyFromExtra tx_extra =
    (let (_, tx_extra_fields) = parseTransactionExtra tx_extra in
     case find_public_key tx_extra_fields of None \<Rightarrow> 0 | Some k \<Rightarrow> k)"

definition getMergeMiningTagFromExtra :: "u8 list \<Rightarrow> TransactionExtraMergeMiningTag option" where
  "getMergeMiningTagFromExtra tx_extra =
    (let (_, tx_extra_fields) = parseTransactionExtra tx_extra in find_merge_mining_tag tx_extra_fields)"

section \<open>Payment identifiers\<close>

definition setPaymentIdToTransactionExtraNonce :: "Hash \<Rightarrow> u8 list" where
  "setPaymentIdToTransactionExtraNonce payment_id = TX_EXTRA_NONCE_PAYMENT_ID # pod_bytes payment_id"

definition getPaymentIdFromTransactionExtraNonce :: "u8 list \<Rightarrow> Hash option" where
  "getPaymentIdFromTransactionExtraNonce extra_nonce =
    (if 32 + 1 \<noteq> length extra_nonce then None
     else if TX_EXTRA_NONCE_PAYMENT_ID \<noteq> extra_nonce ! 0 then None
     else Some (pod_of_bytes (tl extra_nonce)))"

definition parsePaymentId :: "string \<Rightarrow> Hash option" where
  "parsePaymentId paymentIdString = podFromHex paymentIdString"

definition createTxExtraWithPaymentId :: "string \<Rightarrow> u8 list \<Rightarrow> bool \<times> u8 list" where
  "createTxExtraWithPaymentId paymentIdString extra =
    (case parsePaymentId paymentIdString of
       None \<Rightarrow> (False, extra)
     | Some paymentIdBin \<Rightarrow>
         addExtraNonceToTransactionExtra extra (setPaymentIdToTransactionExtraNonce paymentIdBin))"

definition getPaymentIdFromTxExtra :: "u8 list \<Rightarrow> Hash option" where
  "getPaymentIdFromTxExtra extra =
    (let (ok, tx_extra_fields) = parseTransactionExtra extra in
     if \<not> ok then None
     else case find_nonce tx_extra_fields of
         None \<Rightarrow> None
       | Some nonce \<Rightarrow> getPaymentIdFromTransactionExtraNonce nonce)"

definition addPaymentIdToExtra :: "string \<Rightarrow> u8 list \<Rightarrow> bool \<times> u8 list" where
  "addPaymentIdToExtra paymentId extra =
    (case createTxExtraWithPaymentId paymentId [] of
       (False, _) \<Rightarrow> (False, extra)
     | (True, extraVector) \<Rightarrow> (True, extra @ extraVector))"

section \<open>Encrypted messages\<close>

definition TX_EXTRA_MESSAGE_CHECKSUM_SIZE :: nat where "TX_EXTRA_MESSAGE_CHECKSUM_SIZE = 4"

definition message_key_data :: "KeyDerivation \<Rightarrow> u8 list" where
  "message_key_data derivation = pod_bytes derivation @ [0x80, 0]"

definition message_cipher ::
    "(u8 list \<Rightarrow> Hash) \<Rightarrow> (nat \<Rightarrow> u8) \<Rightarrow> u64 \<Rightarrow> KeyDerivation \<Rightarrow> u8 list \<Rightarrow> u8 list" where
  "message_cipher cn_fast_hash tmp index derivation buf =
    (let h = cn_fast_hash (message_key_data derivation)
     in chacha8 tmp buf (pod_bytes h) (pod_bytes index))"

definition encrypt ::
    "(u8 list \<Rightarrow> Hash) \<Rightarrow> (PublicKey \<Rightarrow> SecretKey \<Rightarrow> KeyDerivation option) \<Rightarrow> (nat \<Rightarrow> u8) \<Rightarrow> u64 \<Rightarrow>
      u8 list \<Rightarrow> AccountPublicAddress option \<Rightarrow> KeyPair \<Rightarrow> u8 list option" where
  "encrypt cn_fast_hash generate_key_derivation tmp index message recipient txkey =
    (let buf = message @ replicate TX_EXTRA_MESSAGE_CHECKSUM_SIZE 0 in
     case recipient of
       None \<Rightarrow> Some buf
     | Some r \<Rightarrow>
         (case generate_key_derivation (aa_spendPublicKey r) (kp_secretKey txkey) of
            None \<Rightarrow> None
          | Some derivation \<Rightarrow> Some (message_cipher cn_fast_hash tmp index derivation buf)))"

definition decrypt ::
    "(u8 list \<Rightarrow> Hash) \<Rightarrow> (PublicKey \<Rightarrow> SecretKey \<Rightarrow> KeyDerivation option) \<Rightarrow> (nat \<Rightarrow> u8) \<Rightarrow> u64 \<Rightarrow>
      PublicKey \<Rightarrow> SecretKey option \<Rightarrow> u8 list \<Rightarrow> u8 list option" where
  "decrypt cn_fast_hash generate_key_derivation tmp index txkey recepient_secret_key data =
    (let mlen = length data in
     if mlen < TX_EXTRA_MESSAGE_CHECKSUM_SIZE then None
     else
       case (case recepient_secret_key of
               None \<Rightarrow> Some data
             | Some secret \<Rightarrow>
                 (case generate_key_derivation txkey secret of
                    None \<Rightarrow> None
                  | Some derivation \<Rightarrow> Some (message_cipher cn_fast_hash tmp index derivation data))) of
         None \<Rightarrow> None
       | Some buf \<Rightarrow>
           let mlen = mlen - TX_EXTRA_MESSAGE_CHECKSUM_SIZE in
           if list_ex (\<lambda>b. b \<noteq> 0) (take TX_EXTRA_MESSAGE_CHECKSUM_SIZE (drop mlen buf)) then None
           else Some (take mlen buf))"

text \<open>The loop of \<open>get_messages_from_extra\<close>: only messages advance the index.\<close>

fun messages_loop :: "(u64 \<Rightarrow> u8 list \<Rightarrow> u8 list option) \<Rightarrow> u64 \<Rightarrow> TransactionExtraField list \<Rightarrow> u8 list list" where
  "messages_loop decr i [] = []"
| "messages_loop decr i (f # fs) =
    (case f of
       ExMessage m \<Rightarrow>
         (case decr i m of
            None \<Rightarrow> messages_loop decr (i + 1) fs
          | Some res \<Rightarrow> res # messages_loop decr (i + 1) fs)
     | _ \<Rightarrow> messages_loop decr i fs)"

definition get_messages_from_extra ::
    "(u8 list \<Rightarrow> Hash) \<Rightarrow> (PublicKey \<Rightarrow> SecretKey \<Rightarrow> KeyDerivation option) \<Rightarrow> (nat \<Rightarrow> u8) \<Rightarrow>
      u8 list \<Rightarrow> PublicKey \<Rightarrow> SecretKey option \<Rightarrow> u8 list list" where
  "get_messages_from_extra cn_fast_hash generate_key_derivation tmp extra txkey recepient_secret_key =
    (case parseTransactionExtra extra of
       (False, _) \<Rightarrow> []
     | (True, tx_extra_fields) \<Rightarrow>
         messages_loop (\<lambda>i. decrypt cn_fast_hash generate_key_derivation tmp i txkey recepient_secret_key)
           0 tx_extra_fields)"

section \<open>Reading back what is written\<close>

lemma length_varint_bytes: "n < 128 ^ Suc k \<Longrightarrow> length (varint_bytes n) \<le> Suc k"
proof (induction k arbitrary: n)
  case 0
  then show ?case by (simp add: varint_bytes_small)
next
  case (Suc k)
  show ?case
  proof (cases "n < 128")
    case False
    have "n div 128 < 128 ^ Suc k" using Suc.prems by (simp add: less_mult_imp_div_less)
    then show ?thesis using Suc.IH False by (simp add: varint_bytes_large)
  qed (simp add: varint_bytes_small)
qed

lemma length_write_varint: "length (write_varint v) \<le> 10"
proof -
  have "unat v < 128 ^ Suc 9" using unat_le_max [of v] by simp
  then show ?thesis using length_varint_bytes [of "unat v" 9] by (simp add: write_varint_eq)
qed

interpretation merge_mining_codec: byte_codec doSerialize_out doSerialize_in "\<lambda>_. True"
proof
  fix stream rest x
  show "doSerialize_in stream = Inr (x, rest)
      \<longleftrightarrow> True \<and> (\<exists>bs. doSerialize_out x = Inr bs \<and> stream = bs @ rest)"
    by (cases x) (auto simp: doSerialize_in_def doSerialize_out_def serial_iff scalar_iff)
qed (simp add: doSerialize_out_def out_uint_def out_pod_def write_bytes_def)

lemma merge_mining_field:
  obtains blob where "toBinaryArray out_MergeMiningTag t = Some blob"
    and "\<And>rest. in_MergeMiningTag (blob @ rest) = Inr (t, rest)"
proof -
  obtain f where f: "doSerialize_out t = Inr f" using merge_mining_codec.enc_ok by blast
  have "length f \<le> 134217728"
    using f length_write_varint [of "mm_depth t"]
    by (auto simp: doSerialize_out_def out_uint_def out_pod_def write_bytes_def writeVarint_eq write_varint_eq)
  then obtain blob where b: "out_string f = Inr blob" and r: "\<And>rest. in_string (blob @ rest) = Inr (f, rest)"
    using string_codec.round_trip by metis
  have "doSerialize_in f = Inr (t, [])" using f merge_mining_codec.dec_iff by auto
  then have "in_MergeMiningTag (blob @ rest) = Inr (t, rest)" for rest
    by (simp add: in_MergeMiningTag_def r)
  with b f show ?thesis
    by (intro that) (simp_all add: toBinaryArray_def out_MergeMiningTag_def)
qed

text \<open>Fields that are written so that more fields may follow: everything but padding.\<close>

definition ok_field :: "TransactionExtraField \<Rightarrow> bool" where
  "ok_field f = (case f of ExPadding _ \<Rightarrow> False | ExNonce n \<Rightarrow> length n \<le> 255
    | ExMessage m \<Rightarrow> length m \<le> 134217728 | _ \<Rightarrow> True)"

lemma nonce_field:
  assumes "length n \<le> 255"
  shows "in_nonce (of_nat (length n) # n @ rest) = Inr (n, rest)"
proof -
  have "unat (of_nat (length n) :: u8) = length n" by (rule unat_of_nat_less) (use assms in simp)
  moreover from this have "(0 :: u8) < of_nat (length n) \<longleftrightarrow> n \<noteq> []" by (auto simp: word_less_nat_alt)
  ultimately show ?thesis by (auto simp: in_nonce_def read_bytes_eq)
qed

lemma ttl_field:
  "in_ttl (get_varint_data (of_nat (length (get_varint_data ttl))) @ get_varint_data ttl @ rest)
    = Inr (ttl, rest)"
proof -
  define n where "n = length (get_varint_data ttl)"
  have n: "n \<le> 10" using length_write_varint by (simp add: n_def get_varint_data_def)
  have "unat (of_nat n :: u64) = n" by (rule unat_of_nat_less) (use n in simp)
  then have "in_uint (get_varint_data (of_nat n) @ xs) = Inr (of_nat n :: u8, xs)" for xs
    using readVarint_writes [of n xs, where ?'a = 8] n
    by (simp add: in_uint_def get_varint_data_def write_varint_eq)
  moreover have "in_uint (get_varint_data ttl @ rest) = Inr (ttl, rest)"
    using readVarint_iff [of "get_varint_data ttl @ rest" ttl rest]
    by (simp add: in_uint_def get_varint_data_def write_varint_eq)
  ultimately show ?thesis by (simp add: in_ttl_def flip: n_def)
qed

lemma field_read_back:
  assumes "ok_field f"
  obtains bs where "\<And>extra. write_field extra f = (True, extra @ bs)"
    and "\<And>parsed rest. parse_loop parsed (bs @ rest) = parse_loop (parsed @ [f]) rest" and "bs \<noteq> []"
proof (cases f)
  case (ExPublicKey k)
  have "in_pod (pod_bytes k @ rest) = Inr (k, rest)" for rest
    by (simp add: hash_codec.dec_iff out_pod_def write_bytes_def)
  with ExPublicKey show ?thesis
    by (intro that [of "TX_EXTRA_TAG_PUBKEY # pod_bytes k"])
      (simp_all add: write_field_def addTransactionPublicKeyToExtra_def parse_loop.simps(2) extra_tags)
next
  case (ExNonce n)
  with assms have n: "length n \<le> 255" by (simp add: ok_field_def)
  with ExNonce show ?thesis
    by (intro that [of "TX_EXTRA_NONCE # of_nat (length n) # n"])
      (simp_all add: write_field_def addExtraNonceToTransactionExtra_def TX_EXTRA_NONCE_MAX_COUNT_def
        parse_loop.simps(2) extra_tags nonce_field)
next
  case (ExMergeMiningTag t)
  obtain blob where b: "toBinaryArray out_MergeMiningTag t = Some blob"
      "\<And>rest. in_MergeMiningTag (blob @ rest) = Inr (t, rest)"
    using merge_mining_field by blast
  with ExMergeMiningTag show ?thesis
    by (intro that [of "TX_EXTRA_MERGE_MINING_TAG # blob"])
      (simp_all add: write_field_def appendMergeMiningTagToExtra_def parse_loop.simps(2) extra_tags)
next
  case (ExMessage m)
  with assms have m: "length m \<le> 134217728" by (simp add: ok_field_def)
  then obtain blob where b: "out_string m = Inr blob" "\<And>rest. in_string (blob @ rest) = Inr (m, rest)"
    using string_codec.round_trip by metis
  with ExMessage show ?thesis
    by (intro that [of "TX_EXTRA_MESSAGE_TAG # blob"])
      (simp_all add: write_field_def append_message_to_extra_def toBinaryArray_def parse_loop.simps(2) extra_tags)
next
  case (ExTTL ttl)
  then show ?thesis
    by (intro that [of "TX_EXTRA_TTL # get_varint_data (of_nat (length (get_varint_data ttl)))
          @ get_varint_data ttl"])
      (simp_all add: write_field_def appendTTLToExtra_def Let_def parse_loop.simps(2) extra_tags ttl_field)
qed (use assms in \<open>simp add: ok_field_def\<close>)

lemma fields_read_back:
  assumes "list_all ok_field fs"
  obtains bs where "\<And>extra more. writeTransactionExtra extra (fs @ more) = writeTransactionExtra (extra @ bs) more"
    and "\<And>parsed rest. parse_loop parsed (bs @ rest) = parse_loop (parsed @ fs) rest"
    and "bs = [] \<Longrightarrow> fs = []"
  using assms
proof (induction fs arbitrary: thesis)
  case Nil
  show ?case by (rule Nil(1) [of "[]"]) simp_all
next
  case (Cons f fs)
  obtain a where a: "\<And>extra. write_field extra f = (True, extra @ a)"
      "\<And>parsed rest. parse_loop parsed (a @ rest) = parse_loop (parsed @ [f]) rest" "a \<noteq> []"
    by (rule field_read_back [of f]) (use Cons.prems(2) in auto)
  obtain b where b: "\<And>extra more. writeTransactionExtra extra (fs @ more) = writeTransactionExtra (extra @ b) more"
      "\<And>parsed rest. parse_loop parsed (b @ rest) = parse_loop (parsed @ fs) rest"
    by (rule Cons.IH) (use Cons.prems(2) in auto)
  show ?case by (rule Cons.prems(1) [of "a @ b"]) (simp_all add: a b)
qed

lemma padding_zeros: "n + k \<le> 256 \<Longrightarrow> padding_loop n (replicate k 0) = Some (n + k, [])"
  by (induction k arbitrary: n) (simp_all add: TX_EXTRA_PADDING_MAX_COUNT_def)

lemma padding_read_back:
  assumes "0 < n" and "n \<le> 255"
  shows "parse_loop parsed (replicate n 0) = (True, parsed @ [ExPadding n])"
proof (cases n)
  case (Suc m)
  then show ?thesis
    using assms padding_zeros [of 1 m]
    by (simp add: parse_loop.simps(2) extra_tags TX_EXTRA_PADDING_MAX_COUNT_def)
qed (use assms in simp)

lemma written_fields_parse:
  assumes "list_all ok_field fs" and "n \<le> 255"
  defines "tags \<equiv> fs @ (if n = 0 then [] else [ExPadding n])"
  shows "\<exists>ba. writeTransactionExtra [] tags = (True, ba) \<and> parseTransactionExtra ba = (True, tags)"
proof -
  obtain bs where bs: "\<And>extra more. writeTransactionExtra extra (fs @ more) = writeTransactionExtra (extra @ bs) more"
      "\<And>parsed rest. parse_loop parsed (bs @ rest) = parse_loop (parsed @ fs) rest" "bs = [] \<Longrightarrow> fs = []"
    using fields_read_back [OF assms(1)] by blast
  show ?thesis
  proof (cases "n = 0")
    case True
    then show ?thesis
      using bs(1) [of "[]" "[]"] bs(2) [of "[]" "[]"] bs(3)
      by (auto simp: tags_def parseTransactionExtra_def)
  next
    case False
    then show ?thesis
      using bs(1) [of "[]" "[ExPadding n]"] bs(2) [of "[]" "replicate n 0"] assms(2) padding_read_back [of n fs]
      by (auto simp: tags_def parseTransactionExtra_def write_field_def TX_EXTRA_PADDING_MAX_COUNT_def)
  qed
qed

lemma payment_nonce: "getPaymentIdFromTransactionExtraNonce (setPaymentIdToTransactionExtraNonce h) = Some h"
  using pod_of_pod_bytes [of h]
  by (simp add: getPaymentIdFromTransactionExtraNonce_def setPaymentIdToTransactionExtraNonce_def)

lemma find_nonce_append:
  "list_all (\<lambda>f. case f of ExNonce _ \<Rightarrow> False | _ \<Rightarrow> True) fs \<Longrightarrow> find_nonce (fs @ ExNonce n # gs) = Some n"
  by (induction fs) (auto split: TransactionExtraField.splits)

lemma createTxExtra_eq:
  "createTxExtraWithPaymentId (podToHex h) extra
    = write_field extra (ExNonce (setPaymentIdToTransactionExtraNonce h))"
  by (simp add: createTxExtraWithPaymentId_def parsePaymentId_def podFromHex_podToHex write_field_def)

lemma decrypt_padded:
  "length buf = length message + 4 \<Longrightarrow> buf = message @ replicate 4 0 \<Longrightarrow>
    \<not> list_ex (\<lambda>b. b \<noteq> 0) (take 4 (drop (length message) buf)) \<and> take (length message) buf = message"
  by (simp add: list_ex_iff)

section \<open>Properties\<close>

text \<open>
  C40. Fields written to an empty extra field parse back as the same fields, in
  order, when every nonce has at most 255 bytes, every message fits the format and padding, of 1 to
  255 bytes, comes last. In particular writing such fields succeeds.
\<close>

theorem extra_round_trip:
  assumes "list_all ok_field fs" and "n \<le> 255"
  shows "\<exists>ba. writeTransactionExtra [] (fs @ (if n = 0 then [] else [ExPadding n])) = (True, ba)
    \<and> parseTransactionExtra ba = (True, fs @ (if n = 0 then [] else [ExPadding n]))"
  using assms by (rule written_fields_parse)

theorem extra_round_trip_witness:
  "\<exists>ba. writeTransactionExtra [] [ExPublicKey 7, ExTTL 300, ExNonce [1, 2], ExPadding 3] = (True, ba)
    \<and> parseTransactionExtra ba = (True, [ExPublicKey 7, ExTTL 300, ExNonce [1, 2], ExPadding 3])"
  using extra_round_trip [of "[ExPublicKey 7, ExTTL 300, ExNonce [1, 2]]" 3] by (simp add: ok_field_def)

text \<open>
  The payment identifier added, as hexadecimal text, to an extra field of
  a public key is found again, and the public key is still found.
\<close>

theorem payment_id_round_trip:
  "\<exists>extra extra'. addTransactionPublicKeyToExtra [] k = (True, extra)
    \<and> createTxExtraWithPaymentId (podToHex h) extra = (True, extra')
    \<and> getPaymentIdFromTxExtra extra' = Some h \<and> getTransactionPublicKeyFromExtra extra' = k"
proof -
  let ?fs = "[ExPublicKey k, ExNonce (setPaymentIdToTransactionExtraNonce h)]"
  have "list_all ok_field ?fs"
    by (simp add: ok_field_def setPaymentIdToTransactionExtraNonce_def)
  then obtain ba where w: "writeTransactionExtra [] ?fs = (True, ba)" and p: "parseTransactionExtra ba = (True, ?fs)"
    using written_fields_parse [of ?fs 0] by auto
  obtain extra where e: "addTransactionPublicKeyToExtra [] k = (True, extra)"
      and "createTxExtraWithPaymentId (podToHex h) extra = (True, ba)"
    using w by (auto simp: createTxExtra_eq write_field_def addTransactionPublicKeyToExtra_def
        split: bool.splits prod.splits)
  moreover have "getPaymentIdFromTxExtra ba = Some h" and "getTransactionPublicKeyFromExtra ba = k"
    by (simp_all add: getPaymentIdFromTxExtra_def getTransactionPublicKeyFromExtra_def p payment_nonce)
  ultimately show ?thesis by blast
qed

text \<open>
  A message encrypted for a recipient is decrypted to the same text by
  whoever derives the same secret, and a message without recipient is read back by anybody. The
  derivation itself is an argument; the hypothesis is that both sides derive the same secret.
\<close>

theorem message_round_trip:
  assumes "generate_key_derivation (aa_spendPublicKey r) (kp_secretKey txkey) = Some d"
    and "generate_key_derivation (kp_publicKey txkey) secret = Some d"
  shows "(\<exists>data. encrypt cn_fast_hash generate_key_derivation tmp index message (Some r) txkey = Some data
      \<and> decrypt cn_fast_hash generate_key_derivation tmp' index (kp_publicKey txkey) (Some secret) data
        = Some message)
    \<and> (\<exists>data. encrypt cn_fast_hash generate_key_derivation tmp index message None txkey = Some data
      \<and> decrypt cn_fast_hash generate_key_derivation tmp' index (kp_publicKey txkey) None data = Some message)"
  using assms
  by (simp add: encrypt_def decrypt_def TX_EXTRA_MESSAGE_CHECKSUM_SIZE_def message_cipher_def Let_def
      chacha8_twice list_ex_iff)

theorem message_round_trip_witness:
  "\<exists>data. encrypt (\<lambda>bs. pod_of_bytes bs) (\<lambda>p s. Some (p * s)) (\<lambda>_. 0) 1 [72, 105]
      (Some \<lparr>aa_spendPublicKey = 5, aa_viewPublicKey = 6\<rparr>) \<lparr>kp_publicKey = 3, kp_secretKey = 3\<rparr> = Some data
    \<and> decrypt (\<lambda>bs. pod_of_bytes bs) (\<lambda>p s. Some (p * s)) (\<lambda>_. 9) 1 3 (Some 5) data = Some [72, 105]"
  using message_round_trip [of "\<lambda>p s. Some (p * s)" "\<lparr>aa_spendPublicKey = 5, aa_viewPublicKey = 6\<rparr>"
      "\<lparr>kp_publicKey = 3, kp_secretKey = 3\<rparr>" 15 5 "\<lambda>bs. pod_of_bytes bs" "\<lambda>_. 0" 1 "[72, 105]" "\<lambda>_. 9"]
  by simp

end
