(* ===== verification/Tree_Hash.thy ===== *)
theory Tree_Hash
  imports Bytes
begin

text \<open>
  The Merkle tree of \<open>src/crypto/tree-hash.c\<close>. The hash function \<open>cn_fast_hash\<close> is an argument;
  an array of hashes is a list, updated in place where the source does. Counts are 64-bit words
  where the source computes with their bits, and natural numbers otherwise; a failed assertion is
  \<open>None\<close>.
\<close>

definition hash_pair :: "(u8 list \<Rightarrow> Hash) \<Rightarrow> Hash \<Rightarrow> Hash \<Rightarrow> Hash" where
  "hash_pair H a b = H (pod_bytes a @ pod_bytes b)"

text \<open>The greatest power of two below the count: the bits of \<open>count - 1\<close> are smeared downwards.\<close>

definition tree_cnt :: "u64 \<Rightarrow> u64" where
  "tree_cnt num_hashes =
    (let cnt = foldl (\<lambda>cnt i. cnt OR drop_bit i cnt) (num_hashes - 1) [1, 2, 4, 8, 16, 32]
     in cnt AND NOT (drop_bit 1 cnt))"

text \<open>The leaves of the lowest full level: some hashes copied, then hashes of pairs.\<close>

fun hash_pairs :: "(u8 list \<Rightarrow> Hash) \<Rightarrow> Hash list \<Rightarrow> nat \<Rightarrow> nat \<Rightarrow> Hash list" where
  "hash_pairs H hashes i 0 = []"
| "hash_pairs H hashes i (Suc n) =
    hash_pair H (hashes ! i) (hashes ! (i + 1)) # hash_pairs H hashes (i + 2) n"

text \<open>The inner loops \<open>ints[j] = cn_fast_hash(ints[i])\<close> for \<open>i = 2 * j + from\<close>, in place.\<close>

fun hash_level :: "(u8 list \<Rightarrow> Hash) \<Rightarrow> nat \<Rightarrow> nat list \<Rightarrow> Hash list \<Rightarrow> Hash list" where
  "hash_level H start [] ints = ints"
| "hash_level H start (j # js) ints =
    hash_level H start js
      (ints[j := hash_pair H (ints ! (2 * j + start)) (ints ! (2 * j + start + 1))])"

function tree_loop :: "(u8 list \<Rightarrow> Hash) \<Rightarrow> nat \<Rightarrow> Hash list \<Rightarrow> Hash" where
  "tree_loop H cnt ints =
    (if 2 < cnt then let cnt = cnt div 2 in tree_loop H cnt (hash_level H 0 [0 ..< cnt] ints)
     else hash_pair H (ints ! 0) (ints ! 1))"
  by pat_completeness auto
termination
  by (relation "measure (\<lambda>(H, cnt, ints). cnt)") auto

declare tree_loop.simps [simp del]

definition tree_hash :: "(u8 list \<Rightarrow> Hash) \<Rightarrow> Hash list \<Rightarrow> Hash option" where
  "tree_hash H hashes =
    (let num_hashes = length hashes in
     if num_hashes = 0 then None
     else if num_hashes = 1 then Some (hashes ! 0)
     else if num_hashes = 2 then Some (hash_pair H (hashes ! 0) (hashes ! 1))
     else
       let cnt = unat (tree_cnt (of_nat num_hashes));
           copied = 2 * cnt - num_hashes;
           ints = take copied hashes @ hash_pairs H hashes copied (cnt - copied)
       in if copied + 2 * (cnt - copied) \<noteq> num_hashes then None else Some (tree_loop H cnt ints))"

definition tree_depth :: "u64 \<Rightarrow> nat" where
  "tree_depth num_hashes =
    snd (foldl (\<lambda>(num_hashes, depth) i.
        if 0 < drop_bit i num_hashes then (drop_bit i num_hashes, depth + i) else (num_hashes, depth))
      (num_hashes, 0) [32, 16, 8, 4, 2, 1])"

definition branch_cnt :: "u64 \<Rightarrow> u64 \<times> nat" where
  "branch_cnt num_hashes =
    foldl (\<lambda>(cnt, depth) i.
        if push_bit i cnt \<le> num_hashes then (push_bit i cnt, depth + i) else (cnt, depth))
      (1, 0) [32, 16, 8, 4, 2, 1]"

text \<open>The loop over the levels; \<open>branch\<close> holds the entries already written.\<close>

fun branch_loop :: "(u8 list \<Rightarrow> Hash) \<Rightarrow> nat \<Rightarrow> nat \<Rightarrow> Hash list \<Rightarrow> Hash list \<Rightarrow> Hash list option" where
  "branch_loop H 0 cnt ints branch = Some branch"
| "branch_loop H (Suc depth) cnt ints branch =
    (if cnt \<noteq> 2 ^ Suc depth then None
     else
       let cnt = cnt div 2 in
       branch_loop H depth cnt (hash_level H 1 [0 ..< cnt - 1] ints) (ints ! 0 # branch))"

definition tree_branch :: "(u8 list \<Rightarrow> Hash) \<Rightarrow> Hash list \<Rightarrow> Hash list option" where
  "tree_branch H hashes =
    (let num_hashes = length hashes in
     if num_hashes = 0 then None
     else
       let (cnt_word, depth) = branch_cnt (of_nat num_hashes); cnt = unat cnt_word in
       if cnt \<noteq> 2 ^ depth then None
       else if depth \<noteq> tree_depth (of_nat num_hashes) then None
       else
         let copied = 2 * cnt - num_hashes - 1;
             ints = take copied (drop 1 hashes) @ hash_pairs H hashes (2 * cnt - num_hashes) (cnt - 1 - copied)
         in if 2 * cnt - num_hashes + 2 * (cnt - 1 - copied) \<noteq> num_hashes then None
            else branch_loop H depth cnt ints [])"

text \<open>\<open>path\<close> is null or an array of bits; the leaf side of each level is the first half unless the
  bit is set.\<close>

fun from_branch_loop ::
    "(u8 list \<Rightarrow> Hash) \<Rightarrow> Hash list \<Rightarrow> u8 list option \<Rightarrow> nat \<Rightarrow> bool \<Rightarrow> Hash \<Rightarrow> Hash \<times> Hash \<Rightarrow> Hash" where
  "from_branch_loop H branch path 0 from_leaf leaf buffer = hash_pair H (fst buffer) (snd buffer)"
| "from_branch_loop H branch path (Suc depth) from_leaf leaf buffer =
    (let right = (case path of None \<Rightarrow> False | Some p \<Rightarrow> bit (p ! (depth div 8)) (depth mod 8));
         node = (if from_leaf then leaf else hash_pair H (fst buffer) (snd buffer));
         sibling = branch ! depth
     in from_branch_loop H branch path depth False leaf
          (if right then (sibling, node) else (node, sibling)))"

definition tree_hash_from_branch ::
    "(u8 list \<Rightarrow> Hash) \<Rightarrow> Hash list \<Rightarrow> nat \<Rightarrow> Hash \<Rightarrow> u8 list option \<Rightarrow> Hash" where
  "tree_hash_from_branch H branch depth leaf path =
    (if depth = 0 then leaf else from_branch_loop H branch path depth True leaf (0, 0))"

section \<open>Powers of two from bits\<close>

lemma bit_smear:
  "bit (foldl (\<lambda>cnt i. cnt OR drop_bit i cnt) (x :: u64) [1, 2, 4, 8, 16, 32]) n
    \<longleftrightarrow> (\<exists>m. n \<le> m \<and> m < n + 64 \<and> bit x m)"
proof -
  have step: "bit (y OR drop_bit k y) n \<longleftrightarrow> (\<exists>m. n \<le> m \<and> m < n + 2 * k \<and> bit x m)"
    if "\<And>n. bit y n \<longleftrightarrow> (\<exists>m. n \<le> m \<and> m < n + k \<and> bit x m)" for y :: u64 and k n
  proof -
    have "(\<exists>m. n \<le> m \<and> m < n + 2 * k \<and> bit x m)
        \<longleftrightarrow> (\<exists>m. n \<le> m \<and> m < n + k \<and> bit x m) \<or> (\<exists>m. n + k \<le> m \<and> m < n + 2 * k \<and> bit x m)"
    proof (intro iffI; elim exE disjE conjE)
      fix m assume "n \<le> m" "m < n + 2 * k" "bit x m"
      then show "(\<exists>m. n \<le> m \<and> m < n + k \<and> bit x m) \<or> (\<exists>m. n + k \<le> m \<and> m < n + 2 * k \<and> bit x m)"
        by (cases "m < n + k") auto
    next
      fix m assume "n + k \<le> m" "m < n + 2 * k" "bit x m"
      then show "\<exists>m. n \<le> m \<and> m < n + 2 * k \<and> bit x m" by (intro exI [of _ m]) simp
    qed force
    then show ?thesis
      by (auto simp: bit_or_iff bit_drop_bit_eq that add.commute add.left_commute mult_2)
  qed
  have 0: "bit x n \<longleftrightarrow> (\<exists>m. n \<le> m \<and> m < n + 1 \<and> bit x m)" for n
    using le_antisym by (auto simp: less_Suc_eq_le)
  show ?thesis
    using step [OF step [OF step [OF step [OF step [OF step [OF 0]]]]]] by simp
qed

lemma bit_word_less: "unat (x :: u64) < 2 ^ k \<Longrightarrow> bit x m \<Longrightarrow> m < k"
proof (rule ccontr)
  assume "unat x < 2 ^ k" "bit x m" "\<not> m < k"
  then have "(2 :: nat) ^ k \<le> 2 ^ m" by (intro power_increasing) simp_all
  then have "unat x < 2 ^ m" using \<open>unat x < 2 ^ k\<close> by (rule less_le_trans [rotated])
  then have "unat x div 2 ^ m = 0" by simp
  then have "\<not> bit (unat x) m" by (simp add: bit_iff_odd)
  with \<open>bit x m\<close> show False by (simp add: bit_unsigned_iff)
qed

lemma highest_bit:
  assumes "2 ^ d \<le> unat (x :: u64)" and "unat x < 2 ^ Suc d" shows "bit x d"
proof -
  have "unat x div 2 ^ d = 1" using assms by (simp add: div_nat_eqI)
  then have "bit (unat x) d" by (simp add: bit_iff_odd)
  then show ?thesis by (simp add: bit_unsigned_iff)
qed

lemma unat_power_of_two: "d < 64 \<Longrightarrow> unat (2 ^ d :: u64) = 2 ^ d"
  using unat_of_nat_less [of "2 ^ d", where ?'a = 64] power_strict_increasing [of d 64 "2 :: nat"] by simp

lemma tree_cnt_power:
  assumes "2 ^ d < n" and "n \<le> 2 ^ Suc d" and "n < 2 ^ 64"
  shows "unat (tree_cnt (of_nat n)) = 2 ^ d"
proof -
  define x :: u64 where "x = of_nat n - 1"
  have un: "unat (of_nat n :: u64) = n" using assms(3) by (intro unat_of_nat_less) simp
  have x: "unat x = n - 1"
    using unat_sub_exact [of 1 "of_nat n :: u64"] un assms(1) by (simp add: x_def word_le_nat_alt)
  have "(2 :: nat) ^ d < 2 ^ 64" using assms by linarith
  then have d: "d < 64" by (rule power_less_imp_less_exp [rotated]) simp
  have top: "bit x d" using assms(1, 2) x by (intro highest_bit) simp_all
  have small: "unat x < 2 ^ Suc d" using assms(1, 2) x by simp
  have le: "m \<le> d" if "bit x m" for m using bit_word_less [OF small that] by simp
  define t where "t = foldl (\<lambda>cnt i. cnt OR drop_bit i cnt) x [1, 2, 4, 8, 16, 32]"
  have t: "bit t m \<longleftrightarrow> m \<le> d" for m
    unfolding t_def bit_smear using top le d by (auto intro: exI [of _ d] dest: le_trans)
  have "t AND NOT (drop_bit 1 t) = 2 ^ d"
    by (rule bit_word_eqI) (use d in \<open>auto simp: bit_simps t\<close>)
  then have "tree_cnt (of_nat n) = 2 ^ d" by (simp only: tree_cnt_def Let_def t_def x_def)
  with d show ?thesis by (simp only: unat_power_of_two)
qed

text \<open>Both searches halve the range of the exponent at each step.\<close>

definition depth_step :: "u64 \<times> nat \<Rightarrow> nat \<Rightarrow> u64 \<times> nat" where
  "depth_step = (\<lambda>(c, depth) i. if 0 < drop_bit i c then (drop_bit i c, depth + i) else (c, depth))"

definition branch_step :: "u64 \<Rightarrow> u64 \<times> nat \<Rightarrow> nat \<Rightarrow> u64 \<times> nat" where
  "branch_step n = (\<lambda>(cnt, depth) i.
    if push_bit i cnt \<le> n then (push_bit i cnt, depth + i) else (cnt, depth))"

definition depth_inv :: "u64 \<Rightarrow> nat \<Rightarrow> u64 \<times> nat \<Rightarrow> bool" where
  "depth_inv n i s \<longleftrightarrow> fst s = drop_bit (snd s) n \<and> 0 < unat (fst s) \<and> unat (fst s) < 2 ^ i"

definition branch_inv :: "u64 \<Rightarrow> nat \<Rightarrow> u64 \<times> nat \<Rightarrow> bool" where
  "branch_inv n i s \<longleftrightarrow> fst s = 2 ^ snd s \<and> snd s + i \<le> 64 \<and> 2 ^ snd s \<le> unat n
    \<and> unat n < 2 ^ (snd s + i)"

lemma depth_step_inv:
  assumes "depth_inv n (2 * i) s" shows "depth_inv n i (depth_step s i)"
proof -
  obtain c d where s: "s = (c, d)" by (cases s)
  have c: "c = drop_bit d n" "0 < unat c" "unat c < 2 ^ i * 2 ^ i"
    using assms unfolding depth_inv_def s by (auto simp: mult_2 power_add)
  show ?thesis
  proof (cases "0 < drop_bit i c")
    case True
    then have "0 < unat (drop_bit i c)" by (simp add: word_less_nat_alt)
    moreover have "unat (drop_bit i c) < 2 ^ i"
      using c(3) by (simp add: unat_drop_bit_nat less_mult_imp_div_less)
    ultimately show ?thesis using True c(1) by (simp add: depth_inv_def depth_step_def s add.commute)
  next
    case False
    then have "unat c div 2 ^ i = 0" by (simp add: word_gt_0 flip: unat_drop_bit_nat)
    then have "unat c < 2 ^ i" by (metis div_eq_0_iff power_not_zero zero_neq_numeral)
    with False c show ?thesis by (simp add: depth_inv_def depth_step_def s)
  qed
qed

lemma branch_step_inv:
  assumes "branch_inv n (2 * i) s" and "0 < i" shows "branch_inv n i (branch_step n s i)"
proof -
  obtain c d where s: "s = (c, d)" by (cases s)
  have c: "c = 2 ^ d" "d + 2 * i \<le> 64" "2 ^ d \<le> unat n" "unat n < 2 ^ (d + 2 * i)"
    using assms(1) by (simp_all add: branch_inv_def s)
  have p: "push_bit i c = 2 ^ (d + i)" by (simp add: c(1) push_bit_eq_mult power_add mult.commute)
  have u: "unat (2 ^ (d + i) :: u64) = 2 ^ (d + i)"
    by (rule unat_power_of_two) (use c(2) assms(2) in linarith)
  show ?thesis
  proof (cases "push_bit i c \<le> n")
    case True
    then have "2 ^ (d + i) \<le> unat n" using u by (simp add: p word_le_nat_alt)
    with True c p show ?thesis
      unfolding branch_inv_def branch_step_def s by (simp add: add.assoc mult_2 del: c(1))
  next
    case False
    then have "unat n < 2 ^ (d + i)" using u by (simp add: p word_le_nat_alt)
    with False c show ?thesis by (simp add: branch_inv_def branch_step_def s)
  qed
qed

lemma foldl_halving:
  assumes "P 64 s" and "\<And>i s. 0 < i \<Longrightarrow> P (2 * i) s \<Longrightarrow> P i (f s i)"
  shows "P 1 (foldl f s [32, 16, 8, 4, 2, 1 :: nat])"
proof -
  note st = assms(2)
  have "P 32 (f s 32)" using st [of 32] assms(1) by simp
  then have "P 16 (f (f s 32) 16)" using st [of 16] by simp
  then have "P 8 (f (f (f s 32) 16) 8)" using st [of 8] by simp
  then have "P 4 (f (f (f (f s 32) 16) 8) 4)" using st [of 4] by simp
  then have "P 2 (f (f (f (f (f s 32) 16) 8) 4) 2)" using st [of 2] by simp
  then have "P 1 (f (f (f (f (f (f s 32) 16) 8) 4) 2) 1)" using st [of 1] by simp
  then show ?thesis by simp
qed

lemma tree_depth_log:
  assumes "0 < unat n" shows "2 ^ tree_depth n \<le> unat n \<and> unat n < 2 ^ Suc (tree_depth n)"
proof -
  have "depth_inv n 64 (n, 0)" using assms unat_le_max [of n] by (simp add: depth_inv_def)
  then have "depth_inv n 1 (foldl depth_step (n, 0) [32, 16, 8, 4, 2, 1])"
    by (rule foldl_halving) (rule depth_step_inv)
  then have "depth_inv n 1 (fst (foldl depth_step (n, 0) [32, 16, 8, 4, 2, 1]), tree_depth n)"
    by (simp only: tree_depth_def depth_step_def prod.collapse)
  then have "0 < unat (drop_bit (tree_depth n) n)" "unat (drop_bit (tree_depth n) n) < 2"
    unfolding depth_inv_def fst_conv snd_conv power_one_right by metis+
  then have "unat (drop_bit (tree_depth n) n) = 1" by linarith
  then have "unat n div 2 ^ tree_depth n = 1" by (simp only: unat_drop_bit_nat)
  then have e: "unat n = 2 ^ tree_depth n + unat n mod 2 ^ tree_depth n"
    using div_mult_mod_eq [of "unat n" "2 ^ tree_depth n"] by simp
  have "unat n mod 2 ^ tree_depth n < 2 ^ tree_depth n" by simp
  with e show ?thesis unfolding power_Suc by linarith
qed

lemma branch_cnt_log:
  assumes "0 < unat n"
  obtains d where "branch_cnt n = (2 ^ d, d)" and "d < 64" and "2 ^ d \<le> unat n" and "unat n < 2 ^ Suc d"
proof -
  have "branch_inv n 64 (1, 0)" using assms unat_le_max [of n] by (simp add: branch_inv_def)
  then have "branch_inv n 1 (foldl (branch_step n) (1, 0) [32, 16, 8, 4, 2, 1])"
    by (rule foldl_halving) (rule branch_step_inv)
  moreover have "branch_cnt n = foldl (branch_step n) (1, 0) [32, 16, 8, 4, 2, 1]"
    by (simp only: branch_cnt_def branch_step_def)
  ultimately have "branch_inv n 1 (branch_cnt n)" by (simp only:)
  then show thesis by (intro that [of "snd (branch_cnt n)"]) (auto simp: branch_inv_def prod_eq_iff)
qed

lemma log_unique: "2 ^ d \<le> n \<Longrightarrow> n < 2 ^ Suc d \<Longrightarrow> 2 ^ e \<le> n \<Longrightarrow> n < 2 ^ Suc e \<Longrightarrow> d = (e :: nat)"
  for n :: nat
  by (metis le_less_trans less_Suc_eq_le linorder_neqE_nat not_less power_increasing_iff power_strict_increasing_iff
      one_less_numeral_iff semiring_norm(76) less_le_trans Suc_leI)

section \<open>Levels of the tree\<close>

definition pairs_of :: "(u8 list \<Rightarrow> Hash) \<Rightarrow> Hash list \<Rightarrow> Hash list" where
  "pairs_of H hs = map (\<lambda>j. hash_pair H (hs ! (2 * j)) (hs ! (2 * j + 1))) [0 ..< length hs div 2]"

text \<open>The root of a full tree: hash the pairs until one hash is left.\<close>

fun merkle_root :: "(u8 list \<Rightarrow> Hash) \<Rightarrow> nat \<Rightarrow> Hash list \<Rightarrow> Hash" where
  "merkle_root H 0 hs = hs ! 0"
| "merkle_root H (Suc d) hs = merkle_root H d (pairs_of H hs)"

text \<open>The lowest full level of a tree with \<open>length hashes\<close> leaves, of width \<open>cnt\<close>.\<close>

definition full_level :: "(u8 list \<Rightarrow> Hash) \<Rightarrow> nat \<Rightarrow> Hash list \<Rightarrow> Hash list" where
  "full_level H cnt hashes =
    (let copied = 2 * cnt - length hashes in take copied hashes @ hash_pairs H hashes copied (cnt - copied))"

lemma hash_pairs_eq:
  "hash_pairs H hs i n = map (\<lambda>j. hash_pair H (hs ! (i + 2 * j)) (hs ! (i + 2 * j + 1))) [0 ..< n]"
proof (induction n arbitrary: i)
  case (Suc n)
  show ?case
    by (simp only: hash_pairs.simps Suc.IH upt_conv_Cons [OF zero_less_Suc])
      (simp add: map_Suc_upt [symmetric] comp_def del: upt_Suc)
qed simp

lemma length_hash_pairs [simp]: "length (hash_pairs H hs i n) = n"
  by (simp add: hash_pairs_eq)

lemma hash_level_length [simp]: "length (hash_level H st js ints) = length ints"
  by (induction js arbitrary: ints) simp_all

lemma hash_level_nth:
  assumes "2 * m + st \<le> length ints"
  shows "take m (hash_level H st [0 ..< m] ints)
      = map (\<lambda>j. hash_pair H (ints ! (2 * j + st)) (ints ! (2 * j + st + 1))) [0 ..< m]"
proof -
  have split: "hash_level H st (js @ js') xs = hash_level H st js' (hash_level H st js xs)" for js js' xs
    by (induction js arbitrary: xs) simp_all
  have inv: "hash_level H st [0 ..< k] ints ! i =
      (if i < k then hash_pair H (ints ! (2 * i + st)) (ints ! (2 * i + st + 1)) else ints ! i)"
    if "k \<le> m" "i < length ints" for k i
    using that
  proof (induction k arbitrary: i)
    case (Suc k)
    let ?x = "hash_level H st [0 ..< k] ints"
    have "hash_level H st [0 ..< Suc k] ints = ?x[k := hash_pair H (?x ! (2 * k + st)) (?x ! (2 * k + st + 1))]"
      by (simp add: split)
    moreover have "?x ! (2 * k + st) = ints ! (2 * k + st)" "?x ! (2 * k + st + 1) = ints ! (2 * k + st + 1)"
      using Suc assms by auto
    ultimately show ?case using Suc assms by (auto simp: nth_list_update)
  qed simp
  have "m \<le> length ints" using assms by simp
  then show ?thesis using inv [of m] by (intro nth_equalityI) auto
qed

lemma length_pairs_of [simp]: "length (pairs_of H hs) = length hs div 2"
  by (simp add: pairs_of_def)

lemma merkle_root_take: "2 ^ d \<le> length hs \<Longrightarrow> merkle_root H d (take (2 ^ d) hs) = merkle_root H d hs"
proof (induction d arbitrary: hs)
  case (Suc d)
  have "pairs_of H (take (2 ^ Suc d) hs) = take (2 ^ d) (pairs_of H hs)"
    using Suc.prems by (intro nth_equalityI) (auto simp: pairs_of_def)
  moreover have "2 ^ d \<le> length (pairs_of H hs)" using Suc.prems by simp
  ultimately show ?case using Suc.IH by simp
qed simp

lemma merkle_root_cong:
  "2 ^ d \<le> length hs \<Longrightarrow> 2 ^ d \<le> length hs' \<Longrightarrow> take (2 ^ d) hs = take (2 ^ d) hs' \<Longrightarrow>
    merkle_root H d hs = merkle_root H d hs'"
  by (metis merkle_root_take)

lemma tree_loop_root: "2 ^ Suc d \<le> length ints \<Longrightarrow> tree_loop H (2 ^ Suc d) ints = merkle_root H (Suc d) ints"
proof (induction d arbitrary: ints)
  case 0
  then show ?case by (subst tree_loop.simps) (simp add: pairs_of_def)
next
  case (Suc d)
  let ?l = "hash_level H 0 [0 ..< 2 ^ Suc d] ints"
  have "tree_loop H (2 ^ Suc (Suc d)) ints = tree_loop H (2 ^ Suc d) ?l"
  proof -
    have "(2 :: nat) < 2 ^ Suc (Suc d)" by (induction d) simp_all
    then show ?thesis by (subst tree_loop.simps) (simp add: Let_def)
  qed
  also have "\<dots> = merkle_root H (Suc d) ?l" using Suc by simp
  also have "\<dots> = merkle_root H (Suc d) (pairs_of H ints)"
  proof (rule merkle_root_cong)
    show "take (2 ^ Suc d) ?l = take (2 ^ Suc d) (pairs_of H ints)"
      using hash_level_nth [of "2 ^ Suc d" 0 ints H] Suc.prems
      by (simp add: pairs_of_def take_map take_upt)
  qed (use Suc.prems in simp_all)
  finally show ?case by (simp only: merkle_root.simps)
qed

lemma length_full_level: "cnt \<le> length hs \<Longrightarrow> length hs \<le> 2 * cnt \<Longrightarrow> length (full_level H cnt hs) = cnt"
  by (simp add: full_level_def Let_def)

lemma full_level_exact: "full_level H (length hs) hs = hs"
  by (simp add: full_level_def)

lemma full_level_half: "length hs = 2 * cnt \<Longrightarrow> full_level H cnt hs = pairs_of H hs"
  by (simp add: full_level_def pairs_of_def hash_pairs_eq)

lemma tree_hash_root:
  assumes "2 ^ d \<le> length hs" and "length hs < 2 ^ Suc d" and "length hs < 2 ^ 64"
  shows "tree_hash H hs = Some (merkle_root H d (full_level H (2 ^ d) hs))"
proof -
  consider (one) "d = 0" | (two) "length hs = 2" | (exact) e where "d = Suc (Suc e)" "length hs = 2 ^ d"
    | (more) e where "d = Suc e" "2 ^ d < length hs"
    using assms by (cases d; cases "d - 1"; cases "length hs = 2 ^ d") auto
  then show ?thesis
  proof cases
    case one
    then have "length hs = 1" using assms by simp
    then show ?thesis using one full_level_exact [of H hs] by (simp add: tree_hash_def)
  next
    case two
    then have "2 ^ d < (2 :: nat) ^ 2" using assms by simp
    then have "d < 2" by (rule power_less_imp_less_exp [rotated]) simp
    then have d: "d = 1" using assms two by (cases d) auto
    then show ?thesis
      using two full_level_exact [of H hs] by (simp add: tree_hash_def pairs_of_def)
  next
    case exact
    have "unat (tree_cnt (of_nat (length hs))) = 2 ^ Suc e"
      using exact assms(3) by (intro tree_cnt_power) simp_all
    then have "tree_hash H hs = Some (tree_loop H (2 ^ Suc e) (full_level H (2 ^ Suc e) hs))"
      using exact by (simp add: tree_hash_def Let_def full_level_def)
    also have "full_level H (2 ^ Suc e) hs = pairs_of H hs" using exact by (intro full_level_half) simp
    also have "tree_loop H (2 ^ Suc e) (pairs_of H hs) = merkle_root H (Suc e) (pairs_of H hs)"
      using exact by (intro tree_loop_root) simp
    finally show ?thesis using exact full_level_exact [of H hs] by simp
  next
    case more
    have "unat (tree_cnt (of_nat (length hs))) = 2 ^ d"
      using more assms by (intro tree_cnt_power) simp_all
    moreover have "2 < length hs"
    proof -
      have "(1 :: nat) \<le> 2 ^ e" by simp
      moreover have "2 * 2 ^ e < length hs" using more by simp
      ultimately show ?thesis by linarith
    qed
    ultimately have "tree_hash H hs = Some (tree_loop H (2 ^ d) (full_level H (2 ^ d) hs))"
      using assms(1,2) by (auto simp: tree_hash_def Let_def full_level_def)
    also have "tree_loop H (2 ^ d) (full_level H (2 ^ d) hs) = merkle_root H d (full_level H (2 ^ d) hs)"
      unfolding more(1) using more assms by (intro tree_loop_root) (simp add: length_full_level)
    finally show ?thesis .
  qed
qed

section \<open>Branches\<close>

text \<open>The siblings on the path from the first leaf of a full level to the root, root side first.\<close>

fun siblings :: "(u8 list \<Rightarrow> Hash) \<Rightarrow> nat \<Rightarrow> Hash list \<Rightarrow> Hash list" where
  "siblings H 0 hs = []"
| "siblings H (Suc d) hs = siblings H d (pairs_of H hs) @ [hs ! 1]"

lemma length_siblings [simp]: "length (siblings H d hs) = d"
  by (induction d arbitrary: hs) simp_all

lemma branch_loop_siblings:
  assumes "length hs = 2 ^ d" and "take (2 ^ d - 1) ints = tl hs" and "2 ^ d - 1 \<le> length ints"
  shows "branch_loop H d (2 ^ d) ints branch = Some (siblings H d hs @ branch)"
  using assms
proof (induction d arbitrary: hs ints branch)
  case (Suc d)
  let ?l = "hash_level H 1 [0 ..< 2 ^ d - 1] ints"
  have nth: "ints ! i = hs ! Suc i" if "i < 2 ^ Suc d - 1" for i
  proof -
    have "ints ! i = take (2 ^ Suc d - 1) ints ! i" using that by simp
    also have "\<dots> = hs ! Suc i" unfolding Suc.prems(2) using that Suc.prems(1) by (simp add: nth_tl)
    finally show ?thesis .
  qed
  have "(1 :: nat) \<le> 2 ^ d" by simp
  then have len: "2 * (2 ^ d - 1) + 1 \<le> length ints" using Suc.prems(3) unfolding power_Suc by linarith
  have "take (2 ^ d - 1) ?l = map (\<lambda>j. hash_pair H (ints ! (2 * j + 1)) (ints ! (2 * j + 1 + 1))) [0 ..< 2 ^ d - 1]"
    by (rule hash_level_nth [OF len])
  also have "\<dots> = tl (pairs_of H hs)"
    by (intro nth_equalityI) (auto simp: pairs_of_def Suc.prems(1) nth nth_tl)
  finally have "branch_loop H d (2 ^ d) ?l (ints ! 0 # branch) = Some (siblings H d (pairs_of H hs) @ ints ! 0 # branch)"
    using Suc.prems(1) len by (intro Suc.IH) simp_all
  moreover have "ints ! 0 = hs ! 1"
  proof -
    have "0 < (2 :: nat) ^ Suc d - 1" unfolding power_Suc using \<open>(1 :: nat) \<le> 2 ^ d\<close> by linarith
    then show ?thesis using nth by simp
  qed
  ultimately show ?case by (simp add: Let_def)
qed simp

lemma from_branch_root:
  assumes "length hs = 2 ^ Suc d"
    and "(if fl then leaf else hash_pair H (fst buffer) (snd buffer)) = hs ! 0"
  shows "from_branch_loop H (siblings H (Suc d) hs @ rest) None (Suc d) fl leaf buffer = merkle_root H (Suc d) hs"
  using assms
proof (induction d arbitrary: hs rest fl buffer)
  case 0
  then show ?case by (simp add: Let_def pairs_of_def)
next
  case (Suc d)
  let ?p = "pairs_of H hs"
  have "from_branch_loop H (siblings H (Suc d) ?p @ hs ! 1 # rest) None (Suc d) False leaf (hs ! 0, hs ! 1)
      = merkle_root H (Suc d) ?p"
    using Suc.prems(1) by (intro Suc.IH) (simp_all add: pairs_of_def nth_append)
  moreover have "(siblings H (Suc (Suc d)) hs @ rest) ! Suc d = hs ! 1" by (simp add: nth_append)
  ultimately show ?case
    using Suc.prems(2) by (simp del: siblings.simps) (simp add: Let_def)
qed

lemma tree_branch_siblings:
  assumes "2 ^ d \<le> length hs" and "length hs < 2 ^ Suc d" and "length hs < 2 ^ 64"
  shows "tree_branch H hs = Some (siblings H d (full_level H (2 ^ d) hs))"
    and "tree_depth (of_nat (length hs)) = d"
proof -
  have u: "unat (of_nat (length hs) :: u64) = length hs" using assms(3) by (intro unat_of_nat_less) simp
  have ne: "0 < length hs" using assms(1) by (rule less_le_trans [rotated]) simp
  show depth: "tree_depth (of_nat (length hs)) = d"
    using tree_depth_log [of "of_nat (length hs)"] ne u assms(1, 2) by (intro log_unique [of _ "length hs"]) simp_all
  obtain e where e: "branch_cnt (of_nat (length hs)) = (2 ^ e, e)" "e < 64"
      "2 ^ e \<le> length hs" "length hs < 2 ^ Suc e"
    using branch_cnt_log [of "of_nat (length hs)"] ne u by auto
  then have "e = d" using assms(1, 2) by (intro log_unique [of _ "length hs"])
  then have c: "branch_cnt (of_nat (length hs)) = (2 ^ d, d)" "unat (2 ^ d :: u64) = 2 ^ d"
    using e by (simp_all add: unat_power_of_two)
  let ?full = "full_level H (2 ^ d) hs"
  let ?copied = "2 * 2 ^ d - length hs"
  define ints where "ints = take (?copied - 1) (drop 1 hs) @ hash_pairs H hs ?copied (2 ^ d - 1 - (?copied - 1))"
  have cp: "0 < ?copied" "?copied \<le> length hs" "?copied \<le> 2 ^ d" using assms(1, 2) by simp_all
  have "ints = tl ?full"
  proof -
    have "take ?copied hs \<noteq> []" using cp ne by auto
    then have "tl ?full = tl (take ?copied hs) @ hash_pairs H hs ?copied (2 ^ d - ?copied)"
      by (simp add: full_level_def Let_def)
    moreover have "tl (take ?copied hs) = take (?copied - 1) (drop 1 hs)" by (simp add: tl_take drop_Suc)
    moreover have "2 ^ d - 1 - (?copied - 1) = 2 ^ d - ?copied" using cp by simp
    ultimately show ?thesis by (simp add: ints_def)
  qed
  moreover have "length ?full = 2 ^ d" using assms(1, 2) by (intro length_full_level) simp_all
  ultimately have "branch_loop H d (2 ^ d) ints [] = Some (siblings H d ?full @ [])"
    by (intro branch_loop_siblings) simp_all
  then show "tree_branch H hs = Some (siblings H d ?full)"
    using ne c depth assms(1,2) by (simp add: tree_branch_def Let_def ints_def)
qed

lemma power_bracket: "0 < (n :: nat) \<Longrightarrow> \<exists>d. 2 ^ d \<le> n \<and> n < 2 ^ Suc d"
  using ex_power_ivl1 [of 2 n] by auto

section \<open>The Merkle tree\<close>

text \<open>
  The specification: the tree over \<open>n\<close> leaves with \<open>2 ^ d \<le> n < 2 ^ (d + 1)\<close> has its first
  \<open>2 ^ (d + 1) - n\<close> leaves at depth \<open>d\<close> and the others, in pairs, one level deeper. The root of a full
  tree is the hash of the roots of its two halves.
\<close>

fun halves_root :: "(u8 list \<Rightarrow> Hash) \<Rightarrow> nat \<Rightarrow> Hash list \<Rightarrow> Hash" where
  "halves_root H 0 hs = hs ! 0"
| "halves_root H (Suc d) hs = H (pod_bytes (halves_root H d (take (2 ^ d) hs)) @ pod_bytes (halves_root H d (drop (2 ^ d) hs)))"

definition tree_root :: "(u8 list \<Rightarrow> Hash) \<Rightarrow> nat \<Rightarrow> Hash list \<Rightarrow> Hash" where
  "tree_root H d leaves =
    (let shallow = 2 ^ Suc d - length leaves in
     halves_root H d (take shallow leaves
       @ map (\<lambda>j. H (pod_bytes (leaves ! (shallow + 2 * j)) @ pod_bytes (leaves ! (shallow + 2 * j + 1))))
           [0 ..< length leaves - 2 ^ d]))"

lemma merkle_root_halves:
  "length hs = 2 ^ Suc d \<Longrightarrow>
    merkle_root H (Suc d) hs = hash_pair H (merkle_root H d (take (2 ^ d) hs)) (merkle_root H d (drop (2 ^ d) hs))"
proof (induction d arbitrary: hs)
  case 0
  then show ?case by (simp add: pairs_of_def)
next
  case (Suc d)
  have "take (2 ^ d) (pairs_of H hs) = pairs_of H (take (2 ^ Suc d) hs)"
    and "drop (2 ^ d) (pairs_of H hs) = pairs_of H (drop (2 ^ Suc d) hs)"
    using Suc.prems by (auto intro!: nth_equalityI simp: pairs_of_def algebra_simps)
  then show ?case using Suc.IH [of "pairs_of H hs"] Suc.prems by simp
qed

lemma halves_root_eq: "length hs = 2 ^ d \<Longrightarrow> halves_root H d hs = merkle_root H d hs"
proof (induction d arbitrary: hs)
  case (Suc d)
  then show ?case unfolding merkle_root_halves [OF Suc.prems] by (simp add: hash_pair_def)
qed simp

lemma tree_root_eq:
  assumes "2 ^ d \<le> length hs" and "length hs < 2 ^ Suc d"
  shows "tree_root H d hs = merkle_root H d (full_level H (2 ^ d) hs)"
proof -
  have "(2 :: nat) ^ d - (2 ^ Suc d - length hs) = length hs - 2 ^ d" using assms by simp
  then have "tree_root H d hs = halves_root H d (full_level H (2 ^ d) hs)"
    unfolding tree_root_def full_level_def hash_pairs_eq Let_def hash_pair_def by simp
  then show ?thesis using assms by (simp add: halves_root_eq length_full_level)
qed

section \<open>Properties\<close>

text \<open>
  C15. For every non-empty list of hashes (of less than \<open>2 ^ 64\<close> elements) no
  assertion fails: \<open>tree_hash\<close>, which hashes level by level in place, computes the root of the
  Merkle tree of the list as its recursive definition gives it, \<open>tree_depth\<close> is the depth of the
  first leaf, the branch has that length, and recomputing the root from the first hash and its
  branch gives the same root.
\<close>

theorem merkle_branch_correct:
  assumes "hashes \<noteq> []" and "length hashes < 2 ^ 64"
  shows "\<exists>branch d. 2 ^ d \<le> length hashes \<and> length hashes < 2 ^ Suc d
    \<and> tree_hash H hashes = Some (tree_root H d hashes)
    \<and> tree_depth (of_nat (length hashes)) = d
    \<and> tree_branch H hashes = Some branch \<and> length branch = d
    \<and> tree_hash_from_branch H branch d (hashes ! 0) None = tree_root H d hashes"
proof -
  obtain d where d: "2 ^ d \<le> length hashes" "length hashes < 2 ^ Suc d"
    using power_bracket [of "length hashes"] assms(1) by auto
  let ?full = "full_level H (2 ^ d) hashes"
  have len: "length ?full = 2 ^ d" using d by (intro length_full_level) simp_all
  have "0 < 2 * 2 ^ d - length hashes" using d by simp
  then have first: "?full ! 0 = hashes ! 0" using assms(1) by (simp add: full_level_def Let_def nth_append)
  have "tree_hash_from_branch H (siblings H d ?full) d (hashes ! 0) None = merkle_root H d ?full"
  proof (cases d)
    case (Suc e)
    then show ?thesis
      using from_branch_root [of ?full e True "hashes ! 0" H "(0, 0)" "[]"] len first
      by (simp add: tree_hash_from_branch_def del: from_branch_loop.simps siblings.simps merkle_root.simps)
  qed (use first in \<open>simp add: tree_hash_from_branch_def\<close>)
  moreover note tree_branch_siblings [OF d assms(2)] tree_hash_root [OF d assms(2), of H]
  ultimately show ?thesis
    using d by (intro exI [of _ "siblings H d ?full"] exI [of _ d]) (simp add: tree_root_eq)
qed

theorem merkle_branch_correct_witness:
  "\<exists>branch d. 2 ^ d \<le> (3 :: nat) \<and> 3 < (2 :: nat) ^ Suc d
    \<and> tree_hash pod_of_bytes [5, 6, 7] = Some (tree_root pod_of_bytes d [5, 6, 7])
    \<and> tree_depth 3 = d
    \<and> tree_branch pod_of_bytes [5, 6, 7] = Some branch \<and> length branch = d
    \<and> tree_hash_from_branch pod_of_bytes branch d 5 None = tree_root pod_of_bytes d [5, 6, 7]"
  using merkle_branch_correct [of "[5, 6, 7]" pod_of_bytes] by simp

end
