(* ===== verification/Block_Hash.thy ===== *)
theory Block_Hash
  imports CryptoNote_Serialization Tree_Hash Transaction_Extra
begin

text \<open>
  Block identifiers and proof-of-work input, and the lookup of the outputs of an account:
  the second half of \<open>src/CryptoNoteCore/CryptoNoteFormatUtils.cpp\<close>. The hash functions and the
  key derivation are arguments; \<open>None\<close> of a hash is the failed assertion of \<open>tree_hash\<close>.
\<close>

definition get_tx_tree_hash :: "(u8 list \<Rightarrow> Hash) \<Rightarrow> Block \<Rightarrow> Hash option" where
  "get_tx_tree_hash H b =
    tree_hash H (snd (getObjectHash H out_Transaction (bl_baseTransaction b)) # bl_transactionHashes b)"

definition get_block_hashing_blob :: "(u8 list \<Rightarrow> Hash) \<Rightarrow> Block \<Rightarrow> u8 list option" where
  "get_block_hashing_blob H b =
    (case toBinaryArray out_BlockHeader b of
       None \<Rightarrow> None
     | Some ba \<Rightarrow>
         (case get_tx_tree_hash H b of
            None \<Rightarrow> None
          | Some treeRootHash \<Rightarrow>
              Some (ba @ pod_bytes treeRootHash
                @ get_varint_data (of_nat (length (bl_transactionHashes b) + 1)))))"

text \<open>\<open>getObjectHash\<close> of a byte array hashes the array with its size in front.\<close>

definition get_block_hash :: "(u8 list \<Rightarrow> Hash) \<Rightarrow> Block \<Rightarrow> bool \<times> Hash" where
  "get_block_hash H b =
    (case get_block_hashing_blob H b of
       None \<Rightarrow> (False, 0)
     | Some ba \<Rightarrow> getObjectHash H out_string ba)"

definition get_aux_block_header_hash :: "(u8 list \<Rightarrow> Hash) \<Rightarrow> Block \<Rightarrow> bool \<times> Hash" where
  "get_aux_block_header_hash H b =
    (case get_block_hashing_blob H b of
       None \<Rightarrow> (False, 0)
     | Some blob \<Rightarrow> getObjectHash H out_string blob)"

datatype slow_hash = cn_gpu_hash_v0 | cn_conceal_slow_hash_v0 | cn_fast_slow_hash_v1 | cn_slow_hash_v0

definition get_block_longhash ::
    "(u8 list \<Rightarrow> Hash) \<Rightarrow> (slow_hash \<Rightarrow> u8 list \<Rightarrow> Hash) \<Rightarrow> Block \<Rightarrow> Hash option" where
  "get_block_longhash H slow b =
    (case get_block_hashing_blob H b of
       None \<Rightarrow> None
     | Some bd \<Rightarrow>
         Some (if 8 \<le> bh_majorVersion b then slow cn_gpu_hash_v0 bd
               else if 7 \<le> bh_majorVersion b then slow cn_conceal_slow_hash_v0 bd
               else if 3 \<le> bh_majorVersion b then slow cn_fast_slow_hash_v1 bd
               else slow cn_slow_hash_v0 bd))"

definition short_hash_str :: "Hash \<Rightarrow> string" where
  "short_hash_str h =
    (let res = podToHex h in
     if length res = 64 then take 8 res @ ''....'' @ drop 56 res else res)"

definition is_out_to_acc ::
    "(KeyDerivation \<Rightarrow> nat \<Rightarrow> PublicKey \<Rightarrow> PublicKey) \<Rightarrow> AccountKeys \<Rightarrow> KeyOutput \<Rightarrow> KeyDerivation \<Rightarrow> nat \<Rightarrow> bool" where
  "is_out_to_acc derive_public_key acc out_key derivation keyIndex \<longleftrightarrow>
    derive_public_key derivation keyIndex (aa_spendPublicKey (ak_address acc)) = ko_key out_key"

fun lookup_loop ::
    "(KeyDerivation \<Rightarrow> nat \<Rightarrow> PublicKey \<Rightarrow> PublicKey) \<Rightarrow> AccountKeys \<Rightarrow> KeyDerivation \<Rightarrow> nat \<Rightarrow>
      TransactionOutput list \<Rightarrow> nat list \<Rightarrow> u64 \<Rightarrow> nat list \<times> u64" where
  "lookup_loop derive_public_key acc derivation outputIndex [] outs money = (outs, money)"
| "lookup_loop derive_public_key acc derivation outputIndex (o1 # os) outs money =
    (let (outs, money) =
       (case to_target o1 of
          OutKey k \<Rightarrow>
            if is_out_to_acc derive_public_key acc k derivation outputIndex
            then (outs @ [outputIndex], money + to_amount o1) else (outs, money)
        | OutMultisig _ \<Rightarrow> (outs, money))
     in lookup_loop derive_public_key acc derivation (outputIndex + 1) os outs money)"

text \<open>The result of \<open>generate_key_derivation\<close> is not checked; the argument gives the buffer it leaves.\<close>

definition lookup_acc_outs ::
    "(KeyDerivation \<Rightarrow> nat \<Rightarrow> PublicKey \<Rightarrow> PublicKey) \<Rightarrow> (PublicKey \<Rightarrow> SecretKey \<Rightarrow> KeyDerivation) \<Rightarrow>
      AccountKeys \<Rightarrow> Transaction \<Rightarrow> (nat list \<times> u64) option" where
  "lookup_acc_outs derive_public_key generate_key_derivation acc tx =
    (let transactionPublicKey = getTransactionPublicKeyFromExtra (tp_extra tx) in
     if transactionPublicKey = 0 then None
     else Some (lookup_loop derive_public_key acc
       (generate_key_derivation transactionPublicKey (ak_viewSecretKey acc)) 0 (tp_outputs tx) [] 0))"

section \<open>What an identifier commits to\<close>

lemma hashing_blob_Some:
  assumes "get_block_hashing_blob H b = Some blob"
  obtains h r where "out_BlockHeader b = Inr h" and "get_tx_tree_hash H b = Some r"
    and "blob = h @ pod_bytes r @ get_varint_data (of_nat (length (bl_transactionHashes b) + 1))"
  using assms by (auto simp: get_block_hashing_blob_def toBinaryArray_def split: option.splits sum.splits)

lemma header_written_iff: "(\<exists>bs. out_BlockHeader b = Inr bs) \<longleftrightarrow> ok_header b"
proof (cases "ok_header b")
  case True
  then show ?thesis using header_written [of b] by simp
next
  case False
  then have "BLOCK_MAJOR_VERSION_8 < bh_majorVersion b" by (simp add: ok_header_def BLOCK_MAJOR_VERSION_8_def)
  then have "out_BlockHeader b = Inl WrongMajorVersion"
    by (simp add: out_BlockHeader_def out_uint_def write_bytes_def)
  with False show ?thesis by simp
qed

lemma write_varint_inj: "write_varint a = write_varint b \<Longrightarrow> a = b"
proof -
  assume eq: "write_varint a = write_varint b"
  have "readVarint (write_varint a @ []) = Inr (a, [])" "readVarint (write_varint b @ []) = Inr (b, [])"
    by (subst readVarint_iff; simp add: write_varint_eq)+
  with eq show "a = b" by simp
qed

section \<open>Properties\<close>

text \<open>
  C16. The bytes that are hashed to a block identifier determine the header
  fields, the root of the transaction tree and the number of transactions: two blocks with the
  same hashing blob agree on all of them.
\<close>

theorem hashing_blob_commits:
  assumes "get_block_hashing_blob H b = Some blob" and "get_block_hashing_blob H b' = Some blob"
    and "length (bl_transactionHashes b) < 2 ^ 64 - 1" and "length (bl_transactionHashes b') < 2 ^ 64 - 1"
  shows "BlockHeader.truncate b = BlockHeader.truncate b' \<and> get_tx_tree_hash H b = get_tx_tree_hash H b'
    \<and> length (bl_transactionHashes b) = length (bl_transactionHashes b')"
proof -
  obtain h r where b: "out_BlockHeader b = Inr h" "get_tx_tree_hash H b = Some r"
      "blob = h @ pod_bytes r @ get_varint_data (of_nat (length (bl_transactionHashes b) + 1))"
    using assms(1) by (rule hashing_blob_Some)
  obtain h' r' where b': "out_BlockHeader b' = Inr h'" "get_tx_tree_hash H b' = Some r'"
      "blob = h' @ pod_bytes r' @ get_varint_data (of_nat (length (bl_transactionHashes b') + 1))"
    using assms(2) by (rule hashing_blob_Some)
  let ?n = "of_nat (length (bl_transactionHashes b) + 1) :: u64"
  let ?n' = "of_nat (length (bl_transactionHashes b') + 1) :: u64"
  have head: "BlockHeader.truncate b = BlockHeader.truncate b'
      \<and> pod_bytes r @ get_varint_data ?n = pod_bytes r' @ get_varint_data ?n'"
  proof (rule header_codec.prefix_free)
    show "ok_header (BlockHeader.truncate b)" "ok_header (BlockHeader.truncate b')"
      using header_written_iff b(1) b'(1) by (auto simp: out_BlockHeader_truncate)
    show "out_BlockHeader (BlockHeader.truncate b) = Inr h" "out_BlockHeader (BlockHeader.truncate b') = Inr h'"
      by (simp_all add: out_BlockHeader_truncate b(1) b'(1))
    show "h @ pod_bytes r @ get_varint_data ?n = h' @ pod_bytes r' @ get_varint_data ?n'"
      using b(3) b'(3) by simp
  qed
  have root: "r = r' \<and> get_varint_data ?n = get_varint_data ?n'"
    by (rule hash_codec.prefix_free [of r "pod_bytes r" r' "pod_bytes r'"])
      (use head in \<open>simp_all add: out_pod_def write_bytes_def\<close>)
  then have "?n = ?n'" unfolding get_varint_data_def by (blast intro: write_varint_inj)
  moreover have "unat ?n = length (bl_transactionHashes b) + 1"
    by (rule unat_of_nat_less) (use assms(3) in simp)
  moreover have "unat ?n' = length (bl_transactionHashes b') + 1"
    by (rule unat_of_nat_less) (use assms(4) in simp)
  ultimately have "length (bl_transactionHashes b) = length (bl_transactionHashes b')" by simp
  with head root b(2) b'(2) show ?thesis by simp
qed

theorem hashing_blob_commits_witness:
  "let b = \<lparr>bh_majorVersion = 1, bh_minorVersion = 0, bh_nonce = 9, bh_timestamp = 100,
      bh_previousBlockHash = 5, bl_baseTransaction = \<lparr>tp_version = 1, tp_unlockTime = 10,
        tp_inputs = [InBase \<lparr>bi_blockIndex = 0\<rparr>], tp_outputs = [], tp_extra = [], tx_signatures = []\<rparr>,
      bl_transactionHashes = []\<rparr>;
     b' = b\<lparr>bl_baseTransaction := (bl_baseTransaction b)\<lparr>tx_signatures := [[]]\<rparr>\<rparr>
   in b \<noteq> b' \<and> get_block_hashing_blob (\<lambda>_. 7) b = get_block_hashing_blob (\<lambda>_. 7) b'
     \<and> BlockHeader.truncate b = BlockHeader.truncate b'
     \<and> get_tx_tree_hash (\<lambda>_. 7) b = get_tx_tree_hash (\<lambda>_. 7) b'
     \<and> length (bl_transactionHashes b) = length (bl_transactionHashes b')"
proof -
  define b where "b = \<lparr>bh_majorVersion = 1, bh_minorVersion = 0, bh_nonce = 9, bh_timestamp = 100,
      bh_previousBlockHash = 5, bl_baseTransaction = \<lparr>tp_version = 1, tp_unlockTime = 10,
        tp_inputs = [InBase \<lparr>bi_blockIndex = 0\<rparr>], tp_outputs = [], tp_extra = [], tx_signatures = []\<rparr>,
      bl_transactionHashes = []\<rparr>"
  define b' where "b' = b\<lparr>bl_baseTransaction := (bl_baseTransaction b)\<lparr>tx_signatures := [[]]\<rparr>\<rparr>"
  define blob where "blob = the (get_block_hashing_blob (\<lambda>_. 7) b)"
  note defs = get_block_hashing_blob_def get_tx_tree_hash_def tree_hash_def toBinaryArray_def out_BlockHeader_def
    BLOCK_MAJOR_VERSION_8_def out_uint_def out_pod_def write_bytes_def getObjectHash_def out_Transaction_def
    out_TransactionPrefix_def TRANSACTION_VERSION_2_def out_container_def out_beginArray_def
    out_TransactionInput_def out_BaseInput_def input_tag_def out_asBinary_def out_string_def
    getSignaturesCount_def
  have "get_block_hashing_blob (\<lambda>_. 7) b = Some blob"
    by (simp add: b_def blob_def defs)
  moreover have "get_block_hashing_blob (\<lambda>_. 7) b' = Some blob"
    by (simp add: b'_def b_def blob_def defs)
  moreover have "length (bl_transactionHashes b) < 2 ^ 64 - 1" "length (bl_transactionHashes b') < 2 ^ 64 - 1"
    by (simp_all add: b'_def b_def)
  moreover have "b \<noteq> b'" by (simp add: b'_def b_def)
  ultimately show ?thesis
    using hashing_blob_commits [of "\<lambda>_. 7" b blob b'] unfolding Let_def b_def [symmetric] b'_def [symmetric] by simp
qed

end
