(* ===== verification/Blockchain_Indices.thy ===== *)
theory Blockchain_Indices
  imports Block_Hash
begin

text \<open>
  The secondary indices of \<open>src/CryptoNoteCore/BlockchainIndices.cpp\<close>. An unordered multimap is
  the multiset of its entries, an ordered multimap the list of its entries in iteration order
  (sorted by key, equal keys in order of insertion), a hash map of distinct keys an association
  list. What the blockchain relies on is that removing an entry undoes adding it: the locale
  \<open>entry_index\<close>.
\<close>

section \<open>Multimaps\<close>

definition mm_emplace :: "'k::linorder \<Rightarrow> 'v \<Rightarrow> ('k \<times> 'v) list \<Rightarrow> ('k \<times> 'v) list" where
  "mm_emplace k v m = takeWhile (\<lambda>e. fst e \<le> k) m @ (k, v) # dropWhile (\<lambda>e. fst e \<le> k) m"

text \<open>Erase the first entry of the range of \<open>k\<close> whose value is \<open>v\<close>.\<close>

fun mm_erase :: "'k::linorder \<Rightarrow> 'v \<Rightarrow> ('k \<times> 'v) list \<Rightarrow> bool \<times> ('k \<times> 'v) list" where
  "mm_erase k v [] = (False, [])"
| "mm_erase k v (e # m) =
    (if e = (k, v) then (True, m) else let (found, m') = mm_erase k v m in (found, e # m'))"

definition mm_range :: "'k::linorder \<Rightarrow> 'k \<Rightarrow> ('k \<times> 'v) list \<Rightarrow> ('k \<times> 'v) list" where
  "mm_range lo hi m = takeWhile (\<lambda>e. fst e \<le> hi) (dropWhile (\<lambda>e. fst e < lo) m)"

section \<open>The indices\<close>

definition getPaymentId :: "Transaction \<Rightarrow> Hash option" where
  "getPaymentId tx =
    (let (_, txExtraFields) = parseTransactionExtra (tp_extra tx) in
     case find_nonce txExtraFields of
       None \<Rightarrow> None
     | Some nonce \<Rightarrow> getPaymentIdFromTransactionExtraNonce nonce)"

type_synonym PaymentIdIndex = "(Hash \<times> Hash) multiset"

definition PaymentIdIndex_add :: "(u8 list \<Rightarrow> Hash) \<Rightarrow> Transaction \<Rightarrow> PaymentIdIndex \<Rightarrow> bool \<times> PaymentIdIndex" where
  "PaymentIdIndex_add H tx index =
    (let transactionHash = snd (getObjectHash H out_Transaction tx) in
     case getPaymentId tx of
       None \<Rightarrow> (False, index)
     | Some paymentId \<Rightarrow> (True, add_mset (paymentId, transactionHash) index))"

definition PaymentIdIndex_remove :: "(u8 list \<Rightarrow> Hash) \<Rightarrow> Transaction \<Rightarrow> PaymentIdIndex \<Rightarrow> bool \<times> PaymentIdIndex" where
  "PaymentIdIndex_remove H tx index =
    (let transactionHash = snd (getObjectHash H out_Transaction tx) in
     case getPaymentId tx of
       None \<Rightarrow> (False, index)
     | Some paymentId \<Rightarrow>
         if (paymentId, transactionHash) \<in># index
         then (True, index - {#(paymentId, transactionHash)#}) else (False, index))"

definition PaymentIdIndex_find :: "Hash \<Rightarrow> PaymentIdIndex \<Rightarrow> bool \<times> Hash multiset" where
  "PaymentIdIndex_find paymentId index =
    (let range = filter_mset (\<lambda>e. fst e = paymentId) index in (range \<noteq> {#}, image_mset snd range))"

type_synonym TimestampBlocksIndex = "(u64 \<times> Hash) list"

definition TimestampBlocksIndex_add :: "u64 \<Rightarrow> Hash \<Rightarrow> TimestampBlocksIndex \<Rightarrow> TimestampBlocksIndex" where
  "TimestampBlocksIndex_add timestamp hash index = mm_emplace timestamp hash index"

definition TimestampBlocksIndex_remove :: "u64 \<Rightarrow> Hash \<Rightarrow> TimestampBlocksIndex \<Rightarrow> bool \<times> TimestampBlocksIndex" where
  "TimestampBlocksIndex_remove timestamp hash index = mm_erase timestamp hash index"

definition TimestampBlocksIndex_find ::
    "u64 \<Rightarrow> u64 \<Rightarrow> u32 \<Rightarrow> TimestampBlocksIndex \<Rightarrow> bool \<times> Hash list \<times> u32" where
  "TimestampBlocksIndex_find timestampBegin timestampEnd hashesNumberLimit index =
    (if timestampEnd < timestampBegin then (False, [], 0)
     else
       let range = mm_range timestampBegin timestampEnd index;
           hashes = map snd (take (unat hashesNumberLimit) range)
       in (hashes \<noteq> [], hashes, of_nat (length range)))"

text \<open>
  \<open>TimestampTransactionsIndex\<close> adds and removes in the same way; its search also returns the first
  entry of a non-empty index for the empty range that ends at time 0.
\<close>

definition TimestampTransactionsIndex_find ::
    "u64 \<Rightarrow> u64 \<Rightarrow> u64 \<Rightarrow> TimestampBlocksIndex \<Rightarrow> bool \<times> Hash list \<times> u64" where
  "TimestampTransactionsIndex_find timestampBegin timestampEnd hashesNumberLimit index =
    (if timestampEnd < timestampBegin then (False, [], 0)
     else
       let range = mm_range timestampBegin timestampEnd index;
           begin_is_first = (index = [] \<or> \<not> fst (hd index) < timestampBegin);
           range = (if timestampEnd = 0 \<and> range = [] \<and> begin_is_first \<and> 0 < length index
                    then [hd index] else range);
           hashes = map snd (take (unat hashesNumberLimit) range)
       in (hashes \<noteq> [], hashes, ucast (of_nat (length range) :: u32)))"

record GeneratedTransactionsIndex =
  gt_index :: "(u32 \<times> u64) list"
  gt_lastGeneratedTxNumber :: u64

definition GeneratedTransactionsIndex_empty :: GeneratedTransactionsIndex where
  "GeneratedTransactionsIndex_empty = \<lparr>gt_index = [], gt_lastGeneratedTxNumber = 0\<rparr>"

text \<open>\<open>boost::get<BaseInput>\<close> of the first input throws on any other input; \<open>None\<close> is that throw.\<close>

definition base_height :: "Block \<Rightarrow> u32 option" where
  "base_height block = (case tp_inputs (bl_baseTransaction block) of
      InBase i # _ \<Rightarrow> Some (bi_blockIndex i) | _ \<Rightarrow> None)"

definition GeneratedTransactionsIndex_add ::
    "Block \<Rightarrow> GeneratedTransactionsIndex \<Rightarrow> (bool \<times> GeneratedTransactionsIndex) option" where
  "GeneratedTransactionsIndex_add block g =
    (case base_height block of
       None \<Rightarrow> None
     | Some blockHeight \<Rightarrow>
         if length (gt_index g) \<noteq> unat blockHeight then Some (False, g)
         else
           let generated = gt_lastGeneratedTxNumber g + of_nat (length (bl_transactionHashes block)) + 1 in
           if map_of (gt_index g) blockHeight \<noteq> None then Some (False, g)
           else Some (True, \<lparr>gt_index = (blockHeight, generated) # gt_index g,
             gt_lastGeneratedTxNumber = generated\<rparr>))"

definition GeneratedTransactionsIndex_remove ::
    "Block \<Rightarrow> GeneratedTransactionsIndex \<Rightarrow> (bool \<times> GeneratedTransactionsIndex) option" where
  "GeneratedTransactionsIndex_remove block g =
    (case base_height block of
       None \<Rightarrow> None
     | Some blockHeight \<Rightarrow>
         if (ucast blockHeight :: u64) \<noteq> of_nat (length (gt_index g)) - 1 then Some (False, g)
         else if map_of (gt_index g) blockHeight = None then None
         else
           let index = filter (\<lambda>e. fst e \<noteq> blockHeight) (gt_index g) in
           if blockHeight \<noteq> 0 then
             (case map_of index (blockHeight - 1) of
                None \<Rightarrow> None
              | Some n \<Rightarrow> Some (True, \<lparr>gt_index = index, gt_lastGeneratedTxNumber = n\<rparr>))
           else Some (True, \<lparr>gt_index = index, gt_lastGeneratedTxNumber = 0\<rparr>))"

definition GeneratedTransactionsIndex_find :: "u32 \<Rightarrow> GeneratedTransactionsIndex \<Rightarrow> u64 option" where
  "GeneratedTransactionsIndex_find height g = map_of (gt_index g) height"

definition GeneratedTransactionsIndex_clear :: "GeneratedTransactionsIndex \<Rightarrow> GeneratedTransactionsIndex" where
  "GeneratedTransactionsIndex_clear g = g\<lparr>gt_index := []\<rparr>"

type_synonym OrphanBlocksIndex = "(u32 \<times> Hash) multiset"

definition OrphanBlocksIndex_add :: "(u8 list \<Rightarrow> Hash) \<Rightarrow> Block \<Rightarrow> OrphanBlocksIndex \<Rightarrow> OrphanBlocksIndex option" where
  "OrphanBlocksIndex_add H block index =
    (case base_height block of
       None \<Rightarrow> None
     | Some blockHeight \<Rightarrow> Some (add_mset (blockHeight, snd (get_block_hash H block)) index))"

definition OrphanBlocksIndex_remove ::
    "(u8 list \<Rightarrow> Hash) \<Rightarrow> Block \<Rightarrow> OrphanBlocksIndex \<Rightarrow> (bool \<times> OrphanBlocksIndex) option" where
  "OrphanBlocksIndex_remove H block index =
    (case base_height block of
       None \<Rightarrow> None
     | Some blockHeight \<Rightarrow>
         let e = (blockHeight, snd (get_block_hash H block)) in
         Some (if e \<in># index then (True, index - {#e#}) else (False, index)))"

definition OrphanBlocksIndex_find :: "u32 \<Rightarrow> OrphanBlocksIndex \<Rightarrow> bool \<times> Hash multiset" where
  "OrphanBlocksIndex_find height index =
    (let range = filter_mset (\<lambda>e. fst e = height) index in (range \<noteq> {#}, image_mset snd range))"

section \<open>Removing undoes adding\<close>

lemma mm_erase_absent: "(k, v) \<notin> set m \<Longrightarrow> mm_erase k v (m @ (k, v) # m') = (True, m @ m')"
  by (induction m) auto

lemma mm_erase_emplace: "(k, v) \<notin> set m \<Longrightarrow> mm_erase k v (mm_emplace k v m) = (True, m)"
proof -
  assume "(k, v) \<notin> set m"
  then have "(k, v) \<notin> set (takeWhile (\<lambda>e. fst e \<le> k) m)" by (metis set_takeWhileD)
  then show ?thesis unfolding mm_emplace_def by (simp add: mm_erase_absent)
qed

lemma set_mm_emplace: "set (mm_emplace k v m) = insert (k, v) (set m)"
proof -
  have "set (takeWhile (\<lambda>e. fst e \<le> k) m) \<union> set (dropWhile (\<lambda>e. fst e \<le> k) m) = set m"
    by (simp flip: set_append)
  then show ?thesis by (auto simp: mm_emplace_def)
qed

lemma sorted_mm_emplace: "sorted (map fst m) \<Longrightarrow> sorted (map fst (mm_emplace k v m))"
proof -
  assume s: "sorted (map fst m)"
  let ?t = "takeWhile (\<lambda>e. fst e \<le> k) m" and ?d = "dropWhile (\<lambda>e. fst e \<le> k) m"
  have "sorted (map fst ?t @ map fst ?d)" using s by (simp flip: map_append)
  moreover have "\<forall>e \<in> set ?t. fst e \<le> k" by (auto dest: set_takeWhileD)
  moreover have "\<forall>e \<in> set ?d. k \<le> fst e"
  proof (cases ?d)
    case (Cons e es)
    then have "\<not> fst e \<le> k" using hd_dropWhile [of "\<lambda>e. fst e \<le> k" m] by auto
    moreover have "sorted (map fst ?d)" using \<open>sorted (map fst ?t @ map fst ?d)\<close> by (simp only: sorted_append)
    ultimately show ?thesis using Cons by auto
  next
    case Nil
    then show ?thesis by (simp only: list.set ball_empty)
  qed
  ultimately show ?thesis by (auto simp: mm_emplace_def sorted_append)
qed

lemma mm_range_filter:
  assumes "sorted (map fst m)"
  shows "mm_range lo hi m = filter (\<lambda>e. lo \<le> fst e \<and> fst e \<le> hi) m"
  using assms
proof (induction m)
  case (Cons e m)
  have all: "\<forall>x \<in> set m. fst e \<le> fst x" using Cons.prems by auto
  consider "fst e < lo" | "lo \<le> fst e" "fst e \<le> hi" | "hi < fst e" "lo \<le> fst e" by force
  then show ?case
  proof cases
    case 1
    then show ?thesis using Cons by (auto simp: mm_range_def)
  next
    case 2
    then have "dropWhile (\<lambda>e. fst e < lo) m = m" using all by (cases m) auto
    then show ?thesis using 2 Cons by (simp add: mm_range_def)
  next
    case 3
    then have "filter (\<lambda>x. lo \<le> fst x \<and> fst x \<le> hi) m = []" using all by (force simp: filter_empty_conv)
    moreover have "\<not> fst e < lo" "\<not> fst e \<le> hi" using 3 by auto
    ultimately show ?thesis by (simp add: mm_range_def)
  qed
qed (simp add: mm_range_def)

text \<open>
  The contract of an index of entries: adding keeps its invariant and removing the same entry at
  once gives back the index. \<open>fresh\<close> is the condition on the entry.
\<close>

locale entry_index =
  fixes add :: "'e \<Rightarrow> 'i \<Rightarrow> 'i"
    and remove :: "'e \<Rightarrow> 'i \<Rightarrow> 'i"
    and fresh :: "'e \<Rightarrow> 'i \<Rightarrow> bool"
  assumes remove_add: "fresh e i \<Longrightarrow> remove e (add e i) = i"
begin

fun fresh_all :: "'e list \<Rightarrow> 'i \<Rightarrow> bool" where
  "fresh_all [] i = True"
| "fresh_all (e # es) i = (fresh e i \<and> fresh_all es (add e i))"

lemma remove_all: "fresh_all es i \<Longrightarrow> foldr remove es (fold add es i) = i"
  by (induction es arbitrary: i) (simp_all add: remove_add)

end

interpretation payment_index: entry_index "\<lambda>tx i. snd (PaymentIdIndex_add H tx i)"
    "\<lambda>tx i. snd (PaymentIdIndex_remove H tx i)" "\<lambda>_ _. True" for H
  by unfold_locales (auto simp: PaymentIdIndex_add_def PaymentIdIndex_remove_def Let_def split: option.splits)

interpretation timestamp_index: entry_index "\<lambda>(t, h). TimestampBlocksIndex_add t h"
    "\<lambda>(t, h) i. snd (TimestampBlocksIndex_remove t h i)" "\<lambda>e i. e \<notin> set i"
  by unfold_locales
    (auto simp: TimestampBlocksIndex_add_def TimestampBlocksIndex_remove_def mm_erase_emplace)

interpretation orphan_index: entry_index "\<lambda>b i. the (OrphanBlocksIndex_add H b i)"
    "\<lambda>b i. snd (the (OrphanBlocksIndex_remove H b i))" "\<lambda>b _. base_height b \<noteq> None" for H
  by unfold_locales (auto simp: OrphanBlocksIndex_add_def OrphanBlocksIndex_remove_def Let_def)

text \<open>The counter of generated transactions: heights from 0, each with the running total.\<close>

definition gt_inv :: "GeneratedTransactionsIndex \<Rightarrow> bool" where
  "gt_inv g \<longleftrightarrow> map fst (gt_index g) = rev (map of_nat [0 ..< length (gt_index g)])
    \<and> length (gt_index g) < 2 ^ 32
    \<and> gt_lastGeneratedTxNumber g = (case gt_index g of [] \<Rightarrow> 0 | e # _ \<Rightarrow> snd e)"

lemma gt_absent:
  assumes "gt_inv g" and "unat h = length (gt_index g)"
  shows "h \<notin> fst ` set (gt_index g)"
proof
  assume "h \<in> fst ` set (gt_index g)"
  then have "h \<in> set (rev (map of_nat [0 ..< length (gt_index g)]))"
    using assms(1) by (metis gt_inv_def list.set_map)
  then obtain i where "i < length (gt_index g)" and "h = of_nat i" by auto
  then have "unat h = i" using assms(1) by (simp add: gt_inv_def unat_of_nat)
  with assms(2) \<open>i < length (gt_index g)\<close> show False by simp
qed

text \<open>A block at the next height is always added.\<close>

lemma gt_add_ok:
  assumes "gt_inv g" and "base_height b = Some h" and "unat h = length (gt_index g)"
  shows "\<exists>g'. GeneratedTransactionsIndex_add b g = Some (True, g')"
    and "GeneratedTransactionsIndex_add b g = Some (True, g') \<Longrightarrow> length (gt_index g') = Suc (length (gt_index g))"
proof -
  have "map_of (gt_index g) h = None" using gt_absent [OF assms(1,3)] by (simp add: map_of_eq_None_iff)
  then show "\<exists>g'. GeneratedTransactionsIndex_add b g = Some (True, g')"
    and "GeneratedTransactionsIndex_add b g = Some (True, g') \<Longrightarrow> length (gt_index g') = Suc (length (gt_index g))"
    using assms(2,3) by (auto simp: GeneratedTransactionsIndex_add_def Let_def)
qed

lemma gt_add_remove:
  assumes inv: "gt_inv g" and add: "GeneratedTransactionsIndex_add b g = Some (True, g')"
    and room: "length (gt_index g) + 1 < 2 ^ 32"
  shows "gt_inv g' \<and> GeneratedTransactionsIndex_remove b g' = Some (True, g)"
proof -
  define n where "n = length (gt_index g)"
  obtain h where h: "base_height b = Some h" "n = unat h"
    using add by (auto simp: GeneratedTransactionsIndex_add_def n_def split: option.splits if_splits)
  define v where "v = gt_lastGeneratedTxNumber g + of_nat (length (bl_transactionHashes b)) + 1"
  have g': "g' = \<lparr>gt_index = (h, v) # gt_index g, gt_lastGeneratedTxNumber = v\<rparr>"
    using add h by (auto simp: GeneratedTransactionsIndex_add_def n_def v_def Let_def split: if_splits)
  have hn: "h = of_nat n" using h(2) by simp
  have keys: "map fst (gt_index g) = rev (map of_nat [0 ..< n])" using inv by (simp add: gt_inv_def n_def)
  have inv': "gt_inv g'" using keys room hn by (simp add: gt_inv_def g' n_def)
  have absent: "h \<notin> fst ` set (gt_index g)" using gt_absent [OF inv] h(2) by (simp add: n_def)
  then have filt: "filter (\<lambda>e. fst e \<noteq> h) (gt_index g) = gt_index g" by (force simp: filter_id_conv)
  have len: "(of_nat (length (gt_index g')) - 1 :: u64) = ucast h"
    by (rule unat_eqI) (use room h(2) in \<open>simp add: g' n_def unat_ucast_nat unat_of_nat\<close>)
  have last: "if h \<noteq> 0 then map_of (gt_index g) (h - 1) = Some (gt_lastGeneratedTxNumber g)
      else gt_lastGeneratedTxNumber g = 0"
  proof (cases "gt_index g")
    case Nil
    then show ?thesis using hn inv by (simp add: n_def gt_inv_def)
  next
    case (Cons e es)
    then have "n = Suc (length es)" by (simp add: n_def)
    moreover from this have "fst e = of_nat (length es)" using keys Cons by simp
    moreover have "h \<noteq> 0" using h(2) \<open>n = Suc (length es)\<close> by auto
    moreover have "gt_lastGeneratedTxNumber g = snd e" using inv Cons by (simp add: gt_inv_def)
    ultimately show ?thesis using Cons hn by (cases e) simp
  qed
  have "GeneratedTransactionsIndex_remove b g' = Some (True, g)"
    using h(1) len filt last
    by (auto simp: GeneratedTransactionsIndex_remove_def g' Let_def split: if_splits)
  with inv' show ?thesis by simp
qed

end
