(* ===== verification/Chain_State.thy ===== *)
theory Chain_State
  imports Blockchain_Indices Format_Utils
begin

text \<open>
  The containers a transaction changes when it is added to or removed from the main chain:
  \<open>pushTransaction\<close>, \<open>popTransaction\<close> and \<open>popTransactions\<close> of
  \<open>src/CryptoNoteCore/Blockchain.cpp\<close>. The containers keyed by key image, amount or hash are maps;
  the index of a transaction is the pair of its block and its position. A C++ exception, or an
  access outside a vector, is \<open>None\<close>.
\<close>

record TransactionIndex =
  ti_block :: u32
  ti_transaction :: u16

record MultisignatureOutputUsage =
  mu_transactionIndex :: TransactionIndex
  mu_outputIndex :: u16
  mu_isUsed :: bool

record TransactionEntry =
  te_tx :: Transaction
  te_global_output_indexes :: "u32 list"

record BlockEntry =
  be_bl :: Block
  be_height :: u32
  be_block_cumulative_size :: u64
  be_cumulative_difficulty :: u64
  be_already_generated_coins :: u64
  be_transactions :: "TransactionEntry list"

type_synonym key_images_container = "KeyImage \<rightharpoonup> u32"
type_synonym outputs_container = "u64 \<rightharpoonup> (TransactionIndex \<times> u16) list"
type_synonym MultisignatureOutputsContainer = "u64 \<rightharpoonup> MultisignatureOutputUsage list"

record Ledger =
  m_spent_keys :: key_images_container
  m_outputs :: outputs_container
  m_multisignatureOutputs :: MultisignatureOutputsContainer
  m_transactionMap :: "Hash \<rightharpoonup> TransactionIndex"
  m_paymentIdIndex :: PaymentIdIndex

section \<open>Adding a transaction\<close>

text \<open>
  The loop that inserts the key images. On a key image that is already there, the source erases the
  images of the inputs before it, last first, with \<open>boost::get<KeyInput>\<close>, which throws on an
  input of another type; the images erased so far stay erased then.
\<close>

fun erase_back :: "TransactionInput list \<Rightarrow> key_images_container \<Rightarrow> bool option \<times> key_images_container" where
  "erase_back [] spent = (Some False, spent)"
| "erase_back (InKey k # inputs) spent = erase_back inputs (spent(ki_keyImage k := None))"
| "erase_back (_ # inputs) spent = (None, spent)"

fun insert_key_images ::
    "u32 \<Rightarrow> TransactionInput list \<Rightarrow> TransactionInput list \<Rightarrow> key_images_container \<Rightarrow>
      bool option \<times> key_images_container" where
  "insert_key_images height earlier [] spent = (Some True, spent)"
| "insert_key_images height earlier (InKey k # inputs) spent =
    (if spent (ki_keyImage k) \<noteq> None then erase_back earlier spent
     else insert_key_images height (InKey k # earlier) inputs (spent(ki_keyImage k \<mapsto> height)))"
| "insert_key_images height earlier (i # inputs) spent = insert_key_images height (i # earlier) inputs spent"

definition multisig_in_range :: "MultisignatureOutputsContainer \<Rightarrow> MultisignatureInput \<Rightarrow> bool" where
  "multisig_in_range outputs m =
    (case outputs (mi_amount m) of None \<Rightarrow> False | Some v \<Rightarrow> unat (mi_outputIndex m) < length v)"

definition erase_key_images :: "TransactionInput list \<Rightarrow> key_images_container \<Rightarrow> key_images_container" where
  "erase_key_images inputs spent =
    fold (\<lambda>i spent. case i of InKey k \<Rightarrow> spent(ki_keyImage k := None) | _ \<Rightarrow> spent) inputs spent"

definition set_used :: "bool \<Rightarrow> MultisignatureInput \<Rightarrow> MultisignatureOutputsContainer \<Rightarrow> MultisignatureOutputsContainer" where
  "set_used b m outputs =
    (case outputs (mi_amount m) of
       None \<Rightarrow> outputs
     | Some v \<Rightarrow> outputs(mi_amount m \<mapsto>
         v[unat (mi_outputIndex m) := (v ! unat (mi_outputIndex m))\<lparr>mu_isUsed := b\<rparr>]))"

definition mark_used :: "TransactionInput list \<Rightarrow> MultisignatureOutputsContainer \<Rightarrow> MultisignatureOutputsContainer" where
  "mark_used inputs outputs =
    fold (\<lambda>i outputs. case i of InMultisig m \<Rightarrow> set_used True m outputs | _ \<Rightarrow> outputs) inputs outputs"

text \<open>\<open>operator[]\<close> of a map creates an empty vector.\<close>

definition at_or_new :: "'k \<Rightarrow> ('k \<rightharpoonup> 'v list) \<Rightarrow> 'v list" where
  "at_or_new k m = (case m k of None \<Rightarrow> [] | Some v \<Rightarrow> v)"

definition push_output ::
    "TransactionIndex \<Rightarrow> nat \<Rightarrow> TransactionOutput \<Rightarrow> 'a Ledger_scheme \<Rightarrow> u32 \<times> 'a Ledger_scheme" where
  "push_output transactionIndex output out l =
    (case to_target out of
       OutKey _ \<Rightarrow>
         let amountOutputs = at_or_new (to_amount out) (m_outputs l) in
         (of_nat (length amountOutputs),
          l\<lparr>m_outputs := (m_outputs l)(to_amount out \<mapsto> amountOutputs @ [(transactionIndex, of_nat output)])\<rparr>)
     | OutMultisig _ \<Rightarrow>
         let amountOutputs = at_or_new (to_amount out) (m_multisignatureOutputs l) in
         (of_nat (length amountOutputs),
          l\<lparr>m_multisignatureOutputs := (m_multisignatureOutputs l)(to_amount out \<mapsto> amountOutputs @
            [\<lparr>mu_transactionIndex = transactionIndex, mu_outputIndex = of_nat output, mu_isUsed = False\<rparr>])\<rparr>))"

fun push_outputs ::
    "TransactionIndex \<Rightarrow> nat \<Rightarrow> TransactionOutput list \<Rightarrow> 'a Ledger_scheme \<Rightarrow> u32 list \<times> 'a Ledger_scheme" where
  "push_outputs transactionIndex output [] l = ([], l)"
| "push_outputs transactionIndex output (out # outs) l =
    (let (i, l) = push_output transactionIndex output out l;
         (is, l) = push_outputs transactionIndex (output + 1) outs l
     in (i # is, l))"

definition pushTransaction ::
    "(u8 list \<Rightarrow> Hash) \<Rightarrow> BlockEntry \<Rightarrow> Hash \<Rightarrow> TransactionIndex \<Rightarrow> 'a Ledger_scheme \<Rightarrow>
      bool option \<times> BlockEntry \<times> 'a Ledger_scheme" where
  "pushTransaction H block transactionHash transactionIndex l =
    (if m_transactionMap l transactionHash \<noteq> None then (Some False, block, l)
     else
       let l = l\<lparr>m_transactionMap := (m_transactionMap l)(transactionHash \<mapsto> transactionIndex)\<rparr>;
           position = unat (ti_transaction transactionIndex) in
       if \<not> position < length (be_transactions block) then (None, block, l)
       else
         let transaction = be_transactions block ! position;
             tx = te_tx transaction in
         if \<not> checkMultisignatureInputsDiff tx
         then (Some False, block, l\<lparr>m_transactionMap := (m_transactionMap l)(transactionHash := None)\<rparr>)
         else
           case insert_key_images (be_height block) [] (tp_inputs tx) (m_spent_keys l) of
             (None, spent) \<Rightarrow> (None, block, l\<lparr>m_spent_keys := spent\<rparr>)
           | (Some False, spent) \<Rightarrow>
               (Some False, block, l\<lparr>m_spent_keys := spent,
                 m_transactionMap := (m_transactionMap l)(transactionHash := None)\<rparr>)
           | (Some True, spent) \<Rightarrow>
               if \<not> list_all (\<lambda>i. case i of InMultisig m \<Rightarrow> multisig_in_range (m_multisignatureOutputs l) m | _ \<Rightarrow> True)
                    (tp_inputs tx)
               then (Some False, block, l\<lparr>m_spent_keys := erase_key_images (tp_inputs tx) spent,
                 m_transactionMap := (m_transactionMap l)(transactionHash := None)\<rparr>)
               else
                 let l = l\<lparr>m_spent_keys := spent,
                       m_multisignatureOutputs := mark_used (tp_inputs tx) (m_multisignatureOutputs l)\<rparr>;
                     (indexes, l) = push_outputs transactionIndex 0 (tp_outputs tx) l;
                     l = l\<lparr>m_paymentIdIndex := snd (PaymentIdIndex_add H tx (m_paymentIdIndex l))\<rparr>;
                     block = block\<lparr>be_transactions := (be_transactions block)
                       [position := transaction\<lparr>te_global_output_indexes := indexes\<rparr>]\<rparr>
                 in (Some True, block, l))"

section \<open>Removing a transaction\<close>

text \<open>One pass of the loop over the outputs; every failed consistency check leaves the containers.\<close>

definition pop_output ::
    "TransactionIndex \<Rightarrow> nat \<Rightarrow> TransactionOutput \<Rightarrow> 'a Ledger_scheme \<Rightarrow> 'a Ledger_scheme" where
  "pop_output transactionIndex output out l =
    (case to_target out of
       OutKey _ \<Rightarrow>
         (case m_outputs l (to_amount out) of
            None \<Rightarrow> l
          | Some v \<Rightarrow>
              if v = [] then l
              else if ti_block (fst (last v)) \<noteq> ti_block transactionIndex
                \<or> ti_transaction (fst (last v)) \<noteq> ti_transaction transactionIndex then l
              else if unat (snd (last v)) \<noteq> output then l
              else l\<lparr>m_outputs := (m_outputs l)(to_amount out :=
                if butlast v = [] then None else Some (butlast v))\<rparr>)
     | OutMultisig _ \<Rightarrow>
         (case m_multisignatureOutputs l (to_amount out) of
            None \<Rightarrow> l
          | Some v \<Rightarrow>
              if v = [] then l
              else if mu_isUsed (last v) then l
              else if ti_block (mu_transactionIndex (last v)) \<noteq> ti_block transactionIndex
                \<or> ti_transaction (mu_transactionIndex (last v)) \<noteq> ti_transaction transactionIndex then l
              else if unat (mu_outputIndex (last v)) \<noteq> output then l
              else l\<lparr>m_multisignatureOutputs := (m_multisignatureOutputs l)(to_amount out :=
                if butlast v = [] then None else Some (butlast v))\<rparr>))"

fun pop_outputs ::
    "TransactionIndex \<Rightarrow> TransactionOutput list \<Rightarrow> nat \<Rightarrow> 'a Ledger_scheme \<Rightarrow> 'a Ledger_scheme" where
  "pop_outputs transactionIndex outs 0 l = l"
| "pop_outputs transactionIndex outs (Suc n) l =
    pop_outputs transactionIndex outs n (pop_output transactionIndex n (outs ! n) l)"

definition pop_input :: "TransactionInput \<Rightarrow> 'a Ledger_scheme \<Rightarrow> 'a Ledger_scheme" where
  "pop_input input l =
    (case input of
       InKey k \<Rightarrow> l\<lparr>m_spent_keys := (m_spent_keys l)(ki_keyImage k := None)\<rparr>
     | InMultisig m \<Rightarrow>
         if \<not> multisig_in_range (m_multisignatureOutputs l) m then l
         else l\<lparr>m_multisignatureOutputs := set_used False m (m_multisignatureOutputs l)\<rparr>
     | InBase _ \<Rightarrow> l)"

definition popTransaction ::
    "(u8 list \<Rightarrow> Hash) \<Rightarrow> Transaction \<Rightarrow> Hash \<Rightarrow> 'a Ledger_scheme \<Rightarrow> 'a Ledger_scheme option" where
  "popTransaction H transaction transactionHash l =
    (case m_transactionMap l transactionHash of
       None \<Rightarrow> None
     | Some transactionIndex \<Rightarrow>
         let l = pop_outputs transactionIndex (tp_outputs transaction) (length (tp_outputs transaction)) l;
             l = fold pop_input (tp_inputs transaction) l;
             l = l\<lparr>m_paymentIdIndex := snd (PaymentIdIndex_remove H transaction (m_paymentIdIndex l))\<rparr>
         in Some (l\<lparr>m_transactionMap := (m_transactionMap l)(transactionHash := None)\<rparr>))"

text \<open>
  \<open>popTransactions\<close>: the transactions after the first in reverse order with their hashes, then the
  base transaction.
\<close>

fun pop_loop ::
    "(u8 list \<Rightarrow> Hash) \<Rightarrow> (Transaction \<times> Hash) list \<Rightarrow> 'a Ledger_scheme \<Rightarrow> 'a Ledger_scheme option" where
  "pop_loop H [] l = Some l"
| "pop_loop H ((tx, h) # txs) l =
    (case popTransaction H tx h l of None \<Rightarrow> None | Some l \<Rightarrow> pop_loop H txs l)"

definition popTransactions ::
    "(u8 list \<Rightarrow> Hash) \<Rightarrow> BlockEntry \<Rightarrow> Hash \<Rightarrow> 'a Ledger_scheme \<Rightarrow> 'a Ledger_scheme option" where
  "popTransactions H block minerTransactionHash l =
    (if be_transactions block = [] then None
     else if length (bl_transactionHashes (be_bl block)) < length (be_transactions block) - 1 then None
     else
       case pop_loop H (rev (zip (map te_tx (tl (be_transactions block))) (bl_transactionHashes (be_bl block)))) l of
         None \<Rightarrow> None
       | Some l \<Rightarrow> popTransaction H (bl_baseTransaction (be_bl block)) minerTransactionHash l)"

section \<open>Key images\<close>

definition key_images :: "TransactionInput list \<Rightarrow> KeyImage list" where
  "key_images inputs = concat (map (\<lambda>i. case i of InKey k \<Rightarrow> [ki_keyImage k] | _ \<Rightarrow> []) inputs)"

lemma key_images_simps [simp]:
  "key_images [] = []"
  "key_images (InKey k # is) = ki_keyImage k # key_images is"
  "key_images (InBase b # is) = key_images is"
  "key_images (InMultisig m # is) = key_images is"
  by (simp_all add: key_images_def)

lemma erase_back_not_ok: "erase_back earlier spent \<noteq> (Some True, spent')"
proof (induction earlier arbitrary: spent)
  case (Cons i earlier)
  then show ?case by (cases i) simp_all
qed simp

lemma insert_key_images_ok:
  "insert_key_images h earlier inputs spent = (Some True, spent') \<Longrightarrow>
    (\<forall>k \<in> set (key_images inputs). spent k = None) \<and> distinct (key_images inputs)
    \<and> spent' = (\<lambda>k. if k \<in> set (key_images inputs) then Some h else spent k)"
proof (induction inputs arbitrary: earlier spent)
  case (Cons i inputs)
  show ?case
  proof (cases i)
    case (InKey k)
    then have fresh: "spent (ki_keyImage k) = None"
      and "insert_key_images h (InKey k # earlier) inputs (spent(ki_keyImage k \<mapsto> h)) = (Some True, spent')"
      using Cons.prems erase_back_not_ok by (auto split: if_splits)
    from Cons.IH [OF this(2)] fresh InKey show ?thesis by (auto simp: fun_eq_iff split: if_splits)
  qed (use Cons in \<open>auto\<close>)
qed simp

lemma insert_key_images_fresh:
  "\<forall>k \<in> set (key_images inputs). spent k = None \<Longrightarrow> distinct (key_images inputs) \<Longrightarrow>
    \<exists>spent'. insert_key_images h earlier inputs spent = (Some True, spent')"
proof (induction inputs arbitrary: earlier spent)
  case (Cons i inputs)
  then show ?case
  proof (cases i)
    case (InKey k)
    then have "\<forall>k' \<in> set (key_images inputs). (spent(ki_keyImage k \<mapsto> h)) k' = None"
      using Cons.prems by auto
    then show ?thesis using Cons InKey by simp
  qed simp_all
qed simp

lemma erase_key_images_eq:
  "erase_key_images inputs spent = (\<lambda>k. if k \<in> set (key_images inputs) then None else spent k)"
  unfolding erase_key_images_def
proof (induction inputs arbitrary: spent)
  case (Cons i inputs)
  then show ?case by (cases i) (auto simp: fun_eq_iff)
qed simp

text \<open>With key inputs only, or without a clash, the roll back restores the key images.\<close>

lemma erase_back_restores:
  "erase_back earlier spent' = (r, spent) \<Longrightarrow> r \<noteq> None \<Longrightarrow>
    r = Some False \<and> spent = (\<lambda>k. if k \<in> set (key_images earlier) then None else spent' k)"
proof (induction earlier arbitrary: spent')
  case (Cons i earlier)
  then show ?case by (cases i) (auto simp: fun_eq_iff)
qed auto

lemma insert_key_images_rollback:
  "insert_key_images h earlier inputs spent = (Some False, spent') \<Longrightarrow>
    spent' = (\<lambda>k. if k \<in> set (key_images earlier) then None else spent k)"
proof (induction inputs arbitrary: earlier spent)
  case (Cons i inputs)
  show ?case
  proof (cases i)
    case (InKey k)
    show ?thesis
    proof (cases "spent (ki_keyImage k)")
      case None
      then have "insert_key_images h (InKey k # earlier) inputs (spent(ki_keyImage k \<mapsto> h)) = (Some False, spent')"
        using Cons.prems InKey by simp
      from Cons.IH [OF this] show ?thesis using None by (auto simp: fun_eq_iff)
    next
      case (Some a)
      then have "erase_back earlier spent = (Some False, spent')" using Cons.prems InKey by simp
      then show ?thesis using erase_back_restores by blast
    qed
  qed (use Cons in \<open>force+\<close>)
qed simp

section \<open>Multisignature outputs\<close>

definition refers :: "TransactionInput list \<Rightarrow> u64 \<Rightarrow> nat \<Rightarrow> bool" where
  "refers inputs a n \<longleftrightarrow> list_ex (\<lambda>i. case i of
      InMultisig m \<Rightarrow> mi_amount m = a \<and> unat (mi_outputIndex m) = n | _ \<Rightarrow> False) inputs"

definition with_used :: "(u64 \<Rightarrow> nat \<Rightarrow> bool) \<Rightarrow> bool \<Rightarrow> MultisignatureOutputsContainer \<Rightarrow> MultisignatureOutputsContainer" where
  "with_used P b outputs = (\<lambda>a. map_option (\<lambda>v. map (\<lambda>n. if P a n then (v ! n)\<lparr>mu_isUsed := b\<rparr> else v ! n)
    [0 ..< length v]) (outputs a))"

lemma with_used_None: "outputs a = None \<Longrightarrow> with_used P b outputs a = None"
  by (simp add: with_used_def)

lemma with_used_Some:
  "outputs a = Some v \<Longrightarrow>
    with_used P b outputs a = Some (map (\<lambda>n. if P a n then (v ! n)\<lparr>mu_isUsed := b\<rparr> else v ! n) [0 ..< length v])"
  by (simp add: with_used_def)

lemma with_used_none:
  assumes "\<And>a n. \<not> P a n"
  shows "with_used P b outputs = outputs"
proof
  fix a
  show "with_used P b outputs a = outputs a"
    by (cases "outputs a") (simp_all add: with_used_None with_used_Some assms map_nth)
qed

lemma with_used_twice:
  "with_used Q b (with_used P b outputs) = with_used (\<lambda>a n. P a n \<or> Q a n) b outputs"
proof
  fix a
  show "with_used Q b (with_used P b outputs) a = with_used (\<lambda>a n. P a n \<or> Q a n) b outputs a"
  proof (cases "outputs a")
    case (Some v)
    show ?thesis
      unfolding with_used_Some [where outputs = outputs, OF Some]
        with_used_Some [where outputs = "with_used P b outputs", OF with_used_Some [where outputs = outputs, OF Some]]
      by simp
  qed (simp add: with_used_None)
qed

lemma set_used_eq:
  "set_used b m outputs = with_used (\<lambda>a n. mi_amount m = a \<and> unat (mi_outputIndex m) = n) b outputs"
proof
  fix a
  show "set_used b m outputs a = with_used (\<lambda>a n. mi_amount m = a \<and> unat (mi_outputIndex m) = n) b outputs a"
  proof (cases "outputs a")
    case None
    then show ?thesis by (auto simp: with_used_None set_used_def split: option.split)
  next
    case (Some v)
    have "v[k := (v ! k)\<lparr>mu_isUsed := b\<rparr>] = map (\<lambda>n. if k = n then (v ! n)\<lparr>mu_isUsed := b\<rparr> else v ! n) [0 ..< length v]"
      for k by (rule nth_equalityI) (simp_all add: nth_list_update)
    then show ?thesis using Some
      by (cases "mi_amount m = a") (auto simp: with_used_Some map_nth set_used_def split: option.split)
  qed
qed

lemma refers_Cons:
  "refers (i # is) = (\<lambda>a n. (case i of InMultisig m \<Rightarrow> mi_amount m = a \<and> unat (mi_outputIndex m) = n | _ \<Rightarrow> False)
    \<or> refers is a n)"
  by (simp add: refers_def fun_eq_iff)

lemma fold_set_used:
  "fold (\<lambda>i outputs. case i of InMultisig m \<Rightarrow> set_used b m outputs | _ \<Rightarrow> outputs) inputs outputs
    = with_used (refers inputs) b outputs"
proof (induction inputs arbitrary: outputs)
  case Nil
  then show ?case by (simp add: with_used_none refers_def)
next
  case (Cons i inputs)
  then show ?case
    by (cases i) (simp_all add: refers_Cons set_used_eq with_used_twice)
qed

lemma mark_used_eq: "mark_used inputs outputs = with_used (refers inputs) True outputs"
  unfolding mark_used_def by (rule fold_set_used)

definition unused :: "TransactionInput list \<Rightarrow> MultisignatureOutputsContainer \<Rightarrow> bool" where
  "unused inputs outputs \<longleftrightarrow> list_all (\<lambda>i. case i of
      InMultisig m \<Rightarrow> (case outputs (mi_amount m) of None \<Rightarrow> False
        | Some v \<Rightarrow> unat (mi_outputIndex m) < length v \<and> \<not> mu_isUsed (v ! unat (mi_outputIndex m)))
    | _ \<Rightarrow> True) inputs"

lemma unused_refers:
  "unused inputs outputs \<Longrightarrow> refers inputs a n \<Longrightarrow>
    \<exists>v. outputs a = Some v \<and> n < length v \<and> \<not> mu_isUsed (v ! n)"
proof -
  assume unused: "unused inputs outputs" and "refers inputs a n"
  then obtain m where "InMultisig m \<in> set inputs" and m: "mi_amount m = a" "unat (mi_outputIndex m) = n"
    unfolding refers_def list_ex_iff by (fastforce split: TransactionInput.splits)
  with unused have "case outputs (mi_amount m) of None \<Rightarrow> False
        | Some v \<Rightarrow> unat (mi_outputIndex m) < length v \<and> \<not> mu_isUsed (v ! unat (mi_outputIndex m))"
    unfolding unused_def list_all_iff by fastforce
  then show ?thesis using m by (auto split: option.splits)
qed

lemma unmark_mark:
  assumes "unused inputs outputs"
  shows "with_used (refers inputs) False (with_used (refers inputs) True outputs) = outputs"
proof
  fix a
  show "with_used (refers inputs) False (with_used (refers inputs) True outputs) a = outputs a"
  proof (cases "outputs a")
    case (Some v)
    have "\<not> mu_isUsed (v ! n)" if "refers inputs a n" for n using unused_refers [OF assms that] Some by auto
    then have keep: "(v ! n)\<lparr>mu_isUsed := False\<rparr> = v ! n" if "refers inputs a n" for n using that by simp
    show ?thesis
      unfolding with_used_Some [where outputs = outputs, OF Some] Some
        with_used_Some [where outputs = "with_used P b outputs" for P b, OF with_used_Some [where outputs = outputs, OF Some]]
      by (intro arg_cong [where f = Some] nth_equalityI) (simp_all add: keep)
  qed (simp add: with_used_None)
qed

section \<open>Outputs\<close>

text \<open>No amount has an empty vector of outputs: \<open>popTransaction\<close> erases a vector it empties.\<close>

definition ledger_wf :: "'a Ledger_scheme \<Rightarrow> bool" where
  "ledger_wf l \<longleftrightarrow> (\<forall>a. m_outputs l a \<noteq> Some []) \<and> (\<forall>a. m_multisignatureOutputs l a \<noteq> Some [])"

lemma push_output_wf: "ledger_wf l \<Longrightarrow> ledger_wf (snd (push_output ti n out l))"
  by (auto simp: ledger_wf_def push_output_def Let_def split: TransactionOutputTarget.splits)

lemma pop_push_output:
  "ledger_wf l \<Longrightarrow> n < 65536 \<Longrightarrow> pop_output ti n out (snd (push_output ti n out l)) = l"
  by (cases "to_target out"; cases "m_outputs l (to_amount out)"; cases "m_multisignatureOutputs l (to_amount out)")
    (auto simp: ledger_wf_def push_output_def pop_output_def at_or_new_def unat_of_nat Let_def
      fun_upd_idem butlast_append)

lemma push_outputs_snoc:
  "push_outputs ti n (outs @ [out]) l =
    (fst (push_outputs ti n outs l) @ [fst (push_output ti (n + length outs) out (snd (push_outputs ti n outs l)))],
     snd (push_output ti (n + length outs) out (snd (push_outputs ti n outs l))))"
  by (induction outs arbitrary: n l) (auto simp: split_beta Let_def)

lemma push_outputs_wf: "ledger_wf l \<Longrightarrow> ledger_wf (snd (push_outputs ti n outs l))"
  by (induction outs rule: rev_induct) (simp_all add: push_outputs_snoc push_output_wf)

lemma pop_outputs_append:
  "n \<le> length outs \<Longrightarrow> pop_outputs ti (outs @ outs') n l = pop_outputs ti outs n l"
  by (induction n arbitrary: l) (simp_all add: nth_append)

lemma pop_push_outputs:
  "ledger_wf l \<Longrightarrow> length outs \<le> 65536 \<Longrightarrow>
    pop_outputs ti outs (length outs) (snd (push_outputs ti 0 outs l)) = l"
proof (induction outs rule: rev_induct)
  case (snoc out outs)
  then show ?case
    by (simp add: push_outputs_snoc pop_push_output push_outputs_wf pop_outputs_append)
qed simp

lemma push_output_frame:
  "m_spent_keys (snd (push_output ti n out l)) = m_spent_keys l"
  "m_transactionMap (snd (push_output ti n out l)) = m_transactionMap l"
  "m_paymentIdIndex (snd (push_output ti n out l)) = m_paymentIdIndex l"
  by (simp_all add: push_output_def Let_def split: TransactionOutputTarget.splits)

lemma push_outputs_frame:
  "m_spent_keys (snd (push_outputs ti n outs l)) = m_spent_keys l"
  "m_transactionMap (snd (push_outputs ti n outs l)) = m_transactionMap l"
  "m_paymentIdIndex (snd (push_outputs ti n outs l)) = m_paymentIdIndex l"
  by (induction outs rule: rev_induct) (simp_all add: push_outputs_snoc push_output_frame)

lemma pop_output_payment:
  "pop_output ti n out (l\<lparr>m_paymentIdIndex := p\<rparr>) = (pop_output ti n out l)\<lparr>m_paymentIdIndex := p\<rparr>"
  by (cases "to_target out"; cases "m_outputs l (to_amount out)"; cases "m_multisignatureOutputs l (to_amount out)")
    (simp_all add: pop_output_def)

lemma pop_outputs_payment:
  "pop_outputs ti outs n (l\<lparr>m_paymentIdIndex := p\<rparr>) = (pop_outputs ti outs n l)\<lparr>m_paymentIdIndex := p\<rparr>"
  by (induction n arbitrary: l) (simp_all add: pop_output_payment)

section \<open>Inputs\<close>

lemma set_used_out_of_range: "\<not> multisig_in_range outputs m \<Longrightarrow> set_used b m outputs = outputs"
  by (auto simp: multisig_in_range_def set_used_def list_update_beyond fun_upd_idem split: option.splits)

lemma pop_input_eq:
  "pop_input i l = l\<lparr>
    m_spent_keys := (case i of InKey k \<Rightarrow> (m_spent_keys l)(ki_keyImage k := None) | _ \<Rightarrow> m_spent_keys l),
    m_multisignatureOutputs := (case i of InMultisig m \<Rightarrow> set_used False m (m_multisignatureOutputs l)
      | _ \<Rightarrow> m_multisignatureOutputs l)\<rparr>"
  by (cases i) (simp_all add: pop_input_def set_used_out_of_range)

lemma fold_pop_input:
  "fold pop_input inputs l = l\<lparr>m_spent_keys := erase_key_images inputs (m_spent_keys l),
    m_multisignatureOutputs := with_used (refers inputs) False (m_multisignatureOutputs l)\<rparr>"
  unfolding erase_key_images_def fold_set_used [symmetric]
  by (induction inputs arbitrary: l) (simp_all add: pop_input_eq)

section \<open>Adding and removing a transaction\<close>

lemma with_used_wf: "ledger_wf l \<Longrightarrow> ledger_wf (l\<lparr>m_multisignatureOutputs := with_used P b (m_multisignatureOutputs l)\<rparr>)"
  by (auto simp: ledger_wf_def with_used_def)

text \<open>What a successful \<open>pushTransaction\<close> did.\<close>

lemma pushTransaction_ok:
  assumes "pushTransaction H block h ti l = (Some True, block', l')"
  defines "transaction \<equiv> be_transactions block ! unat (ti_transaction ti)"
  defines "l1 \<equiv> l\<lparr>m_transactionMap := (m_transactionMap l)(h \<mapsto> ti),
      m_spent_keys := (\<lambda>k. if k \<in> set (key_images (tp_inputs (te_tx transaction)))
        then Some (be_height block) else m_spent_keys l k),
      m_multisignatureOutputs := with_used (refers (tp_inputs (te_tx transaction))) True (m_multisignatureOutputs l)\<rparr>"
  defines "pushed \<equiv> push_outputs ti 0 (tp_outputs (te_tx transaction)) l1"
  shows "m_transactionMap l h = None"
    and "\<forall>k \<in> set (key_images (tp_inputs (te_tx transaction))). m_spent_keys l k = None"
    and "distinct (key_images (tp_inputs (te_tx transaction)))"
    and "checkMultisignatureInputsDiff (te_tx transaction)"
    and "unat (ti_transaction ti) < length (be_transactions block)"
    and "l' = (snd pushed)\<lparr>m_paymentIdIndex := snd (PaymentIdIndex_add H (te_tx transaction) (m_paymentIdIndex l))\<rparr>"
    and "block' = block\<lparr>be_transactions := (be_transactions block)
      [unat (ti_transaction ti) := transaction\<lparr>te_global_output_indexes := fst pushed\<rparr>]\<rparr>"
proof -
  obtain spent where fresh: "m_transactionMap l h = None"
    and bound: "unat (ti_transaction ti) < length (be_transactions block)"
    and diff: "checkMultisignatureInputsDiff (te_tx transaction)"
    and ins: "insert_key_images (be_height block) [] (tp_inputs (te_tx transaction)) (m_spent_keys l) = (Some True, spent)"
    and res: "(block', l') = (let l = l\<lparr>m_transactionMap := (m_transactionMap l)(h \<mapsto> ti), m_spent_keys := spent,
                       m_multisignatureOutputs := mark_used (tp_inputs (te_tx transaction)) (m_multisignatureOutputs l)\<rparr>;
                     (indexes, l) = push_outputs ti 0 (tp_outputs (te_tx transaction)) l
                 in (block\<lparr>be_transactions := (be_transactions block)
                       [unat (ti_transaction ti) := transaction\<lparr>te_global_output_indexes := indexes\<rparr>]\<rparr>,
                     l\<lparr>m_paymentIdIndex := snd (PaymentIdIndex_add H (te_tx transaction) (m_paymentIdIndex l))\<rparr>))"
    using assms(1) unfolding pushTransaction_def transaction_def Let_def
    by (auto split: if_splits prod.splits option.splits bool.splits)
  note ok = insert_key_images_ok [OF ins]
  show "m_transactionMap l h = None" by (rule fresh)
  show "\<forall>k \<in> set (key_images (tp_inputs (te_tx transaction))). m_spent_keys l k = None" using ok by blast
  show "distinct (key_images (tp_inputs (te_tx transaction)))" using ok by blast
  show "checkMultisignatureInputsDiff (te_tx transaction)" by (rule diff)
  show "unat (ti_transaction ti) < length (be_transactions block)" by (rule bound)
  have spent: "spent = (\<lambda>k. if k \<in> set (key_images (tp_inputs (te_tx transaction)))
        then Some (be_height block) else m_spent_keys l k)" using ok by blast
  note res = res [unfolded spent mark_used_eq, folded l1_def, folded pushed_def]
  have "m_paymentIdIndex (snd pushed) = m_paymentIdIndex l"
    by (simp add: pushed_def push_outputs_frame l1_def)
  then show "l' = (snd pushed)\<lparr>m_paymentIdIndex := snd (PaymentIdIndex_add H (te_tx transaction) (m_paymentIdIndex l))\<rparr>"
    and "block' = block\<lparr>be_transactions := (be_transactions block)
      [unat (ti_transaction ti) := transaction\<lparr>te_global_output_indexes := fst pushed\<rparr>]\<rparr>"
    using res by (simp_all add: Let_def split_beta l1_def pushed_def)
qed

lemma push_failed_unchanged:
  assumes "pushTransaction H block h ti l = (Some False, block', l')"
  shows "block' = block \<and> l' = l"
proof -
  have *: "(m_transactionMap l)(h := None) = m_transactionMap l" if "m_transactionMap l h = None"
    using that by auto
  show ?thesis
    using assms unfolding pushTransaction_def Let_def
    by (auto simp: * fun_eq_iff erase_key_images_eq split: if_splits prod.splits option.splits bool.splits
        dest!: insert_key_images_rollback insert_key_images_ok)
qed

text \<open>A successful \<open>pushTransaction\<close> keeps the invariant and \<open>popTransaction\<close> undoes it.\<close>

lemma pushTransaction_wf:
  assumes "pushTransaction H block h ti l = (Some True, block', l')" and "ledger_wf l"
  shows "ledger_wf l'"
proof -
  let ?tx = "te_tx (be_transactions block ! unat (ti_transaction ti))"
  have "ledger_wf (l\<lparr>m_transactionMap := (m_transactionMap l)(h \<mapsto> ti),
      m_spent_keys := (\<lambda>k. if k \<in> set (key_images (tp_inputs ?tx)) then Some (be_height block) else m_spent_keys l k),
      m_multisignatureOutputs := with_used (refers (tp_inputs ?tx)) True (m_multisignatureOutputs l)\<rparr>)"
    using with_used_wf [OF assms(2)] by (auto simp: ledger_wf_def)
  from push_outputs_wf [OF this] show ?thesis
    unfolding pushTransaction_ok(6) [OF assms(1)] by (simp add: ledger_wf_def)
qed

lemma pop_push_transaction:
  assumes push: "pushTransaction H block h ti l = (Some True, block', l')" and wf: "ledger_wf l"
    and tx: "te_tx (be_transactions block ! unat (ti_transaction ti)) = tx"
    and outs: "length (tp_outputs tx) \<le> 65536" and unused: "unused (tp_inputs tx) (m_multisignatureOutputs l)"
  shows "popTransaction H tx h l' = Some l"
proof -
  note ok = pushTransaction_ok [OF push, unfolded tx]
  define l1 where "l1 = l\<lparr>m_transactionMap := (m_transactionMap l)(h \<mapsto> ti),
      m_spent_keys := (\<lambda>k. if k \<in> set (key_images (tp_inputs tx)) then Some (be_height block) else m_spent_keys l k),
      m_multisignatureOutputs := with_used (refers (tp_inputs tx)) True (m_multisignatureOutputs l)\<rparr>"
  have l': "l' = (snd (push_outputs ti 0 (tp_outputs tx) l1))
      \<lparr>m_paymentIdIndex := snd (PaymentIdIndex_add H tx (m_paymentIdIndex l))\<rparr>"
    using ok(6) unfolding l1_def .
  have wf1: "ledger_wf l1" using with_used_wf [OF wf] by (auto simp: ledger_wf_def l1_def)
  have map: "m_transactionMap l' h = Some ti" by (simp add: l' push_outputs_frame l1_def)
  have outs': "pop_outputs ti (tp_outputs tx) (length (tp_outputs tx)) l'
      = l1\<lparr>m_paymentIdIndex := snd (PaymentIdIndex_add H tx (m_paymentIdIndex l))\<rparr>"
    unfolding l' pop_outputs_payment pop_push_outputs [OF wf1 outs] ..
  have spent: "erase_key_images (tp_inputs tx) (m_spent_keys l1) = m_spent_keys l"
    using ok(2) by (auto simp: erase_key_images_eq l1_def fun_eq_iff)
  have multi: "with_used (refers (tp_inputs tx)) False (m_multisignatureOutputs l1) = m_multisignatureOutputs l"
    using unmark_mark [OF unused] by (simp add: l1_def)
  have pay: "snd (PaymentIdIndex_remove H tx (snd (PaymentIdIndex_add H tx (m_paymentIdIndex l)))) = m_paymentIdIndex l"
    by (rule payment_index.remove_add) simp
  show ?thesis
    using ok(1) by (simp add: popTransaction_def map outs' fold_pop_input spent multi pay Let_def) (simp add: l1_def fun_upd_idem)
qed

text \<open>The exact condition of success.\<close>

lemma pushTransaction_succeeds_iff:
  "(\<exists>block' l'. pushTransaction H block h ti l = (Some True, block', l')) \<longleftrightarrow>
    (let tx = te_tx (be_transactions block ! unat (ti_transaction ti)) in
     m_transactionMap l h = None \<and> unat (ti_transaction ti) < length (be_transactions block)
     \<and> checkMultisignatureInputsDiff tx \<and> distinct (key_images (tp_inputs tx))
     \<and> (\<forall>k \<in> set (key_images (tp_inputs tx)). m_spent_keys l k = None)
     \<and> list_all (\<lambda>i. case i of InMultisig m \<Rightarrow> multisig_in_range (m_multisignatureOutputs l) m | _ \<Rightarrow> True)
          (tp_inputs tx))"
    (is "?L \<longleftrightarrow> ?R")
proof
  assume ?L
  then obtain block' l' where push: "pushTransaction H block h ti l = (Some True, block', l')" by blast
  note ok = pushTransaction_ok [OF push]
  have "list_all (\<lambda>i. case i of InMultisig m \<Rightarrow> multisig_in_range (m_multisignatureOutputs l) m | _ \<Rightarrow> True)
      (tp_inputs (te_tx (be_transactions block ! unat (ti_transaction ti))))"
    using push by (auto simp: pushTransaction_def Let_def split: if_splits option.splits prod.splits bool.splits)
  then show ?R using ok(1-5) by (simp add: Let_def)
next
  assume ?R
  let ?is = "tp_inputs (te_tx (be_transactions block ! unat (ti_transaction ti)))"
  obtain spent where "insert_key_images (be_height block) [] ?is (m_spent_keys l) = (Some True, spent)"
    using \<open>?R\<close> insert_key_images_fresh by (metis (no_types, lifting))
  then show ?L using \<open>?R\<close> by (auto simp: pushTransaction_def Let_def split_beta)
qed

text \<open>What extends the ledger is not touched.\<close>

lemma push_output_more: "Ledger.more (snd (push_output ti n out l)) = Ledger.more l"
  by (simp add: push_output_def Let_def split: TransactionOutputTarget.splits)

lemma push_outputs_more: "Ledger.more (snd (push_outputs ti n outs l)) = Ledger.more l"
  by (induction outs rule: rev_induct) (simp_all add: push_outputs_snoc push_output_more)

lemma pushTransaction_more:
  "pushTransaction H block h ti l = (Some r, block', l') \<Longrightarrow> Ledger.more l' = Ledger.more l"
  using pushTransaction_ok(6) [of H block h ti l block' l'] push_failed_unchanged [of H block h ti l block' l']
  by (cases r) (auto simp: push_outputs_more)

lemma pop_output_more: "Ledger.more (pop_output ti n out l) = Ledger.more l"
  by (auto simp: pop_output_def split: TransactionOutputTarget.splits option.splits)

lemma pop_outputs_more: "Ledger.more (pop_outputs ti outs n l) = Ledger.more l"
  by (induction n arbitrary: l) (simp_all add: pop_output_more)

lemma popTransaction_more: "popTransaction H tx h l = Some l' \<Longrightarrow> Ledger.more l' = Ledger.more l"
  by (auto simp: popTransaction_def fold_pop_input pop_outputs_more Let_def split: option.splits)

lemma pop_loop_more: "pop_loop H txs l = Some l' \<Longrightarrow> Ledger.more l' = Ledger.more l"
proof (induction txs arbitrary: l)
  case (Cons x txs)
  then show ?case by (cases x) (auto split: option.splits dest: popTransaction_more)
qed simp

lemma popTransactions_more: "popTransactions H block h l = Some l' \<Longrightarrow> Ledger.more l' = Ledger.more l"
  by (auto simp: popTransactions_def split: option.splits if_splits dest!: popTransaction_more pop_loop_more)

text \<open>
  The roll back throws when an input that is not a key input precedes a clash of key images: the
  exception leaves the entry of the transaction map behind.
\<close>

lemma rollback_throws:
  assumes "m_transactionMap l h = None" and "unat (ti_transaction ti) < length (be_transactions block)"
    and "tp_inputs (te_tx (be_transactions block ! unat (ti_transaction ti))) = [InMultisig m, InKey k]"
    and "m_spent_keys l (ki_keyImage k) \<noteq> None"
  shows "\<exists>l'. pushTransaction H block h ti l = (None, block, l') \<and> m_transactionMap l' h = Some ti"
  using assms by (auto simp: pushTransaction_def checkMultisignatureInputsDiff_def Let_def)

text \<open>A transaction with one input and one output, in a block on an empty ledger.\<close>

definition sample_tx :: Transaction where
  "sample_tx = \<lparr>tp_version = 1, tp_unlockTime = 0,
    tp_inputs = [InKey \<lparr>ki_amount = 5, ki_outputIndexes = [0], ki_keyImage = 9\<rparr>],
    tp_outputs = [\<lparr>to_amount = 4, to_target = OutKey \<lparr>ko_key = 7\<rparr>\<rparr>], tp_extra = [], tx_signatures = [[1]]\<rparr>"

definition sample_entry :: BlockEntry where
  "sample_entry = \<lparr>be_bl = \<lparr>bh_majorVersion = 1, bh_minorVersion = 0, bh_nonce = 0, bh_timestamp = 0,
      bh_previousBlockHash = 0, bl_baseTransaction = sample_tx, bl_transactionHashes = []\<rparr>,
    be_height = 6, be_block_cumulative_size = 0, be_cumulative_difficulty = 0, be_already_generated_coins = 0,
    be_transactions = [\<lparr>te_tx = sample_tx, te_global_output_indexes = []\<rparr>]\<rparr>"

definition sample_ledger :: Ledger where
  "sample_ledger = \<lparr>m_spent_keys = Map.empty, m_outputs = Map.empty, m_multisignatureOutputs = Map.empty,
    m_transactionMap = Map.empty, m_paymentIdIndex = {#}\<rparr>"

lemma sample_pushed:
  "fst (pushTransaction (\<lambda>_. 0) sample_entry 3 \<lparr>ti_block = 6, ti_transaction = 0\<rparr> sample_ledger) = Some True"
  by (simp add: pushTransaction_def sample_entry_def sample_ledger_def sample_tx_def checkMultisignatureInputsDiff_def
      Let_def split_beta)

text \<open>
  C8. \<open>pushTransaction\<close> either succeeds, and then \<open>popTransaction\<close> restores
  every container of the ledger exactly and the new ledger is well formed, or it reports failure, and
  then it has changed neither the block nor any container. The multisignature inputs of the
  transaction must refer to unspent outputs, which \<open>validateInput\<close> has checked before, and its
  outputs must be counted by 16 bits, the width at which their positions are stored.
\<close>

theorem transaction_push_pop:
  assumes "ledger_wf l" and "te_tx (be_transactions block ! unat (ti_transaction ti)) = tx"
    and "length (tp_outputs tx) \<le> 65536" and "unused (tp_inputs tx) (m_multisignatureOutputs l)"
  shows "case pushTransaction H block h ti l of (result, block', l') \<Rightarrow>
    (result = Some True \<longrightarrow> ledger_wf l' \<and> popTransaction H tx h l' = Some l)
    \<and> (result = Some False \<longrightarrow> block' = block \<and> l' = l)"
  using pushTransaction_wf [of H block h ti l] pop_push_transaction [of H block h ti l] push_failed_unchanged [of H block h ti l] assms
  by (auto split: prod.split)

theorem transaction_push_pop_witness:
  "\<exists>block' l'. pushTransaction (\<lambda>_. 0) sample_entry 3 \<lparr>ti_block = 6, ti_transaction = 0\<rparr> sample_ledger
      = (Some True, block', l') \<and> popTransaction (\<lambda>_. 0) sample_tx 3 l' = Some sample_ledger"
proof -
  have "ledger_wf sample_ledger" by (simp add: ledger_wf_def sample_ledger_def)
  moreover have "te_tx (be_transactions sample_entry ! unat (ti_transaction \<lparr>ti_block = 6, ti_transaction = 0\<rparr>)) = sample_tx"
    by (simp add: sample_entry_def)
  moreover have "length (tp_outputs sample_tx) \<le> 65536" and "unused (tp_inputs sample_tx) (m_multisignatureOutputs sample_ledger)"
    by (simp_all add: sample_tx_def unused_def)
  ultimately show ?thesis
    using transaction_push_pop [of sample_ledger sample_entry "\<lparr>ti_block = 6, ti_transaction = 0\<rparr>" sample_tx "\<lambda>_. 0" 3] sample_pushed
    by (auto split: prod.splits)
qed

text \<open>
  C7. \<open>pushTransaction\<close> succeeds exactly when the hash is new, the position
  is a transaction of the block, the multisignature inputs are distinct and in range and the key
  images are distinct and unspent. After success exactly these key images are spent in addition, at
  the block's height, and the transaction is found under its hash.
\<close>

theorem transaction_push_exact:
  "let tx = te_tx (be_transactions block ! unat (ti_transaction ti)) in
   (fst (pushTransaction H block h ti l) = Some True \<longleftrightarrow>
     m_transactionMap l h = None \<and> unat (ti_transaction ti) < length (be_transactions block)
     \<and> checkMultisignatureInputsDiff tx \<and> distinct (key_images (tp_inputs tx))
     \<and> (\<forall>k. k \<in> set (key_images (tp_inputs tx)) \<longrightarrow> m_spent_keys l k = None)
     \<and> (\<forall>m. InMultisig m \<in> set (tp_inputs tx) \<longrightarrow> multisig_in_range (m_multisignatureOutputs l) m))
   \<and> (fst (pushTransaction H block h ti l) = Some True \<longrightarrow>
     m_spent_keys (snd (snd (pushTransaction H block h ti l)))
       = (\<lambda>k. if k \<in> set (key_images (tp_inputs tx)) then Some (be_height block) else m_spent_keys l k)
     \<and> m_transactionMap (snd (snd (pushTransaction H block h ti l))) = (m_transactionMap l)(h \<mapsto> ti))"
proof -
  let ?tx = "te_tx (be_transactions block ! unat (ti_transaction ti))"
  have range: "list_all (\<lambda>i. case i of InMultisig m \<Rightarrow> multisig_in_range (m_multisignatureOutputs l) m | _ \<Rightarrow> True)
      (tp_inputs ?tx) \<longleftrightarrow> (\<forall>m. InMultisig m \<in> set (tp_inputs ?tx) \<longrightarrow> multisig_in_range (m_multisignatureOutputs l) m)"
    by (auto simp: list_all_iff split: TransactionInput.splits)
  obtain r block' l' where push: "pushTransaction H block h ti l = (r, block', l')" by (cases "pushTransaction H block h ti l")
  have iff: "r = Some True \<longleftrightarrow>
     m_transactionMap l h = None \<and> unat (ti_transaction ti) < length (be_transactions block)
     \<and> checkMultisignatureInputsDiff ?tx \<and> distinct (key_images (tp_inputs ?tx))
     \<and> (\<forall>k. k \<in> set (key_images (tp_inputs ?tx)) \<longrightarrow> m_spent_keys l k = None)
     \<and> (\<forall>m. InMultisig m \<in> set (tp_inputs ?tx) \<longrightarrow> multisig_in_range (m_multisignatureOutputs l) m)"
    using pushTransaction_succeeds_iff [of H block h ti l] unfolding Let_def range Ball_def push by simp
  have "r = Some True \<Longrightarrow> m_spent_keys l' = (\<lambda>k. if k \<in> set (key_images (tp_inputs ?tx)) then Some (be_height block) else m_spent_keys l k)
     \<and> m_transactionMap l' = (m_transactionMap l)(h \<mapsto> ti)"
    using pushTransaction_ok(6) [of H block h ti l block' l'] push by (simp add: push_outputs_frame)
  with iff show ?thesis unfolding push Let_def by simp
qed

theorem transaction_push_exact_witness:
  "m_spent_keys (snd (snd (pushTransaction (\<lambda>_. 0) sample_entry 3 \<lparr>ti_block = 6, ti_transaction = 0\<rparr> sample_ledger))) = [9 \<mapsto> 6]"
  using transaction_push_exact [of sample_entry "\<lparr>ti_block = 6, ti_transaction = 0\<rparr>" "\<lambda>_. 0" 3 sample_ledger] sample_pushed
  by (auto simp: Let_def fun_eq_iff) (simp_all add: sample_entry_def sample_tx_def sample_ledger_def)

end
