(* ===== verification/Chain_Checks.thy ===== *)
theory Chain_Checks
  imports Chain_State Block_Index Deposit_Index Checkpoint_List Upgrade_Detector Difficulty_Adjustment Reward Interest
    "HOL-Library.Sublist"
begin

text \<open>
  The checks a block and its transactions have to pass before they enter the main chain
  (\<open>src/CryptoNoteCore/Blockchain.cpp\<close>, the templates of \<open>Blockchain.h\<close> and \<open>medianValue\<close> of
  \<open>src/Common/Math.h\<close>), over the state of the blockchain storage. The cryptographic primitives and
  the clock are arguments. An exception, a failing assertion or an access outside a vector is \<open>None\<close>.
\<close>

record Blockchain = Ledger +
  m_blocks :: "BlockEntry list"
  m_blockIndex :: BlockIndex
  m_depositIndex :: DepositIndex
  m_timestampIndex :: TimestampBlocksIndex
  m_generatedTransactionsIndex :: GeneratedTransactionsIndex
  m_upgradeDetectorV2 :: UpgradeDetector
  m_upgradeDetectorV3 :: UpgradeDetector
  m_upgradeDetectorV4 :: UpgradeDetector
  m_upgradeDetectorV7 :: UpgradeDetector
  m_upgradeDetectorV8 :: UpgradeDetector
  m_current_block_cumul_sz_limit :: u64
  m_checkpoints :: Checkpoints

text \<open>The functions of \<open>src/crypto\<close> that the checks call.\<close>

record crypto_ops =
  cn_fast_hash :: "u8 list \<Rightarrow> Hash"
  cn_slow_hash :: "slow_hash \<Rightarrow> u8 list \<Rightarrow> Hash"
  check_key :: "PublicKey \<Rightarrow> bool"
  check_signature :: "Hash \<Rightarrow> PublicKey \<Rightarrow> Signature \<Rightarrow> bool"
  scalarmultKey :: "KeyImage \<Rightarrow> KeyImage \<Rightarrow> KeyImage"
  check_ring_signature :: "Hash \<Rightarrow> KeyImage \<Rightarrow> PublicKey list \<Rightarrow> Signature list \<Rightarrow> bool"

section \<open>Queries\<close>

definition getCurrentBlockchainHeight :: "Blockchain \<Rightarrow> u32" where
  "getCurrentBlockchainHeight bc = of_nat (length (m_blocks bc))"

definition Blockchain_getTailId :: "Blockchain \<Rightarrow> Hash option" where
  "Blockchain_getTailId bc = (if m_blocks bc = [] then Some 0 else BlockIndex_getTailId (m_blockIndex bc))"

definition getBlockIdByHeight :: "u32 \<Rightarrow> Blockchain \<Rightarrow> Hash option" where
  "getBlockIdByHeight height bc =
    (if \<not> height < BlockIndex_size (m_blockIndex bc) then None else BlockIndex_getBlockId height (m_blockIndex bc))"

definition haveTransaction :: "Hash \<Rightarrow> 'a Ledger_scheme \<Rightarrow> bool" where
  "haveTransaction h bc \<longleftrightarrow> m_transactionMap bc h \<noteq> None"

definition have_tx_keyimg_as_spent :: "KeyImage \<Rightarrow> 'a Ledger_scheme \<Rightarrow> bool" where
  "have_tx_keyimg_as_spent key_im bc \<longleftrightarrow> m_spent_keys bc key_im \<noteq> None"

definition haveTransactionKeyImagesAsSpent :: "Transaction \<Rightarrow> 'a Ledger_scheme \<Rightarrow> bool" where
  "haveTransactionKeyImagesAsSpent tx bc = list_ex (\<lambda>i. case i of
      InKey k \<Rightarrow> have_tx_keyimg_as_spent (ki_keyImage k) bc | _ \<Rightarrow> False) (tp_inputs tx)"

definition isInCheckpointZone :: "u32 \<Rightarrow> Blockchain \<Rightarrow> bool" where
  "isInCheckpointZone height bc = is_in_checkpoint_zone height (m_checkpoints bc)"

definition checkTransactionSize :: "Currency \<Rightarrow> u64 \<Rightarrow> Blockchain \<Rightarrow> bool" where
  "checkTransactionSize c blobSize bc =
    (if m_current_block_cumul_sz_limit bc - m_minerTxBlobReservedSize c \<le> blobSize then False else True)"

definition transactionByIndex :: "BlockEntry list \<Rightarrow> TransactionIndex \<Rightarrow> TransactionEntry option" where
  "transactionByIndex blocks index =
    (if \<not> unat (ti_block index) < length blocks then None
     else
       let transactions = be_transactions (blocks ! unat (ti_block index)) in
       if \<not> unat (ti_transaction index) < length transactions then None
       else Some (transactions ! unat (ti_transaction index)))"

definition getCoinsInCirculation :: "Blockchain \<Rightarrow> u64" where
  "getCoinsInCirculation bc = (if m_blocks bc = [] then 0 else be_already_generated_coins (last (m_blocks bc)))"

definition coinsEmittedAtHeight :: "u64 \<Rightarrow> Blockchain \<Rightarrow> u64 option" where
  "coinsEmittedAtHeight height bc =
    (if unat height < length (m_blocks bc) then Some (be_already_generated_coins (m_blocks bc ! unat height)) else None)"

definition difficultyAtHeight :: "u64 \<Rightarrow> Blockchain \<Rightarrow> u64 option" where
  "difficultyAtHeight height bc =
    (if \<not> unat height < length (m_blocks bc) then None
     else
       let current = m_blocks bc ! unat height in
       if height < 1 then Some (be_cumulative_difficulty current)
       else Some (be_cumulative_difficulty current - be_cumulative_difficulty (m_blocks bc ! unat (height - 1))))"

text \<open>Both functions that give the block version of a height; they differ in the width of the height.\<close>

definition get_block_major_version_for_height :: "Currency \<Rightarrow> u64 \<Rightarrow> Blockchain \<Rightarrow> u8" where
  "get_block_major_version_for_height c height bc =
    (if ucast (ud_upgradeHeight c (m_upgradeDetectorV8 bc)) < height then ud_targetVersion (m_upgradeDetectorV8 bc)
     else if ucast (ud_upgradeHeight c (m_upgradeDetectorV7 bc)) < height then ud_targetVersion (m_upgradeDetectorV7 bc)
     else if ucast (ud_upgradeHeight c (m_upgradeDetectorV4 bc)) < height then ud_targetVersion (m_upgradeDetectorV4 bc)
     else if ucast (ud_upgradeHeight c (m_upgradeDetectorV3 bc)) < height then ud_targetVersion (m_upgradeDetectorV3 bc)
     else if ucast (ud_upgradeHeight c (m_upgradeDetectorV2 bc)) < height then ud_targetVersion (m_upgradeDetectorV2 bc)
     else 1)"

definition getBlockMajorVersionForHeight :: "Currency \<Rightarrow> u32 \<Rightarrow> Blockchain \<Rightarrow> u8" where
  "getBlockMajorVersionForHeight c height bc =
    (if ud_upgradeHeight c (m_upgradeDetectorV8 bc) < height then ud_targetVersion (m_upgradeDetectorV8 bc)
     else if ud_upgradeHeight c (m_upgradeDetectorV7 bc) < height then ud_targetVersion (m_upgradeDetectorV7 bc)
     else if ud_upgradeHeight c (m_upgradeDetectorV4 bc) < height then ud_targetVersion (m_upgradeDetectorV4 bc)
     else if ud_upgradeHeight c (m_upgradeDetectorV3 bc) < height then ud_targetVersion (m_upgradeDetectorV3 bc)
     else if ud_upgradeHeight c (m_upgradeDetectorV2 bc) < height then ud_targetVersion (m_upgradeDetectorV2 bc)
     else 1)"

section \<open>Medians and block sizes\<close>

definition medianValue :: "u64 list \<Rightarrow> u64" where
  "medianValue v =
    (if v = [] then 0
     else if length v = 1 then v ! 0
     else
       let n = length v div 2; v = sort v in
       if length v mod 2 \<noteq> 0 then v ! n else (v ! (n - 1) + v ! n) div 2)"

definition getBackwardBlocksSize :: "nat \<Rightarrow> u64 list \<Rightarrow> nat \<Rightarrow> Blockchain \<Rightarrow> bool \<times> u64 list" where
  "getBackwardBlocksSize from_height sz count_n bc =
    (if \<not> from_height < length (m_blocks bc) then (False, sz)
     else
       let start_offset = (from_height + 1) - min (from_height + 1) count_n in
       (True, sz @ map (\<lambda>i. be_block_cumulative_size (m_blocks bc ! i)) [start_offset ..< from_height + 1]))"

definition get_last_n_blocks_sizes :: "nat \<Rightarrow> Blockchain \<Rightarrow> u64 list" where
  "get_last_n_blocks_sizes count_n bc =
    (if m_blocks bc = [] then [] else snd (getBackwardBlocksSize (length (m_blocks bc) - 1) [] count_n bc))"

definition update_next_comulative_size_limit :: "Currency \<Rightarrow> Blockchain \<Rightarrow> Blockchain" where
  "update_next_comulative_size_limit c bc =
    (let median = medianValue (get_last_n_blocks_sizes (unat (m_rewardBlocksWindow c)) bc);
         median = (if median \<le> m_blockGrantedFullRewardZone c then m_blockGrantedFullRewardZone c else median)
     in bc\<lparr>m_current_block_cumul_sz_limit := median * 2\<rparr>)"

definition checkCumulativeBlockSize :: "Currency \<Rightarrow> u64 \<Rightarrow> u64 \<Rightarrow> bool option" where
  "checkCumulativeBlockSize c cumulativeBlockSize height =
    map_option (\<lambda>maxBlockCumulativeSize. \<not> maxBlockCumulativeSize < cumulativeBlockSize) (maxBlockCumulativeSize c height)"

section \<open>Timestamps, versions and difficulty\<close>

definition check_block_timestamp :: "Currency \<Rightarrow> u64 list \<Rightarrow> Block \<Rightarrow> bool" where
  "check_block_timestamp c timestamps b =
    (if length timestamps < unat (m_timestampCheckWindow c) then True
     else if bh_timestamp b < medianValue timestamps then False
     else True)"

definition check_block_timestamp_main :: "Currency \<Rightarrow> u64 \<Rightarrow> Block \<Rightarrow> Blockchain \<Rightarrow> bool" where
  "check_block_timestamp_main c now b bc =
    (if now + m_blockFutureTimeLimit c < bh_timestamp b then False
     else
       let n = length (m_blocks bc); window = unat (m_timestampCheckWindow c);
           offset = (if n \<le> window then 0 else n - window) in
       check_block_timestamp c (map (\<lambda>i. bh_timestamp (be_bl (m_blocks bc ! i))) [offset ..< n]) b)"

text \<open>The loop of \<open>complete_timestamps_vector\<close> collects downwards until the height \<open>stop_offset\<close>.\<close>

fun timestamps_down :: "BlockEntry list \<Rightarrow> nat \<Rightarrow> nat \<Rightarrow> u64 list" where
  "timestamps_down blocks stop_offset 0 = [bh_timestamp (be_bl (blocks ! 0))]"
| "timestamps_down blocks stop_offset (Suc h) = bh_timestamp (be_bl (blocks ! Suc h)) #
    (if h = stop_offset then [] else timestamps_down blocks stop_offset h)"

definition complete_timestamps_vector :: "Currency \<Rightarrow> u64 \<Rightarrow> u64 list \<Rightarrow> Blockchain \<Rightarrow> bool \<times> u64 list" where
  "complete_timestamps_vector c start_top_height timestamps bc =
    (if unat (m_timestampCheckWindow c) \<le> length timestamps then (True, timestamps)
     else
       let need_elements = unat (m_timestampCheckWindow c) - length timestamps;
           start = unat start_top_height in
       if \<not> start < length (m_blocks bc) then (False, timestamps)
       else
         let stop_offset = (if need_elements < start then start - need_elements else 0) in
         (True, timestamps @ timestamps_down (m_blocks bc) stop_offset start))"

definition checkBlockVersion :: "Currency \<Rightarrow> Block \<Rightarrow> Blockchain \<Rightarrow> bool" where
  "checkBlockVersion c b bc =
    (bh_majorVersion b = get_block_major_version_for_height c (ucast (get_block_height b)) bc)"

definition getDifficultyForNextBlock :: "Currency \<Rightarrow> Blockchain \<Rightarrow> u64 option" where
  "getDifficultyForNextBlock c bc =
    (let n = length (m_blocks bc);
         BlockMajorVersion = getBlockMajorVersionForHeight c (of_nat n) bc;
         offset = n - min n (unat (difficultyBlocksCountByBlockVersion c BlockMajorVersion));
         offset = (if offset = 0 then offset + 1 else offset);
         timestamps = map (\<lambda>i. bh_timestamp (be_bl (m_blocks bc ! i))) [offset ..< n];
         commulative_difficulties = map (\<lambda>i. be_cumulative_difficulty (m_blocks bc ! i)) [offset ..< n];
         block_index = of_nat n :: u64;
         block_major_version = get_block_major_version_for_height c (block_index + 1) bc in
     if 8 \<le> block_major_version then nextDifficultyLWMA1 c timestamps commulative_difficulties block_index
     else if 4 \<le> block_major_version then nextDifficultyLWMA3 timestamps commulative_difficulties
     else nextDifficulty c block_major_version (ucast block_index) timestamps commulative_difficulties)"

section \<open>Inputs and outputs of transactions\<close>

definition is_tx_spendtime_unlocked :: "Currency \<Rightarrow> u64 \<Rightarrow> u64 \<Rightarrow> Blockchain \<Rightarrow> bool" where
  "is_tx_spendtime_unlocked c now unlock_time bc =
    (if unlock_time < m_maxBlockHeight c then
       unlock_time \<le> ucast (getCurrentBlockchainHeight bc - 1) + m_lockedTxAllowedDeltaBlocks c
     else unlock_time \<le> now + m_lockedTxAllowedDeltaSeconds c)"

text \<open>
  \<open>scanOutputKeysForIndexes\<close>: the visitor \<open>handle_output\<close> returns what it collects, \<open>None\<close> where it
  refuses the output. The result is the returned flag, what was collected and the largest height
  behind the optional pointer, which only the last output can raise.
\<close>

fun scan_loop ::
    "BlockEntry list \<Rightarrow> (Transaction \<Rightarrow> TransactionOutput \<Rightarrow> 'k option) \<Rightarrow> (TransactionIndex \<times> u16) list \<Rightarrow>
      u32 list \<Rightarrow> u32 option \<Rightarrow> 'k list \<Rightarrow> (bool \<times> 'k list \<times> u32 option) option" where
  "scan_loop blocks handle_output amount_outs [] pmax collected = Some (True, collected, pmax)"
| "scan_loop blocks handle_output amount_outs (i # offsets) pmax collected =
    (if length amount_outs \<le> unat i then Some (False, collected, pmax)
     else
       let (index, output) = amount_outs ! unat i in
       case transactionByIndex blocks index of
         None \<Rightarrow> None
       | Some entry \<Rightarrow>
           if \<not> unat output < length (tp_outputs (te_tx entry)) then Some (False, collected, pmax)
           else
             case handle_output (te_tx entry) (tp_outputs (te_tx entry) ! unat output) of
               None \<Rightarrow> Some (False, collected, pmax)
             | Some k \<Rightarrow>
                 let pmax = (if offsets = [] then map_option (\<lambda>h. if h < ti_block index then ti_block index else h) pmax
                             else pmax)
                 in scan_loop blocks handle_output amount_outs offsets pmax (collected @ [k]))"

definition scanOutputKeysForIndexes ::
    "(Transaction \<Rightarrow> TransactionOutput \<Rightarrow> 'k option) \<Rightarrow> KeyInput \<Rightarrow> u32 option \<Rightarrow> Blockchain \<Rightarrow>
      (bool \<times> 'k list \<times> u32 option) option" where
  "scanOutputKeysForIndexes handle_output txin pmax bc =
    (case m_outputs bc (ki_amount txin) of
       None \<Rightarrow> Some (False, [], pmax)
     | Some amount_outs \<Rightarrow>
         if ki_outputIndexes txin = [] then Some (False, [], pmax)
         else scan_loop (m_blocks bc) handle_output amount_outs
           (relative_output_offsets_to_absolute (ki_outputIndexes txin)) pmax [])"

definition handle_key_output ::
    "Currency \<Rightarrow> u64 \<Rightarrow> Blockchain \<Rightarrow> Transaction \<Rightarrow> TransactionOutput \<Rightarrow> PublicKey option" where
  "handle_key_output c now bc tx out =
    (if \<not> is_tx_spendtime_unlocked c now (tp_unlockTime tx) bc then None
     else case to_target out of OutKey k \<Rightarrow> Some (ko_key k) | OutMultisig _ \<Rightarrow> None)"

definition UPGRADE_HEIGHT_V4 :: u64 where "UPGRADE_HEIGHT_V4 = 45000"
definition UPGRADE_HEIGHT_V5 :: u64 where "UPGRADE_HEIGHT_V5 = 98160"

text \<open>The constants \<open>I\<close> and \<open>L\<close> of \<open>check_tx_input\<close>, whose bytes are in little-endian order.\<close>

definition key_image_I :: KeyImage where "key_image_I = 1"
definition key_image_L :: KeyImage where
  "key_image_L = 0x1000000000000000000000000000000014def9dea2f79cd65812631a5cf5d3ed"

definition check_tx_input ::
    "crypto_ops \<Rightarrow> Currency \<Rightarrow> u64 \<Rightarrow> KeyInput \<Rightarrow> Hash \<Rightarrow> Signature list \<Rightarrow> u32 option \<Rightarrow> Blockchain \<Rightarrow>
      (bool \<times> u32 option) option" where
  "check_tx_input cr c now txin tx_prefix_hash sig pmax bc =
    (case scanOutputKeysForIndexes (handle_key_output c now bc) txin pmax bc of
       None \<Rightarrow> None
     | Some (found, output_keys, pmax) \<Rightarrow>
         let height = getCurrentBlockchainHeight bc in
         if \<not> found then Some (False, pmax)
         else if length (ki_outputIndexes txin) \<noteq> length output_keys then Some (False, pmax)
         else if UPGRADE_HEIGHT_V4 < ucast height \<and> ucast height < UPGRADE_HEIGHT_V5
           \<and> length (ki_outputIndexes txin) < 3 then Some (False, pmax)
         else if length sig \<noteq> length output_keys then Some (False, pmax)
         else if isInCheckpointZone height bc then Some (True, pmax)
         else if scalarmultKey cr (ki_keyImage txin) key_image_L \<noteq> key_image_I then Some (False, pmax)
         else Some (check_ring_signature cr tx_prefix_hash (ki_keyImage txin) output_keys sig, pmax))"

text \<open>The loop of \<open>validateInput\<close>: the keys and the signatures that remain.\<close>

fun multisig_signatures :: "(PublicKey \<Rightarrow> Signature \<Rightarrow> bool) \<Rightarrow> PublicKey list \<Rightarrow> Signature list \<Rightarrow> bool" where
  "multisig_signatures check keys [] = True"
| "multisig_signatures check [] (s # sigs) = False"
| "multisig_signatures check (k # keys) (s # sigs) =
    (if check k s then multisig_signatures check keys sigs else multisig_signatures check keys (s # sigs))"

definition validateInput ::
    "crypto_ops \<Rightarrow> Currency \<Rightarrow> u64 \<Rightarrow> MultisignatureInput \<Rightarrow> Hash \<Rightarrow> Signature list \<Rightarrow> Blockchain \<Rightarrow> bool option" where
  "validateInput cr c now input transactionPrefixHash transactionSignatures bc =
    (if unat (mi_signatureCount input) \<noteq> length transactionSignatures then None
     else
       case m_multisignatureOutputs bc (mi_amount input) of
         None \<Rightarrow> Some False
       | Some amountOutputs \<Rightarrow>
           if length amountOutputs \<le> unat (mi_outputIndex input) then Some False
           else
             let outputIndex = amountOutputs ! unat (mi_outputIndex input) in
             if mu_isUsed outputIndex then Some False
             else
               case transactionByIndex (m_blocks bc) (mu_transactionIndex outputIndex) of
                 None \<Rightarrow> None
               | Some entry \<Rightarrow>
                   let outputTransaction = te_tx entry in
                   if \<not> is_tx_spendtime_unlocked c now (tp_unlockTime outputTransaction) bc then Some False
                   else if \<not> unat (mu_outputIndex outputIndex) < length (tp_outputs outputTransaction) then None
                   else
                     let out = tp_outputs outputTransaction ! unat (mu_outputIndex outputIndex) in
                     if to_amount out \<noteq> mi_amount input then None
                     else
                       case to_target out of
                         OutKey _ \<Rightarrow> None
                       | OutMultisig output \<Rightarrow>
                           if mi_signatureCount input \<noteq> mo_requiredSignatureCount output then Some False
                           else if mi_term input \<noteq> mo_term output then Some False
                           else if mo_term output \<noteq> 0
                             \<and> getCurrentBlockchainHeight bc < ti_block (mu_transactionIndex outputIndex) + mo_term output
                             then Some False
                           else if isInCheckpointZone (getCurrentBlockchainHeight bc) bc then Some True
                           else Some (multisig_signatures (check_signature cr transactionPrefixHash)
                             (mo_keys output) transactionSignatures))"

fun check_inputs_loop ::
    "crypto_ops \<Rightarrow> Currency \<Rightarrow> u64 \<Rightarrow> Hash \<Rightarrow> Blockchain \<Rightarrow> TransactionInput list \<Rightarrow> Signature list list \<Rightarrow>
      u32 option \<Rightarrow> (bool \<times> u32 option) option" where
  "check_inputs_loop cr c now tx_prefix_hash bc [] sigs pmax = Some (True, pmax)"
| "check_inputs_loop cr c now tx_prefix_hash bc (txin # inputs) [] pmax = None"
| "check_inputs_loop cr c now tx_prefix_hash bc (txin # inputs) (sig # sigs) pmax =
    (case txin of
       InKey in_to_key \<Rightarrow>
         if ki_outputIndexes in_to_key = [] then Some (False, pmax)
         else if have_tx_keyimg_as_spent (ki_keyImage in_to_key) bc then Some (False, pmax)
         else
           (case check_tx_input cr c now in_to_key tx_prefix_hash sig pmax bc of
              None \<Rightarrow> None
            | Some (ok, pmax) \<Rightarrow>
                if \<not> ok then Some (False, pmax)
                else check_inputs_loop cr c now tx_prefix_hash bc inputs sigs pmax)
     | InMultisig m \<Rightarrow>
         (case validateInput cr c now m tx_prefix_hash sig bc of
            None \<Rightarrow> None
          | Some ok \<Rightarrow>
              if \<not> ok then Some (False, pmax)
              else check_inputs_loop cr c now tx_prefix_hash bc inputs sigs pmax)
     | InBase _ \<Rightarrow> Some (False, pmax))"

text \<open>The versions of \<open>checkTransactionInputs\<close>; the pointer to the largest height is optional.\<close>

definition checkTransactionInputs ::
    "crypto_ops \<Rightarrow> Currency \<Rightarrow> u64 \<Rightarrow> Transaction \<Rightarrow> u32 option \<Rightarrow> Blockchain \<Rightarrow> (bool \<times> u32 option) option" where
  "checkTransactionInputs cr c now tx pmax bc =
    (let tx_prefix_hash = snd (getObjectHash (cn_fast_hash cr) out_TransactionPrefix (TransactionPrefix.truncate tx)) in
     check_inputs_loop cr c now tx_prefix_hash bc (tp_inputs tx) (tx_signatures tx) (map_option (\<lambda>_. 0) pmax))"

definition checkTransactionInputs_block ::
    "crypto_ops \<Rightarrow> Currency \<Rightarrow> u64 \<Rightarrow> Transaction \<Rightarrow> Blockchain \<Rightarrow> (bool \<times> u32 \<times> Hash option) option" where
  "checkTransactionInputs_block cr c now tx bc =
    (case checkTransactionInputs cr c now tx (Some 0) bc of
       None \<Rightarrow> None
     | Some (ok, pmax) \<Rightarrow>
         let max_used_block_height = the pmax in
         if \<not> ok then Some (False, max_used_block_height, None)
         else if \<not> unat max_used_block_height < length (m_blocks bc) then Some (False, max_used_block_height, None)
         else Some (True, max_used_block_height,
           Some (snd (get_block_hash (cn_fast_hash cr) (be_bl (m_blocks bc ! unat max_used_block_height))))))"

definition check_tx_output :: "crypto_ops \<Rightarrow> Currency \<Rightarrow> Transaction \<Rightarrow> u32 \<Rightarrow> TransactionOutput \<Rightarrow> bool" where
  "check_tx_output cr c tx height out =
    (case to_target out of
       OutKey k \<Rightarrow>
         if to_amount out = 0 then False
         else if \<not> check_key cr (ko_key k) then False
         else True
     | OutMultisig m \<Rightarrow>
         if tp_version tx < 2 then False
         else if \<not> validateOutput c (to_amount out) m height then False
         else if length (mo_keys m) < unat (mo_requiredSignatureCount m) then False
         else if list_ex (\<lambda>key. \<not> check_key cr key) (mo_keys m) then False
         else True)"

definition check_tx_outputs :: "crypto_ops \<Rightarrow> Currency \<Rightarrow> Transaction \<Rightarrow> u32 \<Rightarrow> bool" where
  "check_tx_outputs cr c tx height = list_all (check_tx_output cr c tx height) (tp_outputs tx)"

section \<open>The miner transaction\<close>

definition prevalidate_miner_transaction :: "crypto_ops \<Rightarrow> Currency \<Rightarrow> Block \<Rightarrow> u32 \<Rightarrow> bool option" where
  "prevalidate_miner_transaction cr c b height =
    (let tx = bl_baseTransaction b in
     if length (tp_inputs tx) \<noteq> 1 then Some False
     else if 1 < length (tx_signatures tx) then Some False
     else
       case tp_inputs tx ! 0 of
         InBase i \<Rightarrow>
           if bi_blockIndex i \<noteq> height then Some False
           else if tp_unlockTime tx \<noteq> ucast height + m_minedMoneyUnlockWindow c then Some False
           else
             (case check_outs_valid (check_key cr) False tx of
                None \<Rightarrow> None
              | Some (valid, _) \<Rightarrow>
                  if \<not> valid then Some False
                  else if \<not> check_tx_outputs cr c tx height then Some False
                  else if \<not> check_outs_overflow tx then Some False
                  else Some True)
       | _ \<Rightarrow> Some False)"

text \<open>\<open>validate_miner_transaction\<close>: the result with the reward and the change of emission.\<close>

definition validate_miner_transaction ::
    "Currency \<Rightarrow> Block \<Rightarrow> u32 \<Rightarrow> u64 \<Rightarrow> u64 \<Rightarrow> u64 \<Rightarrow> Blockchain \<Rightarrow> (bool \<times> u64 \<times> int) option" where
  "validate_miner_transaction c b height cumulativeBlockSize alreadyGeneratedCoins fee bc =
    (let minerReward = fold (\<lambda>o1 acc. acc + to_amount o1) (tp_outputs (bl_baseTransaction b)) 0;
         blocksSizeMedian = medianValue (get_last_n_blocks_sizes (unat (m_rewardBlocksWindow c)) bc) in
     case getBlockReward c blocksSizeMedian cumulativeBlockSize alreadyGeneratedCoins fee height of
       None \<Rightarrow> None
     | Some None \<Rightarrow> Some (False, 0, 0)
     | Some (Some (reward, emissionChange)) \<Rightarrow>
         if reward < minerReward \<and> 10 < minerReward - reward then Some (False, reward, emissionChange)
         else if minerReward < reward then Some (False, reward, emissionChange)
         else Some (True, reward, emissionChange))"

section \<open>Signatures of a multisignature input\<close>

text \<open>Matching every signature with the first key that fits finds a match whenever there is one.\<close>

lemma subseq_list_all2_Cons:
  "(\<exists>ks. subseq ks (k # keys) \<and> list_all2 P ks (s # sigs)) \<longleftrightarrow>
    (\<exists>ks. subseq ks keys \<and> list_all2 P ks (s # sigs)) \<or> (P k s \<and> (\<exists>ks. subseq ks keys \<and> list_all2 P ks sigs))"
proof
  assume "\<exists>ks. subseq ks (k # keys) \<and> list_all2 P ks (s # sigs)"
  then obtain k' ks where "subseq (k' # ks) (k # keys)" "P k' s" "list_all2 P ks sigs"
    by (auto simp: list_all2_Cons2)
  then show "(\<exists>ks. subseq ks keys \<and> list_all2 P ks (s # sigs)) \<or> (P k s \<and> (\<exists>ks. subseq ks keys \<and> list_all2 P ks sigs))"
    by (cases "k' = k") (auto simp: list_all2_Cons2)
next
  assume "(\<exists>ks. subseq ks keys \<and> list_all2 P ks (s # sigs)) \<or> (P k s \<and> (\<exists>ks. subseq ks keys \<and> list_all2 P ks sigs))"
  then show "\<exists>ks. subseq ks (k # keys) \<and> list_all2 P ks (s # sigs)"
  proof
    assume "P k s \<and> (\<exists>ks. subseq ks keys \<and> list_all2 P ks sigs)"
    then obtain ks where "P k s" "subseq ks keys" "list_all2 P ks sigs" by blast
    then show ?thesis by (intro exI [of _ "k # ks"]) simp
  qed (auto intro: list_emb_Cons)
qed

lemma multisig_signatures_iff:
  "multisig_signatures check keys sigs \<longleftrightarrow> (\<exists>ks. subseq ks keys \<and> list_all2 check ks sigs)"
proof (induction check keys sigs rule: multisig_signatures.induct)
  case (3 check k keys s sigs)
  have drop: "\<exists>ks. subseq ks keys \<and> list_all2 check ks sigs"
    if "\<exists>ks. subseq ks keys \<and> list_all2 check ks (s # sigs)"
    using that by (auto simp: list_all2_Cons2 dest: subseq_Cons')
  show ?case unfolding subseq_list_all2_Cons using 3 drop by auto
qed (auto simp: list_all2_Cons2)

section \<open>What an accepted input refers to\<close>

definition refers_to_output ::
    "Currency \<Rightarrow> u64 \<Rightarrow> Blockchain \<Rightarrow> TransactionIndex \<Rightarrow> u16 \<Rightarrow> TransactionOutput \<Rightarrow> bool" where
  "refers_to_output c now bc index n out \<longleftrightarrow>
    (\<exists>entry. transactionByIndex (m_blocks bc) index = Some entry \<and> unat n < length (tp_outputs (te_tx entry))
      \<and> tp_outputs (te_tx entry) ! unat n = out \<and> is_tx_spendtime_unlocked c now (tp_unlockTime (te_tx entry)) bc)"

text \<open>The keys of the outputs behind the absolute offsets of a key input.\<close>

definition ring_member :: "Currency \<Rightarrow> u64 \<Rightarrow> Blockchain \<Rightarrow> (TransactionIndex \<times> u16) list \<Rightarrow> u32 \<Rightarrow> PublicKey \<Rightarrow> bool" where
  "ring_member c now bc v i key \<longleftrightarrow> unat i < length v
    \<and> (\<exists>out k. refers_to_output c now bc (fst (v ! unat i)) (snd (v ! unat i)) out
         \<and> to_target out = OutKey k \<and> ko_key k = key)"

lemma scan_loop_sound:
  "scan_loop (m_blocks bc) (handle_key_output c now bc) v offsets pmax collected = Some (True, keys, pmax') \<Longrightarrow>
    \<exists>new. keys = collected @ new \<and> list_all2 (ring_member c now bc v) offsets new"
proof (induction offsets arbitrary: pmax collected)
  case (Cons i offsets)
  from Cons.prems have i: "unat i < length v" by (auto split: if_splits)
  obtain index n where io: "v ! unat i = (index, n)" by (cases "v ! unat i")
  from Cons.prems i io obtain entry k pmax1 where
      entry: "transactionByIndex (m_blocks bc) index = Some entry"
    and out: "unat n < length (tp_outputs (te_tx entry))"
    and handled: "handle_key_output c now bc (te_tx entry) (tp_outputs (te_tx entry) ! unat n) = Some k"
    and rest: "scan_loop (m_blocks bc) (handle_key_output c now bc) v offsets pmax1 (collected @ [k]) = Some (True, keys, pmax')"
    by (auto simp: Let_def split: option.splits if_splits)
  from Cons.IH [OF rest] obtain new where new: "keys = (collected @ [k]) @ new" "list_all2 (ring_member c now bc v) offsets new"
    by blast
  have "ring_member c now bc v i k"
    using i io entry out handled
    by (auto simp: ring_member_def refers_to_output_def handle_key_output_def split: if_splits TransactionOutputTarget.splits)
  with new show ?case by (intro exI [of _ "k # new"]) simp
qed simp

definition key_input_accepted ::
    "crypto_ops \<Rightarrow> Currency \<Rightarrow> u64 \<Rightarrow> Blockchain \<Rightarrow> Hash \<Rightarrow> KeyInput \<Rightarrow> Signature list \<Rightarrow> bool" where
  "key_input_accepted cr c now bc prefix_hash k sig \<longleftrightarrow>
    m_spent_keys bc (ki_keyImage k) = None
    \<and> (\<exists>v keys. m_outputs bc (ki_amount k) = Some v \<and> keys \<noteq> []
        \<and> list_all2 (ring_member c now bc v) (relative_output_offsets_to_absolute (ki_outputIndexes k)) keys
        \<and> length sig = length keys
        \<and> (UPGRADE_HEIGHT_V4 < ucast (getCurrentBlockchainHeight bc)
            \<and> ucast (getCurrentBlockchainHeight bc) < UPGRADE_HEIGHT_V5 \<longrightarrow> 3 \<le> length keys)
        \<and> (\<not> isInCheckpointZone (getCurrentBlockchainHeight bc) bc \<longrightarrow>
            scalarmultKey cr (ki_keyImage k) key_image_L = key_image_I
            \<and> check_ring_signature cr prefix_hash (ki_keyImage k) keys sig))"

definition multisig_input_accepted ::
    "crypto_ops \<Rightarrow> Currency \<Rightarrow> u64 \<Rightarrow> Blockchain \<Rightarrow> Hash \<Rightarrow> MultisignatureInput \<Rightarrow> Signature list \<Rightarrow> bool" where
  "multisig_input_accepted cr c now bc prefix_hash m sigs \<longleftrightarrow>
    (\<exists>v usage out output. m_multisignatureOutputs bc (mi_amount m) = Some v \<and> unat (mi_outputIndex m) < length v
      \<and> v ! unat (mi_outputIndex m) = usage \<and> \<not> mu_isUsed usage
      \<and> refers_to_output c now bc (mu_transactionIndex usage) (mu_outputIndex usage) out
      \<and> to_amount out = mi_amount m \<and> to_target out = OutMultisig output \<and> mi_term m = mo_term output
      \<and> (mo_term output \<noteq> 0 \<longrightarrow> ti_block (mu_transactionIndex usage) + mo_term output \<le> getCurrentBlockchainHeight bc)
      \<and> (\<not> isInCheckpointZone (getCurrentBlockchainHeight bc) bc \<longrightarrow>
          (\<exists>keys. subseq keys (mo_keys output) \<and> length keys = unat (mo_requiredSignatureCount output)
            \<and> list_all2 (check_signature cr prefix_hash) keys sigs)))"

lemma check_tx_input_sound:
  assumes "check_tx_input cr c now k h sig pmax bc = Some (True, pmax')" and "m_spent_keys bc (ki_keyImage k) = None"
  shows "key_input_accepted cr c now bc h k sig"
proof -
  obtain v where v: "m_outputs bc (ki_amount k) = Some v"
    using assms(1) by (auto simp: check_tx_input_def scanOutputKeysForIndexes_def split: option.splits)
  obtain keys pmax1 where ne: "ki_outputIndexes k \<noteq> []"
    and scan: "scan_loop (m_blocks bc) (handle_key_output c now bc) v
      (relative_output_offsets_to_absolute (ki_outputIndexes k)) pmax [] = Some (True, keys, pmax1)"
    and ring: "\<not> isInCheckpointZone (getCurrentBlockchainHeight bc) bc \<longrightarrow>
            scalarmultKey cr (ki_keyImage k) key_image_L = key_image_I
            \<and> check_ring_signature cr h (ki_keyImage k) keys sig"
    and sizes: "length sig = length keys" "UPGRADE_HEIGHT_V4 < ucast (getCurrentBlockchainHeight bc)
            \<and> ucast (getCurrentBlockchainHeight bc) < UPGRADE_HEIGHT_V5 \<longrightarrow> 3 \<le> length keys"
    using assms(1) v
    by (auto simp: check_tx_input_def scanOutputKeysForIndexes_def Let_def split: option.splits if_splits prod.splits)
  from scan_loop_sound [OF scan] have all: "list_all2 (ring_member c now bc v)
      (relative_output_offsets_to_absolute (ki_outputIndexes k)) keys" by simp
  moreover have "relative_output_offsets_to_absolute (ki_outputIndexes k) \<noteq> []"
    using ne by (auto simp: relative_output_offsets_to_absolute_def split: list.splits)
  ultimately have "keys \<noteq> []" by auto
  with all v ring sizes assms(2) show ?thesis unfolding key_input_accepted_def by blast
qed

lemma validateInput_sound:
  assumes "validateInput cr c now m h sig bc = Some True"
  shows "multisig_input_accepted cr c now bc h m sig"
proof -
  obtain v where v: "m_multisignatureOutputs bc (mi_amount m) = Some v" "unat (mi_outputIndex m) < length v"
    and count_eq: "unat (mi_signatureCount m) = length sig"
    using assms by (auto simp: validateInput_def split: option.splits if_splits)
  define usage where "usage = v ! unat (mi_outputIndex m)"
  obtain entry where entry: "transactionByIndex (m_blocks bc) (mu_transactionIndex usage) = Some entry"
    and unused: "\<not> mu_isUsed usage"
    using assms v by (auto simp: validateInput_def usage_def Let_def split: option.splits if_splits)
  define out where "out = tp_outputs (te_tx entry) ! unat (mu_outputIndex usage)"
  obtain mo where out: "to_target out = OutMultisig mo" "to_amount out = mi_amount m"
    and refs: "refers_to_output c now bc (mu_transactionIndex usage) (mu_outputIndex usage) out"
    using assms v entry
    by (auto simp: validateInput_def usage_def out_def refers_to_output_def Let_def
        split: option.splits if_splits TransactionOutputTarget.splits)
  have last: "mi_signatureCount m = mo_requiredSignatureCount mo" "mi_term m = mo_term mo"
    "mo_term mo \<noteq> 0 \<longrightarrow> ti_block (mu_transactionIndex usage) + mo_term mo \<le> getCurrentBlockchainHeight bc"
    "\<not> isInCheckpointZone (getCurrentBlockchainHeight bc) bc \<longrightarrow>
      multisig_signatures (check_signature cr h) (mo_keys mo) sig"
    using assms v entry out unfolding validateInput_def usage_def out_def Let_def
    by (auto split: if_splits)
  have "\<not> isInCheckpointZone (getCurrentBlockchainHeight bc) bc \<longrightarrow>
      (\<exists>keys. subseq keys (mo_keys mo) \<and> length keys = unat (mo_requiredSignatureCount mo)
            \<and> list_all2 (check_signature cr h) keys sig)"
    using last(1,4) count_eq unfolding multisig_signatures_iff by (metis list_all2_lengthD)
  then show ?thesis
    unfolding multisig_input_accepted_def using v unused refs out last usage_def by blast
qed

definition input_accepted ::
    "crypto_ops \<Rightarrow> Currency \<Rightarrow> u64 \<Rightarrow> Blockchain \<Rightarrow> Hash \<Rightarrow> TransactionInput \<Rightarrow> Signature list \<Rightarrow> bool" where
  "input_accepted cr c now bc prefix_hash i sig \<longleftrightarrow>
    (case i of InKey k \<Rightarrow> key_input_accepted cr c now bc prefix_hash k sig
     | InMultisig m \<Rightarrow> multisig_input_accepted cr c now bc prefix_hash m sig | InBase _ \<Rightarrow> False)"

lemma check_inputs_loop_sound:
  "check_inputs_loop cr c now h bc inputs sigs pmax = Some (True, pmax') \<Longrightarrow>
    list_all2 (input_accepted cr c now bc h) inputs (take (length inputs) sigs)"
proof (induction inputs arbitrary: sigs pmax)
  case (Cons i inputs)
  then obtain sig sigs' where sigs: "sigs = sig # sigs'" by (cases sigs) auto
  show ?case
  proof (cases i)
    case (InKey k)
    with Cons.prems sigs obtain p where "check_tx_input cr c now k h sig pmax bc = Some (True, p)"
      and "m_spent_keys bc (ki_keyImage k) = None"
      and "check_inputs_loop cr c now h bc inputs sigs' p = Some (True, pmax')"
      by (auto simp: have_tx_keyimg_as_spent_def split: if_splits option.splits)
    with Cons.IH InKey show ?thesis by (auto simp: sigs input_accepted_def intro: check_tx_input_sound)
  next
    case (InMultisig m)
    with Cons.prems sigs have "validateInput cr c now m h sig bc = Some True"
      and "check_inputs_loop cr c now h bc inputs sigs' pmax = Some (True, pmax')"
      by (auto split: if_splits option.splits)
    with Cons.IH InMultisig show ?thesis by (auto simp: sigs input_accepted_def intro: validateInput_sound)
  qed (use Cons.prems sigs in simp)
qed simp

lemma checkTransactionInputs_sound:
  assumes "checkTransactionInputs cr c now tx pmax bc = Some (True, pmax')"
  shows "list_all2 (input_accepted cr c now bc
      (snd (getObjectHash (cn_fast_hash cr) out_TransactionPrefix (TransactionPrefix.truncate tx))))
    (tp_inputs tx) (take (length (tp_inputs tx)) (tx_signatures tx))"
  using assms unfolding checkTransactionInputs_def Let_def by (rule check_inputs_loop_sound)

lemma accepted_unused:
  "list_all2 (input_accepted cr c now bc h) inputs sigs \<Longrightarrow> unused inputs (m_multisignatureOutputs bc)"
proof (induction inputs sigs rule: list_all2_induct)
  case (Cons i inputs sig sigs)
  then show ?case
    by (cases i) (auto simp: unused_def input_accepted_def multisig_input_accepted_def)
qed (simp add: unused_def)

lemma accepted_key_images:
  "list_all2 (input_accepted cr c now bc h) inputs sigs \<Longrightarrow> k \<in> set (key_images inputs) \<Longrightarrow> m_spent_keys bc k = None"
proof (induction inputs sigs rule: list_all2_induct)
  case (Cons i inputs sig sigs)
  then show ?case by (cases i) (auto simp: input_accepted_def key_input_accepted_def)
qed simp

section \<open>The median\<close>

lemma filter_sort_length: "length (filter P (sort v)) = length (filter P v)"
  by (metis mset_filter mset_sort size_mset)

lemma below_count:
  assumes "sorted s" and "i < length s" and "s ! i \<le> m"
  shows "Suc i \<le> length (filter (\<lambda>x. x \<le> m) s)"
proof -
  have "s ! j \<le> m" if "j < Suc i" for j using sorted_nth_mono [OF assms(1), of j i] assms(2,3) that by simp
  then have "\<forall>x \<in> set (take (Suc i) s). x \<le> m" by (auto simp: in_set_conv_nth)
  then have "length (filter (\<lambda>x. x \<le> m) (take (Suc i) s)) = Suc i" using assms(2) by (simp add: filter_id_conv [THEN iffD2])
  moreover have "length (filter (\<lambda>x. x \<le> m) s) = length (filter (\<lambda>x. x \<le> m) (take (Suc i) s))
      + length (filter (\<lambda>x. x \<le> m) (drop (Suc i) s))"
    by (metis append_take_drop_id filter_append length_append)
  ultimately show ?thesis by simp
qed

lemma above_count:
  assumes "sorted s" and "i < length s" and "m \<le> s ! i"
  shows "length s - i \<le> length (filter (\<lambda>x. m \<le> x) s)"
proof -
  have "\<forall>x \<in> set (drop i s). m \<le> x"
    using assms by (auto simp: in_set_conv_nth intro!: order_trans [OF assms(3) sorted_nth_mono])
  then have "length (filter (\<lambda>x. m \<le> x) (drop i s)) = length s - i" by (simp add: filter_id_conv [THEN iffD2])
  moreover have "length (filter (\<lambda>x. m \<le> x) s) = length (filter (\<lambda>x. m \<le> x) (take i s))
      + length (filter (\<lambda>x. m \<le> x) (drop i s))"
    by (metis append_take_drop_id filter_append length_append)
  ultimately show ?thesis by simp
qed

lemma mean_between:
  fixes a b :: u64
  assumes "a \<le> b" and "unat b < 2 ^ 63"
  shows "a \<le> (a + b) div 2" and "(a + b) div 2 \<le> b"
proof -
  have le: "unat a \<le> unat b" using assms(1) by (simp add: word_le_nat_alt)
  then have "unat (a + b) = unat a + unat b" using assms(2) by (intro unat_add_exact) simp
  then have m: "unat ((a + b) div 2) = (unat a + unat b) div 2" by (simp add: unat_div_nat)
  have "unat a \<le> (unat a + unat b) div 2" and "(unat a + unat b) div 2 \<le> unat b" using le by linarith+
  then show "a \<le> (a + b) div 2" and "(a + b) div 2 \<le> b" using m by (simp_all add: word_le_nat_alt)
qed

lemma medianValue_between:
  assumes "v \<noteq> []" and "\<forall>x \<in> set v. unat x < 2 ^ 63"
  shows "sort v ! ((length v - 1) div 2) \<le> medianValue v" and "medianValue v \<le> sort v ! (length v div 2)"
proof -
  define s where "s = sort v"
  define n where "n = length v div 2"
  have "s ! ((length v - 1) div 2) \<le> medianValue v \<and> medianValue v \<le> s ! n"
  proof (cases "length v mod 2 = 0")
    case False
    then have "(length v - 1) div 2 = n" unfolding n_def by presburger
    moreover have "medianValue v = s ! n"
    proof (cases "length v = 1")
      case True
      then obtain x where "v = [x]" by (auto simp: length_Suc_conv)
      then show ?thesis by (simp add: medianValue_def s_def n_def)
    qed (use assms(1) False in \<open>simp add: medianValue_def s_def n_def Let_def\<close>)
    ultimately show ?thesis by simp
  next
    case True
    have len: "length s = length v" by (simp add: s_def)
    have "0 < length v" using assms(1) by simp
    then have n: "(length v - 1) div 2 = n - 1" "n < length s" "length v \<noteq> 1" using True len unfolding n_def by presburger+
    have m: "medianValue v = (s ! (n - 1) + s ! n) div 2"
      using assms(1) True n(3) by (simp add: medianValue_def s_def n_def Let_def)
    have "s ! (n - 1) \<le> s ! n" using n(2) by (intro sorted_nth_mono) (simp_all add: s_def)
    moreover have "unat (s ! n) < 2 ^ 63" using assms(2) n(2) by (metis nth_mem s_def set_sort)
    ultimately show ?thesis using mean_between n(1) m by metis
  qed
  then show "sort v ! ((length v - 1) div 2) \<le> medianValue v" and "medianValue v \<le> sort v ! (length v div 2)"
    by (simp_all add: s_def n_def)
qed

lemma median_counts:
  assumes "v \<noteq> []" and "\<forall>x \<in> set v. unat x < 2 ^ 63"
  shows "length v \<le> 2 * length (filter (\<lambda>x. x \<le> medianValue v) v)"
    and "length v \<le> 2 * length (filter (\<lambda>x. medianValue v \<le> x) v)"
proof -
  have pos: "0 < length v" using assms(1) by simp
  have i: "(length v - 1) div 2 < length (sort v)" "length v div 2 < length (sort v)"
    using pos by (auto intro: le_less_trans [OF div_le_dividend])
  have "Suc ((length v - 1) div 2) \<le> length (filter (\<lambda>x. x \<le> medianValue v) v)"
    using below_count [OF sorted_sort i(1) medianValue_between(1) [OF assms]] by (simp add: filter_sort_length)
  then show "length v \<le> 2 * length (filter (\<lambda>x. x \<le> medianValue v) v)" using pos by linarith
  have "length v - length v div 2 \<le> length (filter (\<lambda>x. medianValue v \<le> x) v)"
    using above_count [OF sorted_sort i(2) medianValue_between(2) [OF assms]] by (simp add: filter_sort_length)
  then show "length v \<le> 2 * length (filter (\<lambda>x. medianValue v \<le> x) v)" by linarith
qed

section \<open>The miner's reward\<close>

lemma fold_amounts:
  "unat acc + (\<Sum>out\<leftarrow>outs. unat (to_amount out)) < 2 ^ 64 \<Longrightarrow>
    unat (fold (\<lambda>o1 acc. acc + to_amount o1) outs acc) = unat acc + (\<Sum>out\<leftarrow>outs. unat (to_amount out))"
proof (induction outs arbitrary: acc)
  case (Cons out outs)
  then have "unat (acc + to_amount out) = unat acc + unat (to_amount out)" by (intro unat_add_exact) simp
  with Cons show ?case by simp
qed simp

lemma reward_tolerance:
  fixes minted reward :: u64
  shows "\<not> (reward < minted \<and> 10 < minted - reward) \<and> \<not> minted < reward \<longleftrightarrow>
    unat reward \<le> unat minted \<and> unat minted \<le> unat reward + 10"
proof (cases "reward \<le> minted")
  case True
  then have "unat (minted - reward) = unat minted - unat reward" by (simp add: unat_sub)
  then show ?thesis using True by (auto simp: word_less_nat_alt word_le_nat_alt)
next
  case False
  then show ?thesis by (auto simp: word_less_nat_alt word_le_nat_alt)
qed

section \<open>Properties\<close>

text \<open>
  C13. The scan of \<open>validateInput\<close>, which matches each signature with the first remaining
  key it fits, accepts exactly when some subsequence of the keys matches the signatures one by one.
\<close>

theorem multisig_threshold:
  "multisig_signatures check keys sigs \<longleftrightarrow> (\<exists>ks. subseq ks keys \<and> list_all2 check ks sigs)"
  by (rule multisig_signatures_iff)

text \<open>
  \<open>medianValue\<close> splits the values: at least half of them are at most the median and at
  least half are at least the median, provided that the values are below \<open>2 ^ 63\<close>, so that the sum
  of the two middle ones does not wrap.
\<close>

theorem median_splits:
  assumes "v \<noteq> []" and "\<forall>x \<in> set v. unat x < 2 ^ 63"
  shows "length v \<le> 2 * length (filter (\<lambda>x. x \<le> medianValue v) v)
    \<and> length v \<le> 2 * length (filter (\<lambda>x. medianValue v \<le> x) v)"
  using median_counts [OF assms] by blast

theorem median_splits_witness:
  "length (filter (\<lambda>x. x \<le> medianValue [9, 2, 5, 4]) [9, 2, 5, 4]) = 2
    \<and> length [9, 2, 5, 4 :: u64] \<le> 2 * length (filter (\<lambda>x. medianValue [9, 2, 5, 4] \<le> x) [9, 2, 5, 4])"
  using median_splits [of "[9, 2, 5, 4]"] by (simp add: medianValue_def)

end
