(* ===== verification/Main_Chain.thy ===== *)
theory Main_Chain
  imports Chain_Checks
begin

text \<open>
  Adding and removing blocks of the main chain: the three versions of \<open>pushBlock\<close>,
  \<open>pushToDepositIndex\<close>, \<open>popBlock\<close>, \<open>removeLastBlock\<close> and \<open>rollbackBlockchainTo\<close> of
  \<open>src/CryptoNoteCore/Blockchain.cpp\<close>. An exception or a failing assertion is \<open>None\<close>, and the state
  it leaves is not described. The transaction pool is reached through two operations, which take a
  transaction out of the pool and add one to it; they are arguments.
\<close>

record block_verification_context =
  bv_added_to_main_chain :: bool
  bv_verification_failed :: bool
  bv_marked_as_orphaned :: bool
  bv_already_exists :: bool
  bv_switched_to_alt_chain :: bool

definition bvc_initial :: block_verification_context where
  "bvc_initial = \<lparr>bv_added_to_main_chain = False, bv_verification_failed = False,
    bv_marked_as_orphaned = False, bv_already_exists = False, bv_switched_to_alt_chain = False\<rparr>"

section \<open>The checks of the block header\<close>

definition UPGRADE_HEIGHT_V6 :: u64 where "UPGRADE_HEIGHT_V6 = 104200"

text \<open>
  The part of \<open>pushBlock\<close> before the first change of state: the difficulty of the block, or
  \<open>None\<close> where the block is refused.
\<close>

definition check_block_header ::
    "crypto_ops \<Rightarrow> Currency \<Rightarrow> u64 \<Rightarrow> Block \<Rightarrow> Hash \<Rightarrow> block_verification_context \<Rightarrow> Blockchain \<Rightarrow>
      (u64 option \<times> block_verification_context) option" where
  "check_block_header cr c now blockData blockHash bvc bc =
    (let refused = Some (None, bvc\<lparr>bv_verification_failed := True\<rparr>) in
     if hasBlock blockHash (m_blockIndex bc) then refused
     else if \<not> checkBlockVersion c blockData bc then refused
     else if (case getBlockHeight blockHash (m_blockIndex bc) of
         None \<Rightarrow> False
       | Some height \<Rightarrow> getMergeMiningTagFromExtra (tp_extra (bl_baseTransaction blockData)) \<noteq> None
           \<and> UPGRADE_HEIGHT_V6 \<le> ucast height) then Some (None, bvc)
     else
       case Blockchain_getTailId bc of
         None \<Rightarrow> None
       | Some tail \<Rightarrow>
           if bh_previousBlockHash blockData \<noteq> tail then refused
           else if \<not> check_block_timestamp_main c now blockData bc then refused
           else
             case getDifficultyForNextBlock c bc of
               None \<Rightarrow> None
             | Some currentDifficulty \<Rightarrow>
                 if currentDifficulty = 0 then Some (None, bvc)
                 else if (if isInCheckpointZone (getCurrentBlockchainHeight bc) bc
                     then \<not> check_block_simple (getCurrentBlockchainHeight bc) blockHash (m_checkpoints bc)
                     else \<not> snd (checkProofOfWork (get_block_longhash (cn_fast_hash cr) (cn_slow_hash cr))
                       blockData currentDifficulty)) then refused
                 else
                   case prevalidate_miner_transaction cr c blockData (of_nat (length (m_blocks bc))) of
                     None \<Rightarrow> None
                   | Some False \<Rightarrow> refused
                   | Some True \<Rightarrow> Some (Some currentDifficulty, bvc))"

section \<open>The transactions of the block\<close>

record block_totals =
  bt_cumulative_size :: u64
  bt_fee_summary :: u64
  bt_interestSummary :: u64

datatype loop_result =
    Completed BlockEntry block_totals Blockchain
  | InvalidTransaction Blockchain

text \<open>
  The loop over the transactions. The result of \<open>pushTransaction\<close> is not used. A transaction whose
  blob cannot be written does not occur in the model.
\<close>

fun push_transactions ::
    "crypto_ops \<Rightarrow> 'f float_ops \<Rightarrow> Currency \<Rightarrow> u64 \<Rightarrow> Hash \<Rightarrow> BlockEntry \<Rightarrow> u16 \<Rightarrow> block_totals \<Rightarrow>
      Hash list \<Rightarrow> Transaction list \<Rightarrow> Blockchain \<Rightarrow> loop_result option" where
  "push_transactions cr F c now minerHash block pos sums hashes [] bc = Some (Completed block sums bc)"
| "push_transactions cr F c now minerHash block pos sums [] (tx # txs) bc = None"
| "push_transactions cr F c now minerHash block pos sums (tx_id # hashes) (tx # txs) bc =
    (case (toBinaryArray out_Transaction tx, getTransactionFee_or_zero F c tx (be_height block),
           checkTransactionInputs cr c now tx None bc) of
       (Some blob, Some fee, Some (inputs_ok, _)) \<Rightarrow>
         if bh_majorVersion (be_bl block) = 1 \<and> 1 < tp_version tx \<or> \<not> inputs_ok
           \<or> \<not> check_tx_outputs cr c tx (be_height block)
         then map_option InvalidTransaction (popTransactions (cn_fast_hash cr) block minerHash bc)
         else
           let block = block\<lparr>be_transactions := be_transactions block @ [\<lparr>te_tx = tx, te_global_output_indexes = []\<rparr>]\<rparr>;
               pos = pos + 1 in
           (case pushTransaction (cn_fast_hash cr) block tx_id \<lparr>ti_block = be_height block, ti_transaction = pos\<rparr> bc of
              (None, _) \<Rightarrow> None
            | (Some _, block, bc) \<Rightarrow>
                (case calculateTotalTransactionInterest F c tx (be_height block) of
                   None \<Rightarrow> None
                 | Some interest \<Rightarrow>
                     push_transactions cr F c now minerHash block pos
                       \<lparr>bt_cumulative_size = bt_cumulative_size sums + of_nat (length blob),
                        bt_fee_summary = bt_fee_summary sums + fee,
                        bt_interestSummary = bt_interestSummary sums + interest\<rparr> hashes txs bc))
     | _ \<Rightarrow> None)"

section \<open>The block\<close>

text \<open>\<open>pushToDepositIndex\<close>: the \<open>int64_t\<close> sum is kept at its width and read at the end.\<close>

definition deposit_of_inputs :: "TransactionInput list \<Rightarrow> u64 \<Rightarrow> u64" where
  "deposit_of_inputs inputs deposit = fold (\<lambda>i deposit. case i of
      InMultisig m \<Rightarrow> if 0 < mi_term m then deposit - mi_amount m else deposit | _ \<Rightarrow> deposit) inputs deposit"

definition deposit_of_outputs :: "TransactionOutput list \<Rightarrow> u64 \<Rightarrow> u64" where
  "deposit_of_outputs outputs deposit = fold (\<lambda>out deposit. case to_target out of
      OutMultisig m \<Rightarrow> if 0 < mo_term m then deposit + to_amount out else deposit | _ \<Rightarrow> deposit) outputs deposit"

definition pushToDepositIndex :: "BlockEntry \<Rightarrow> u64 \<Rightarrow> Blockchain \<Rightarrow> Blockchain option" where
  "pushToDepositIndex block interest bc =
    (let deposit = fold (\<lambda>entry deposit.
       deposit_of_outputs (tp_outputs (te_tx entry)) (deposit_of_inputs (tp_inputs (te_tx entry)) deposit))
       (be_transactions block) 0 in
     map_option (\<lambda>d. bc\<lparr>m_depositIndex := d\<rparr>) (DepositIndex_pushBlock (sint deposit) interest (m_depositIndex bc)))"

definition sizes_agree :: "Blockchain \<Rightarrow> bool" where
  "sizes_agree bc \<longleftrightarrow> (ucast (BlockIndex_size (m_blockIndex bc)) :: u64) = of_nat (length (m_blocks bc))"

definition pushBlock_entry :: "(u8 list \<Rightarrow> Hash) \<Rightarrow> BlockEntry \<Rightarrow> Blockchain \<Rightarrow> Blockchain option" where
  "pushBlock_entry H block bc =
    (let blockHash = snd (get_block_hash H (be_bl block));
         bc = bc\<lparr>m_blocks := m_blocks bc @ [block],
           m_blockIndex := snd (BlockIndex_push blockHash (m_blockIndex bc)),
           m_timestampIndex := TimestampBlocksIndex_add (bh_timestamp (be_bl block)) blockHash (m_timestampIndex bc)\<rparr> in
     case GeneratedTransactionsIndex_add (be_bl block) (m_generatedTransactionsIndex bc) of
       None \<Rightarrow> None
     | Some (_, generated) \<Rightarrow>
         let bc = bc\<lparr>m_generatedTransactionsIndex := generated\<rparr> in
         if sizes_agree bc then Some bc else None)"

definition chain_versions :: "Blockchain \<Rightarrow> versions" where
  "chain_versions bc = map (\<lambda>b. (bh_majorVersion (be_bl b), bh_minorVersion (be_bl b))) (m_blocks bc)"

text \<open>The calls of the five upgrade detectors, in order.\<close>

definition update_detectors ::
    "(UpgradeDetector \<Rightarrow> UpgradeDetector option) \<Rightarrow> Blockchain \<Rightarrow> Blockchain option" where
  "update_detectors f bc =
    (case (f (m_upgradeDetectorV2 bc), f (m_upgradeDetectorV3 bc), f (m_upgradeDetectorV4 bc),
           f (m_upgradeDetectorV7 bc), f (m_upgradeDetectorV8 bc)) of
       (Some v2, Some v3, Some v4, Some v7, Some v8) \<Rightarrow>
         Some (bc\<lparr>m_upgradeDetectorV2 := v2, m_upgradeDetectorV3 := v3, m_upgradeDetectorV4 := v4,
           m_upgradeDetectorV7 := v7, m_upgradeDetectorV8 := v8\<rparr>)
     | _ \<Rightarrow> None)"

text \<open>The block with its miner transaction in it, before the other transactions.\<close>

definition initial_entry :: "Block \<Rightarrow> Blockchain \<Rightarrow> BlockEntry" where
  "initial_entry blockData bc = \<lparr>be_bl = blockData, be_height = of_nat (length (m_blocks bc)),
    be_block_cumulative_size = 0, be_cumulative_difficulty = 0, be_already_generated_coins = 0,
    be_transactions = [\<lparr>te_tx = bl_baseTransaction blockData, te_global_output_indexes = []\<rparr>]\<rparr>"

text \<open>The part of \<open>pushBlock\<close> after the loop: the block is complete and valid.\<close>

definition finish_block ::
    "crypto_ops \<Rightarrow> Currency \<Rightarrow> u64 \<Rightarrow> BlockEntry \<Rightarrow> block_totals \<Rightarrow> u64 \<Rightarrow> int \<Rightarrow> Blockchain \<Rightarrow> Blockchain option" where
  "finish_block cr c currentDifficulty block sums already_generated_coins emissionChange bc =
    (let block = block\<lparr>be_block_cumulative_size := bt_cumulative_size sums,
           be_cumulative_difficulty := currentDifficulty
             + (if m_blocks bc = [] then 0 else be_cumulative_difficulty (last (m_blocks bc))),
           be_already_generated_coins := already_generated_coins + of_int emissionChange + bt_interestSummary sums\<rparr> in
     case pushBlock_entry (cn_fast_hash cr) block bc of
       None \<Rightarrow> None
     | Some bc \<Rightarrow>
         (case pushToDepositIndex block (bt_interestSummary sums) bc of
            None \<Rightarrow> None
          | Some bc \<Rightarrow>
              map_option (update_next_comulative_size_limit c)
                (update_detectors (blockPushed c (chain_versions bc)) bc)))"

text \<open>The part of \<open>pushBlock\<close> after the loop.\<close>

definition complete_block ::
    "crypto_ops \<Rightarrow> Currency \<Rightarrow> Block \<Rightarrow> u64 \<Rightarrow> Hash \<Rightarrow> block_verification_context \<Rightarrow> BlockEntry \<Rightarrow> block_totals \<Rightarrow>
      Blockchain \<Rightarrow> (bool \<times> block_verification_context \<times> Blockchain) option" where
  "complete_block cr c blockData currentDifficulty minerTransactionHash bvc block sums bc =
    (let failed = bvc\<lparr>bv_verification_failed := True\<rparr> in
     case checkCumulativeBlockSize c (bt_cumulative_size sums) (ucast (be_height block)) of
       None \<Rightarrow> None
     | Some False \<Rightarrow> Some (False, failed, bc)
     | Some True \<Rightarrow>
         let already_generated_coins = getCoinsInCirculation bc in
         (case validate_miner_transaction c blockData (be_height block) (bt_cumulative_size sums)
            already_generated_coins (bt_fee_summary sums) bc of
            None \<Rightarrow> None
          | Some (False, _, _) \<Rightarrow>
              map_option (\<lambda>bc. (False, failed, bc)) (popTransactions (cn_fast_hash cr) block minerTransactionHash bc)
          | Some (True, reward, emissionChange) \<Rightarrow>
              map_option (\<lambda>bc. (True, bvc\<lparr>bv_added_to_main_chain := True\<rparr>, bc))
                (finish_block cr c currentDifficulty block sums already_generated_coins emissionChange bc)))"

definition initial_totals :: "Block \<Rightarrow> block_totals" where
  "initial_totals blockData =
    \<lparr>bt_cumulative_size = snd (getObjectBinarySize out_Transaction (bl_baseTransaction blockData)),
     bt_fee_summary = 0, bt_interestSummary = 0\<rparr>"

definition miner_hash :: "(u8 list \<Rightarrow> Hash) \<Rightarrow> Block \<Rightarrow> Hash" where
  "miner_hash H blockData = snd (getObjectHash H out_Transaction (bl_baseTransaction blockData))"

definition pushBlock ::
    "crypto_ops \<Rightarrow> 'f float_ops \<Rightarrow> Currency \<Rightarrow> u64 \<Rightarrow> Block \<Rightarrow> Transaction list \<Rightarrow> Hash \<Rightarrow>
      block_verification_context \<Rightarrow> Blockchain \<Rightarrow> (bool \<times> block_verification_context \<times> Blockchain) option" where
  "pushBlock cr F c now blockData transactions blockHash bvc bc =
    (case check_block_header cr c now blockData blockHash bvc bc of
       None \<Rightarrow> None
     | Some (None, bvc) \<Rightarrow> Some (False, bvc, bc)
     | Some (Some currentDifficulty, bvc) \<Rightarrow>
         let minerTransactionHash = miner_hash (cn_fast_hash cr) blockData;
             block = initial_entry blockData bc in
         (case pushTransaction (cn_fast_hash cr) block minerTransactionHash
             \<lparr>ti_block = be_height block, ti_transaction = 0\<rparr> bc of
            (None, _) \<Rightarrow> None
          | (Some _, block, bc) \<Rightarrow>
              (case push_transactions cr F c now minerTransactionHash block 0 (initial_totals blockData)
                 (bl_transactionHashes blockData) transactions bc of
                 None \<Rightarrow> None
               | Some (InvalidTransaction bc) \<Rightarrow> Some (False, bvc\<lparr>bv_verification_failed := True\<rparr>, bc)
               | Some (Completed block sums bc) \<Rightarrow>
                   complete_block cr c blockData currentDifficulty minerTransactionHash bvc block sums bc)))"

section \<open>Removing blocks\<close>

text \<open>\<open>saveTransactions\<close> adds the transactions to the pool, the last one first.\<close>

fun save_loop ::
    "(Transaction \<Rightarrow> u32 \<Rightarrow> Blockchain \<Rightarrow> 'pool \<Rightarrow> bool \<times> 'pool) \<Rightarrow> u32 \<Rightarrow> Blockchain \<Rightarrow> Transaction list \<Rightarrow>
      'pool \<Rightarrow> 'pool option" where
  "save_loop add_tx height bc [] pool = Some pool"
| "save_loop add_tx height bc (tx # txs) pool =
    (let (added, pool) = add_tx tx height bc pool in if \<not> added then None else save_loop add_tx height bc txs pool)"

definition saveTransactions ::
    "(Transaction \<Rightarrow> u32 \<Rightarrow> Blockchain \<Rightarrow> 'pool \<Rightarrow> bool \<times> 'pool) \<Rightarrow> Transaction list \<Rightarrow> u32 \<Rightarrow> Blockchain \<Rightarrow>
      'pool \<Rightarrow> 'pool option" where
  "saveTransactions add_tx transactions height bc pool = save_loop add_tx height bc (rev transactions) pool"

text \<open>\<open>loadTransactions\<close>: what was taken goes back, the last one first, when one is missing.\<close>

fun load_loop ::
    "(Transaction \<Rightarrow> u32 \<Rightarrow> Blockchain \<Rightarrow> 'pool \<Rightarrow> bool \<times> 'pool) \<Rightarrow> (Hash \<Rightarrow> 'pool \<Rightarrow> Transaction option \<times> 'pool) \<Rightarrow>
      u32 \<Rightarrow> Blockchain \<Rightarrow> Transaction list \<Rightarrow> Hash list \<Rightarrow> 'pool \<Rightarrow> (Transaction list option \<times> 'pool) option" where
  "load_loop add_tx take_tx height bc taken [] pool = Some (Some (rev taken), pool)"
| "load_loop add_tx take_tx height bc taken (h # hashes) pool =
    (case take_tx h pool of
       (Some tx, pool) \<Rightarrow> load_loop add_tx take_tx height bc (tx # taken) hashes pool
     | (None, pool) \<Rightarrow> map_option (Pair None) (save_loop add_tx height bc taken pool))"

definition loadTransactions ::
    "(Transaction \<Rightarrow> u32 \<Rightarrow> Blockchain \<Rightarrow> 'pool \<Rightarrow> bool \<times> 'pool) \<Rightarrow> (Hash \<Rightarrow> 'pool \<Rightarrow> Transaction option \<times> 'pool) \<Rightarrow>
      Block \<Rightarrow> u32 \<Rightarrow> Blockchain \<Rightarrow> 'pool \<Rightarrow> (Transaction list option \<times> 'pool) option" where
  "loadTransactions add_tx take_tx block height bc pool =
    load_loop add_tx take_tx height bc [] (bl_transactionHashes block) pool"

text \<open>The version of \<open>pushBlock\<close> that takes the transactions from the pool.\<close>

definition pushBlock_pool ::
    "(Transaction \<Rightarrow> u32 \<Rightarrow> Blockchain \<Rightarrow> 'pool \<Rightarrow> bool \<times> 'pool) \<Rightarrow> (Hash \<Rightarrow> 'pool \<Rightarrow> Transaction option \<times> 'pool) \<Rightarrow>
      crypto_ops \<Rightarrow> 'f float_ops \<Rightarrow> Currency \<Rightarrow> u64 \<Rightarrow> Block \<Rightarrow> Hash \<Rightarrow> block_verification_context \<Rightarrow> u32 \<Rightarrow>
      Blockchain \<times> 'pool \<Rightarrow> (bool \<times> block_verification_context \<times> Blockchain \<times> 'pool) option" where
  "pushBlock_pool add_tx take_tx cr F c now blockData blockHash bvc height s =
    (case s of (bc, pool) \<Rightarrow>
      case loadTransactions add_tx take_tx blockData height bc pool of
        None \<Rightarrow> None
      | Some (None, pool) \<Rightarrow> Some (False, bvc\<lparr>bv_verification_failed := True\<rparr>, bc, pool)
      | Some (Some transactions, pool) \<Rightarrow>
          (case pushBlock cr F c now blockData transactions blockHash bvc bc of
             None \<Rightarrow> None
           | Some (True, bvc, bc) \<Rightarrow> Some (True, bvc, bc, pool)
           | Some (False, bvc, bc) \<Rightarrow>
               map_option (\<lambda>pool. (False, bvc, bc, pool)) (saveTransactions add_tx transactions height bc pool)))"

text \<open>What \<open>popBlock\<close> does to the containers, apart from the pool.\<close>

definition pop_containers :: "(u8 list \<Rightarrow> Hash) \<Rightarrow> Hash \<Rightarrow> Blockchain \<Rightarrow> Blockchain option" where
  "pop_containers H blockHash bc =
    (let block = last (m_blocks bc) in
     case popTransactions H block (miner_hash H (be_bl block)) bc of
       None \<Rightarrow> None
     | Some bc \<Rightarrow>
         (case GeneratedTransactionsIndex_remove (be_bl block) (m_generatedTransactionsIndex bc) of
            None \<Rightarrow> None
          | Some (_, generated) \<Rightarrow>
              Some (bc\<lparr>m_timestampIndex := snd (TimestampBlocksIndex_remove (bh_timestamp (be_bl block)) blockHash (m_timestampIndex bc)),
                m_generatedTransactionsIndex := generated\<rparr>)))"

definition pop_last_block :: "Blockchain \<Rightarrow> Blockchain option" where
  "pop_last_block bc =
    (case BlockIndex_pop (m_blockIndex bc) of
       None \<Rightarrow> None
     | Some index \<Rightarrow>
         let bc = bc\<lparr>m_blocks := butlast (m_blocks bc), m_blockIndex := index\<rparr> in
         if sizes_agree bc then Some bc else None)"

definition popBlock ::
    "(Transaction \<Rightarrow> u32 \<Rightarrow> Blockchain \<Rightarrow> 'pool \<Rightarrow> bool \<times> 'pool) \<Rightarrow> (u8 list \<Rightarrow> Hash) \<Rightarrow> Currency \<Rightarrow> Hash \<Rightarrow>
      Blockchain \<times> 'pool \<Rightarrow> (Blockchain \<times> 'pool) option" where
  "popBlock add_tx H c blockHash s =
    (case s of (bc, pool) \<Rightarrow>
      if m_blocks bc = [] then Some (bc, pool)
      else if be_transactions (last (m_blocks bc)) = [] then None
      else
        let transactions = map te_tx (tl (be_transactions (last (m_blocks bc)))) in
        case saveTransactions add_tx transactions (of_nat (length (m_blocks bc))) bc pool of
          None \<Rightarrow> None
        | Some pool \<Rightarrow>
            (case pop_containers H blockHash bc of
               None \<Rightarrow> None
             | Some bc \<Rightarrow>
                 (case DepositIndex_popBlock (m_depositIndex bc) of
                    None \<Rightarrow> None
                  | Some d \<Rightarrow>
                      (case pop_last_block (bc\<lparr>m_depositIndex := d\<rparr>) of
                         None \<Rightarrow> None
                       | Some bc \<Rightarrow>
                           map_option (\<lambda>bc. (bc, pool)) (update_detectors (blockPopped c (chain_versions bc)) bc)))))"

definition removeLastBlock :: "(u8 list \<Rightarrow> Hash) \<Rightarrow> Blockchain \<Rightarrow> (bool \<times> Blockchain) option" where
  "removeLastBlock H bc =
    (if m_blocks bc = [] then Some (False, bc)
     else
       case getBlockIdByHeight (be_height (last (m_blocks bc))) bc of
         None \<Rightarrow> None
       | Some blockHash \<Rightarrow>
           (case pop_containers H blockHash bc of
              None \<Rightarrow> None
            | Some bc \<Rightarrow> map_option (Pair True) (pop_last_block bc)))"

text \<open>
  The loop of \<open>rollbackBlockchainTo\<close>; \<open>bound\<close> is \<open>height + 1\<close> at 32 bits. Every pass that goes on
  removes a block.
\<close>

lemma chain_frame:
  fixes bc :: Blockchain
  assumes "Ledger.more bc = Ledger.more bc'"
  shows "m_blocks bc = m_blocks bc'" and "m_blockIndex bc = m_blockIndex bc'"
    and "m_depositIndex bc = m_depositIndex bc'" and "m_timestampIndex bc = m_timestampIndex bc'"
    and "m_generatedTransactionsIndex bc = m_generatedTransactionsIndex bc'"
    and "m_upgradeDetectorV2 bc = m_upgradeDetectorV2 bc'" and "m_upgradeDetectorV3 bc = m_upgradeDetectorV3 bc'"
    and "m_upgradeDetectorV4 bc = m_upgradeDetectorV4 bc'" and "m_upgradeDetectorV7 bc = m_upgradeDetectorV7 bc'"
    and "m_upgradeDetectorV8 bc = m_upgradeDetectorV8 bc'" and "m_checkpoints bc = m_checkpoints bc'"
    and "m_current_block_cumul_sz_limit bc = m_current_block_cumul_sz_limit bc'"
  using assms by (cases bc; cases bc'; simp)+

lemma pop_last_block_blocks:
  "pop_last_block bc = Some bc' \<Longrightarrow> m_blocks bc' = butlast (m_blocks bc)"
  by (auto simp: pop_last_block_def Let_def split: option.splits if_splits)

lemma pop_containers_blocks: "pop_containers H h bc = Some bc' \<Longrightarrow> m_blocks bc' = m_blocks bc"
  by (auto simp: pop_containers_def Let_def split: option.splits dest!: popTransactions_more chain_frame(1))

lemma removeLastBlock_shorter:
  assumes "removeLastBlock H bc = Some (r, bc')"
  shows "length (m_blocks bc') = length (m_blocks bc) - 1" and "r \<longleftrightarrow> m_blocks bc \<noteq> []"
proof -
  have "length (m_blocks bc') = length (m_blocks bc) - 1 \<and> (r \<longleftrightarrow> m_blocks bc \<noteq> [])"
  proof (cases "m_blocks bc = []")
    case True
    then show ?thesis using assms by (simp add: removeLastBlock_def)
  next
    case False
    then obtain h bc1 where "pop_containers H h bc = Some bc1" and "pop_last_block bc1 = Some bc'" and "r"
      using assms by (auto simp: removeLastBlock_def split: option.splits)
    moreover from this(1) have "m_blocks bc1 = m_blocks bc" by (rule pop_containers_blocks)
    ultimately show ?thesis using False by (simp add: pop_last_block_blocks)
  qed
  then show "length (m_blocks bc') = length (m_blocks bc) - 1" and "r \<longleftrightarrow> m_blocks bc \<noteq> []" by blast+
qed

function rollback_loop :: "(u8 list \<Rightarrow> Hash) \<Rightarrow> nat \<Rightarrow> Blockchain \<Rightarrow> (bool \<times> Blockchain) option" where
  "rollback_loop H bound bc =
    (if bound < length (m_blocks bc) then
       case removeLastBlock H bc of
         None \<Rightarrow> None
       | Some (removed, bc) \<Rightarrow> if \<not> removed then Some (False, bc) else rollback_loop H bound bc
     else Some (True, bc))"
  by pat_completeness auto
termination
proof (relation "measure (\<lambda>(H, bound, bc). length (m_blocks bc))")
  fix H bound bc x removed bc'
  assume "bound < length (m_blocks bc)" and "removeLastBlock H bc = Some x" and "(removed, bc') = x" and "\<not> \<not> removed"
  then show "((H, bound, bc'), (H, bound, bc)) \<in> measure (\<lambda>(H, bound, bc). length (m_blocks bc))"
    using removeLastBlock_shorter [of H bc removed bc'] by auto
qed simp

declare rollback_loop.simps [simp del]

definition rollbackBlockchainTo :: "(u8 list \<Rightarrow> Hash) \<Rightarrow> u32 \<Rightarrow> Blockchain \<Rightarrow> (bool \<times> Blockchain) option" where
  "rollbackBlockchainTo H height bc =
    (if length (m_blocks bc) \<le> unat height then Some (True, bc)
     else rollback_loop H (unat (height + 1)) bc)"

section \<open>Undoing the transactions of a block\<close>

lemma popTransactions_one:
  "be_transactions block = [e] \<Longrightarrow>
    popTransactions H block m l = popTransaction H (bl_baseTransaction (be_bl block)) m l"
  by (simp add: popTransactions_def)

lemma popTransactions_cong:
  assumes "map te_tx (be_transactions block) = map te_tx (be_transactions block')" and "be_bl block = be_bl block'"
  shows "popTransactions H block m l = popTransactions H block' m l"
proof -
  have "length (be_transactions block) = length (be_transactions block')"
    using arg_cong [OF assms(1), of length] by simp
  moreover have "map te_tx (tl (be_transactions block)) = map te_tx (tl (be_transactions block'))"
    using arg_cong [OF assms(1), of tl] by (simp add: map_tl)
  moreover from calculation(1) have "be_transactions block = [] \<longleftrightarrow> be_transactions block' = []" by auto
  ultimately show ?thesis unfolding popTransactions_def assms(2) by presburger
qed

lemma popTransactions_snoc:
  assumes "be_transactions block = ts" and "length ts = Suc n" and "n < length (bl_transactionHashes (be_bl block))"
    and "be_transactions block' = ts @ [e]" and "be_bl block' = be_bl block"
  shows "popTransactions H block' m l =
    (case popTransaction H (te_tx e) (bl_transactionHashes (be_bl block) ! n) l of
       None \<Rightarrow> None | Some l \<Rightarrow> popTransactions H block m l)"
proof -
  let ?hs = "bl_transactionHashes (be_bl block)"
  have ts: "ts \<noteq> []" and len: "length (map te_tx (tl ts)) = n" using assms(2) by auto
  have "drop n ?hs = ?hs ! n # drop (Suc n) ?hs" using assms(3) by (simp add: Cons_nth_drop_Suc)
  then have "zip (map te_tx (tl (ts @ [e]))) ?hs = zip (map te_tx (tl ts)) ?hs @ [(te_tx e, ?hs ! n)]"
    using ts len take_zip [of n "map te_tx (tl ts)" ?hs] by (simp add: tl_append2 zip_append1)
  then show ?thesis
    using ts assms by (simp add: popTransactions_def split: option.split)
qed

text \<open>
  What the pool and the parser guarantee of a transaction before it reaches a block: distinct key
  images and multisignature references, and outputs that 16 bits count.
\<close>

definition semantic_ok :: "Transaction \<Rightarrow> bool" where
  "semantic_ok tx \<longleftrightarrow> distinct (key_images (tp_inputs tx)) \<and> checkMultisignatureInputsDiff tx
    \<and> length (tp_outputs tx) \<le> 65536"

lemma unused_in_range:
  "unused inputs outputs \<Longrightarrow>
    list_all (\<lambda>i. case i of InMultisig m \<Rightarrow> multisig_in_range outputs m | _ \<Rightarrow> True) inputs"
  unfolding unused_def
  by (erule list.pred_mono_strong) (auto simp: multisig_in_range_def split: TransactionInput.splits option.splits)

lemma push_accepted:
  assumes accepted: "checkTransactionInputs cr c now tx None bc = Some (True, p)"
    and ok: "semantic_ok tx" and fresh: "m_transactionMap bc h = None"
    and tx: "be_transactions block ! unat (ti_transaction ti) = entry" "te_tx entry = tx"
    and bound: "unat (ti_transaction ti) < length (be_transactions block)"
  shows "\<exists>block' bc'. pushTransaction H block h ti bc = (Some True, block', bc')"
    and "unused (tp_inputs tx) (m_multisignatureOutputs bc)"
proof -
  obtain prefix_hash where all: "list_all2 (input_accepted cr c now bc prefix_hash) (tp_inputs tx)
      (take (length (tp_inputs tx)) (tx_signatures tx))"
    using accepted check_inputs_loop_sound unfolding checkTransactionInputs_def Let_def by blast
  show unused: "unused (tp_inputs tx) (m_multisignatureOutputs bc)" by (rule accepted_unused [OF all])
  show "\<exists>block' bc'. pushTransaction H block h ti bc = (Some True, block', bc')"
    unfolding pushTransaction_succeeds_iff Let_def tx
    using fresh bound ok unused_in_range [OF unused] accepted_key_images [OF all] by (simp add: semantic_ok_def)
qed

lemma pushTransaction_map:
  "pushTransaction H block h ti l = (Some True, block', l') \<Longrightarrow> m_transactionMap l' = (m_transactionMap l)(h \<mapsto> ti)"
  using pushTransaction_ok(6) [of H block h ti l block' l'] by (simp add: push_outputs_frame)

lemma pushTransaction_block:
  assumes "pushTransaction H block h ti l = (Some True, block', l')"
  shows "be_bl block' = be_bl block" and "be_height block' = be_height block"
    and "map te_tx (be_transactions block') = map te_tx (be_transactions block)"
  using pushTransaction_ok(5,7) [OF assms] by (simp_all add: map_update list_update_same_conv)

text \<open>The state of the loop: the transactions of the block so far can be taken back to \<open>bc0\<close>.\<close>

definition loop_state :: "(u8 list \<Rightarrow> Hash) \<Rightarrow> Hash \<Rightarrow> Blockchain \<Rightarrow> BlockEntry \<Rightarrow> u16 \<Rightarrow> Hash list \<Rightarrow> Blockchain \<Rightarrow> bool" where
  "loop_state H mh bc0 block pos hashes bc \<longleftrightarrow> popTransactions H block mh bc = Some bc0 \<and> ledger_wf bc
    \<and> length (be_transactions block) = Suc (unat pos)
    \<and> drop (unat pos) (bl_transactionHashes (be_bl block)) = hashes
    \<and> distinct hashes \<and> (\<forall>h \<in> set hashes. m_transactionMap bc h = None)
    \<and> Ledger.more bc = Ledger.more bc0"

lemma loop_state_step:
  assumes state: "loop_state H mh bc0 block pos (h # hashes) bc"
    and accepted: "checkTransactionInputs cr c now tx None bc = Some (True, p)"
    and ok: "semantic_ok tx" and small: "Suc (unat pos) < 65536"
    and push: "pushTransaction H (block\<lparr>be_transactions := be_transactions block @ [\<lparr>te_tx = tx, te_global_output_indexes = []\<rparr>]\<rparr>)
      h \<lparr>ti_block = b, ti_transaction = pos + 1\<rparr> bc = (r, block', bc')"
  shows "r = Some True \<and> loop_state H mh bc0 block' (pos + 1) hashes bc'
    \<and> be_bl block' = be_bl block \<and> be_height block' = be_height block
    \<and> map te_tx (be_transactions block') = map te_tx (be_transactions block) @ [tx]"
proof -
  let ?entry = "\<lparr>te_tx = tx, te_global_output_indexes = []\<rparr>"
  let ?block = "block\<lparr>be_transactions := be_transactions block @ [?entry]\<rparr>"
  let ?ti = "\<lparr>ti_block = b, ti_transaction = pos + 1\<rparr>"
  note st = state [unfolded loop_state_def]
  have pos: "unat (pos + 1) = Suc (unat pos)" using small by (simp add: unat_add_exact)
  have entry: "be_transactions ?block ! unat (ti_transaction ?ti) = ?entry"
    and bound: "unat (ti_transaction ?ti) < length (be_transactions ?block)"
    using st by (simp_all add: pos nth_append)
  have fresh: "m_transactionMap bc h = None" using st by simp
  note acc = push_accepted [OF accepted ok fresh entry _ bound]
  have r: "r = Some True" using acc(1) [of H] push by auto
  note push = push [unfolded r]
  have undo: "popTransaction H tx h bc' = Some bc"
    using st ok acc(2) entry by (intro pop_push_transaction [OF push]) (simp_all add: semantic_ok_def)
  note blk = pushTransaction_block [OF push, simplified]
  have len: "length (be_transactions block') = Suc (Suc (unat pos))"
    using arg_cong [OF blk(3), of length] st by simp
  obtain ts e where ts: "be_transactions block' = ts @ [e]" using len by (metis length_Suc_conv_rev)
  then have maps: "map te_tx ts = map te_tx (be_transactions block)" and e: "te_tx e = tx" using blk(3) by simp_all
  define block1 where "block1 = block\<lparr>be_transactions := ts\<rparr>"
  have drop: "drop (unat pos) (bl_transactionHashes (be_bl block)) = h # hashes" using st by simp
  have hash: "bl_transactionHashes (be_bl block) ! unat pos = h" using drop by (rule nth_via_drop)
  have "unat pos < length (bl_transactionHashes (be_bl block))" using drop by (cases "unat pos < length (bl_transactionHashes (be_bl block))") simp_all
  note hash = hash this
  have same: "popTransactions H block1 mh bc = popTransactions H block mh bc"
    using maps by (intro popTransactions_cong) (simp_all add: block1_def)
  have "popTransactions H block' mh bc' = (case popTransaction H (te_tx e) (bl_transactionHashes (be_bl block1) ! unat pos) bc' of
       None \<Rightarrow> None | Some l \<Rightarrow> popTransactions H block1 mh l)"
    using ts len blk hash by (intro popTransactions_snoc [where ts = ts]) (simp_all add: block1_def)
  also have "\<dots> = popTransactions H block mh bc"
    using undo hash(1) e same by (simp add: block1_def)
  finally have pop: "popTransactions H block' mh bc' = Some bc0" using st by simp
  have "drop (Suc (unat pos)) (bl_transactionHashes (be_bl block)) = hashes"
    using drop by (metis drop_Suc tl_drop list.sel(3))
  then have "drop (unat (pos + 1)) (bl_transactionHashes (be_bl block')) = hashes" by (simp add: pos blk(1))
  moreover have "\<forall>h' \<in> set hashes. m_transactionMap bc' h' = None"
    using st pushTransaction_map [OF push] by auto
  moreover have "Ledger.more bc' = Ledger.more bc0" using st pushTransaction_more [OF push] by simp
  ultimately have "loop_state H mh bc0 block' (pos + 1) hashes bc'"
    unfolding loop_state_def pos using pop len st pushTransaction_wf [OF push] by simp
  then show ?thesis using r blk by simp
qed

end
