(* ===== verification/Chain_References.thy ===== *)
theory Chain_References
  imports Main_Chain
begin

text \<open>
  Every entry of the output containers refers to an output of the chain with the amount and the
  type it is filed under. Adding blocks keeps this, and it is what the assertions and the vector
  accesses of the input checks rely on.
\<close>

definition tx_at :: "BlockEntry list \<Rightarrow> TransactionIndex \<rightharpoonup> Transaction" where
  "tx_at blocks index = map_option te_tx (transactionByIndex blocks index)"

definition output_at :: "(TransactionIndex \<rightharpoonup> Transaction) \<Rightarrow> TransactionIndex \<Rightarrow> u16 \<Rightarrow> TransactionOutput \<Rightarrow> bool" where
  "output_at f index n out \<longleftrightarrow>
    (\<exists>tx. f index = Some tx \<and> unat n < length (tp_outputs tx) \<and> tp_outputs tx ! unat n = out)"

definition refs_ok :: "(TransactionIndex \<rightharpoonup> Transaction) \<Rightarrow> 'a Ledger_scheme \<Rightarrow> bool" where
  "refs_ok f l \<longleftrightarrow>
    (\<forall>a v index n. m_outputs l a = Some v \<longrightarrow> (index, n) \<in> set v \<longrightarrow>
      (\<exists>out k. output_at f index n out \<and> to_amount out = a \<and> to_target out = OutKey k))
    \<and> (\<forall>a v u. m_multisignatureOutputs l a = Some v \<longrightarrow> u \<in> set v \<longrightarrow>
      (\<exists>out k. output_at f (mu_transactionIndex u) (mu_outputIndex u) out \<and> to_amount out = a \<and> to_target out = OutMultisig k))"

section \<open>Adding transactions keeps the references\<close>

lemma refs_ok_mono:
  assumes "refs_ok f l" and "f \<subseteq>\<^sub>m f'" shows "refs_ok f' l"
proof -
  have "output_at f index n out \<Longrightarrow> output_at f' index n out" for index n out
    using assms(2) by (force simp: output_at_def map_le_def dom_def)
  then show ?thesis using assms(1) unfolding refs_ok_def by blast
qed

lemma refs_ok_cong:
  "m_outputs l' = m_outputs l \<Longrightarrow> m_multisignatureOutputs l' = m_multisignatureOutputs l \<Longrightarrow> refs_ok f l' = refs_ok f l"
  by (simp add: refs_ok_def)

lemma refs_ok_with_used:
  "refs_ok f l \<Longrightarrow> refs_ok f (l\<lparr>m_multisignatureOutputs := with_used P b (m_multisignatureOutputs l)\<rparr>)"
  unfolding refs_ok_def with_used_def by (auto split: if_splits)

lemma push_output_refs:
  assumes "refs_ok f l" and "output_at f ti (of_nat n) out"
  shows "refs_ok f (snd (push_output ti n out l))"
proof (cases "to_target out")
  case (OutKey k)
  have "(index, m) \<in> set (at_or_new a (m_outputs l)) \<Longrightarrow> \<exists>v. m_outputs l a = Some v \<and> (index, m) \<in> set v" for index m a
    by (cases "m_outputs l a") (simp_all add: at_or_new_def)
  then show ?thesis
    using assms OutKey unfolding refs_ok_def push_output_def
    by (auto simp: Let_def split: if_splits) blast+
next
  case (OutMultisig m)
  have "u \<in> set (at_or_new a (m_multisignatureOutputs l)) \<Longrightarrow> \<exists>v. m_multisignatureOutputs l a = Some v \<and> u \<in> set v" for u a
    by (cases "m_multisignatureOutputs l a") (simp_all add: at_or_new_def)
  then show ?thesis
    using assms OutMultisig unfolding refs_ok_def push_output_def
    by (auto simp: Let_def split: if_splits) blast+
qed

lemma push_outputs_refs:
  assumes "refs_ok f l" and "f ti = Some tx" and "length (tp_outputs tx) \<le> 65536" and "tp_outputs tx = outs @ rest"
  shows "refs_ok f (snd (push_outputs ti 0 outs l))"
  using assms(4)
proof (induction outs arbitrary: rest rule: rev_induct)
  case Nil
  then show ?case using assms(1) by simp
next
  case (snoc out outs)
  then have IH: "refs_ok f (snd (push_outputs ti 0 outs l))" by simp
  have len: "length outs < 65536" using assms(3) snoc.prems by simp
  then have "unat (of_nat (length outs) :: u16) = length outs" by (intro unat_of_nat_less) simp
  then have "output_at f ti (of_nat (length outs)) out"
    using assms(2) snoc.prems by (simp add: output_at_def nth_append)
  with IH show ?case by (simp add: push_outputs_snoc push_output_refs)
qed

lemma pushTransaction_refs:
  assumes push: "pushTransaction H block h ti l = (Some r, block', l')" and refs: "refs_ok f l"
    and tx: "f ti = Some (te_tx (be_transactions block ! unat (ti_transaction ti)))"
    and outs: "length (tp_outputs (te_tx (be_transactions block ! unat (ti_transaction ti)))) \<le> 65536"
  shows "refs_ok f l'"
proof (cases r)
  case False
  then show ?thesis using push push_failed_unchanged [of H block h ti l block' l'] refs by simp
next
  case True
  let ?tx = "te_tx (be_transactions block ! unat (ti_transaction ti))"
  let ?l1 = "l\<lparr>m_transactionMap := (m_transactionMap l)(h \<mapsto> ti),
      m_spent_keys := (\<lambda>k. if k \<in> set (key_images (tp_inputs ?tx)) then Some (be_height block) else m_spent_keys l k),
      m_multisignatureOutputs := with_used (refers (tp_inputs ?tx)) True (m_multisignatureOutputs l)\<rparr>"
  have "refs_ok f ?l1" using refs_ok_with_used [OF refs] by (simp add: refs_ok_def)
  from push_outputs_refs [OF this tx outs, of "tp_outputs ?tx" "[]"]
  show ?thesis unfolding pushTransaction_ok(6) [OF push [unfolded eqTrueI [OF True]]] by (simp add: refs_ok_def)
qed

section \<open>The block under construction\<close>

lemma tx_at_old: "index \<in> dom (tx_at blocks) \<Longrightarrow> tx_at (blocks @ bs) index = tx_at blocks index"
  by (auto simp: tx_at_def transactionByIndex_def nth_append Let_def split: if_splits)

lemma tx_at_new:
  "length blocks < 2 ^ 32 \<Longrightarrow> tx_at (blocks @ [block]) \<lparr>ti_block = of_nat (length blocks), ti_transaction = p\<rparr> =
    (if unat p < length (be_transactions block) then Some (te_tx (be_transactions block ! unat p)) else None)"
  by (simp add: tx_at_def transactionByIndex_def unat_of_nat)

lemma tx_at_extend:
  assumes "map te_tx (be_transactions block') = map te_tx (be_transactions block) @ txs"
  shows "tx_at (blocks @ [block]) \<subseteq>\<^sub>m tx_at (blocks @ [block'])"
proof (unfold map_le_def, intro ballI)
  fix index
  assume a: "index \<in> dom (tx_at (blocks @ [block]))"
  have len: "length (be_transactions block) \<le> length (be_transactions block')"
    using arg_cong [OF assms, of length] by simp
  have "te_tx (be_transactions block' ! i) = te_tx (be_transactions block ! i)" if "i < length (be_transactions block)" for i
    using arg_cong [OF assms, of "\<lambda>xs. xs ! i"] that len by (simp add: nth_append)
  then show "tx_at (blocks @ [block]) index = tx_at (blocks @ [block']) index"
    using a len by (auto simp: tx_at_def transactionByIndex_def nth_append Let_def split: if_splits)
qed

lemma push_transactions_refs:
  assumes "push_transactions cr F c now mh block pos sums hashes txs bc = Some (Completed block' sums' bc')"
    and "refs_ok (tx_at (blocks @ [block])) bc" and "be_height block = of_nat (length blocks)" and "length blocks < 2 ^ 32"
    and "length (be_transactions block) = Suc (unat pos)" and "unat pos + length txs < 65536"
    and "list_all (\<lambda>tx. length (tp_outputs tx) \<le> 65536) txs"
  shows "refs_ok (tx_at (blocks @ [block'])) bc'"
  using assms
proof (induction txs arbitrary: block pos sums hashes bc)
  case (Cons tx txs)
  then obtain tx_id hashes' where hashes: "hashes = tx_id # hashes'" by (cases hashes) auto
  let ?entry = "\<lparr>te_tx = tx, te_global_output_indexes = []\<rparr>"
  let ?block = "block\<lparr>be_transactions := be_transactions block @ [?entry]\<rparr>"
  let ?ti = "\<lparr>ti_block = be_height block, ti_transaction = pos + 1\<rparr> :: TransactionIndex"
  obtain blob fee inputs_ok p where
      eqs: "toBinaryArray out_Transaction tx = Some blob" "getTransactionFee_or_zero F c tx (be_height block) = Some fee"
        "checkTransactionInputs cr c now tx None bc = Some (inputs_ok, p)"
    using Cons.prems(1) hashes by (auto split: option.splits)
  obtain r block1 bc1 interest where
      push: "pushTransaction (cn_fast_hash cr) ?block tx_id ?ti bc = (Some r, block1, bc1)"
    and rest: "push_transactions cr F c now mh block1 (pos + 1)
          \<lparr>bt_cumulative_size = bt_cumulative_size sums + of_nat (length blob),
           bt_fee_summary = bt_fee_summary sums + fee,
           bt_interestSummary = bt_interestSummary sums + interest\<rparr> hashes' txs bc1 = Some (Completed block' sums' bc')"
    using Cons.prems(1) hashes eqs by (auto simp: Let_def split: option.splits if_splits prod.splits)
  have pos: "unat (pos + 1) = Suc (unat pos)" using Cons.prems(6) by (intro unat_add_exact [THEN trans]) simp_all
  have blk: "be_height block1 = be_height block" "map te_tx (be_transactions block1) = map te_tx (be_transactions block) @ [tx]"
    using push pushTransaction_block [of "cn_fast_hash cr" ?block tx_id ?ti bc block1 bc1]
      push_failed_unchanged [of "cn_fast_hash cr" ?block tx_id ?ti bc block1 bc1] by (cases r; simp)+
  have "tx_at (blocks @ [block]) \<subseteq>\<^sub>m tx_at (blocks @ [?block])" by (rule tx_at_extend [of _ _ "[tx]"]) simp
  then have refs: "refs_ok (tx_at (blocks @ [?block])) bc" using Cons.prems(2) refs_ok_mono by blast
  have at: "be_transactions ?block ! unat (ti_transaction ?ti) = ?entry"
    using Cons.prems(5) by (simp add: pos nth_append)
  have "tx_at (blocks @ [?block]) ?ti = Some tx"
    using Cons.prems(3,4,5) at by (simp add: tx_at_new pos)
  then have "refs_ok (tx_at (blocks @ [?block])) bc1"
    using Cons.prems(7) at by (intro pushTransaction_refs [OF push refs]) simp_all
  moreover have "tx_at (blocks @ [?block]) \<subseteq>\<^sub>m tx_at (blocks @ [block1])"
    using blk(2) by (intro tx_at_extend [of _ _ "[]"]) simp
  ultimately have refs1: "refs_ok (tx_at (blocks @ [block1])) bc1" using refs_ok_mono by blast
  have len: "length (be_transactions block1) = Suc (unat (pos + 1))"
    using arg_cong [OF blk(2), of length] Cons.prems(5) by (simp add: pos)
  show ?case
    by (rule Cons.IH [OF rest refs1]) (use blk(1) Cons.prems len pos in simp_all)
qed simp

section \<open>Well-formed inputs do not get stuck\<close>

text \<open>
  While a block is being added, the containers already refer to the outputs of its transactions,
  but \<open>transactionByIndex\<close> does not find them before the block is in \<open>m_blocks\<close>. The inputs that
  refer to such an output are the only ones whose check does not return.
\<close>

definition own_block :: "Blockchain \<Rightarrow> TransactionIndex \<Rightarrow> bool" where
  "own_block bc index \<longleftrightarrow> length (m_blocks bc) \<le> unat (ti_block index)"

definition spends_own_block :: "Blockchain \<Rightarrow> TransactionInput \<Rightarrow> bool" where
  "spends_own_block bc i \<longleftrightarrow>
    (case i of
       InKey k \<Rightarrow> (case m_outputs bc (ki_amount k) of None \<Rightarrow> False
         | Some v \<Rightarrow> list_ex (\<lambda>j. unat j < length v \<and> own_block bc (fst (v ! unat j)))
             (relative_output_offsets_to_absolute (ki_outputIndexes k)))
     | InMultisig m \<Rightarrow> (case m_multisignatureOutputs bc (mi_amount m) of None \<Rightarrow> False
         | Some v \<Rightarrow> unat (mi_outputIndex m) < length v
             \<and> own_block bc (mu_transactionIndex (v ! unat (mi_outputIndex m))))
     | InBase _ \<Rightarrow> False)"

lemma output_at_earlier:
  assumes "output_at (tx_at (m_blocks bc @ bs)) index n out" and "\<not> own_block bc index"
  shows "output_at (tx_at (m_blocks bc)) index n out"
proof -
  have "tx_at (m_blocks bc @ bs) index = tx_at (m_blocks bc) index"
    using assms(2) by (simp add: tx_at_def transactionByIndex_def own_block_def nth_append Let_def)
  then show ?thesis using assms(1) by (simp add: output_at_def)
qed

text \<open>What the containers hold about an entry that is not of the block under construction.\<close>

lemma refs_ok_key:
  assumes "refs_ok (tx_at (m_blocks bc @ bs)) bc" and "m_outputs bc a = Some v" and "i < length v"
    and "\<not> own_block bc (fst (v ! i))"
  shows "\<exists>entry k. transactionByIndex (m_blocks bc) (fst (v ! i)) = Some entry
    \<and> unat (snd (v ! i)) < length (tp_outputs (te_tx entry))
    \<and> to_amount (tp_outputs (te_tx entry) ! unat (snd (v ! i))) = a
    \<and> to_target (tp_outputs (te_tx entry) ! unat (snd (v ! i))) = OutKey k"
proof -
  have "(fst (v ! i), snd (v ! i)) \<in> set v" using assms(3) by simp
  then obtain out k where "output_at (tx_at (m_blocks bc @ bs)) (fst (v ! i)) (snd (v ! i)) out"
      "to_amount out = a" "to_target out = OutKey k"
    using assms(1,2) unfolding refs_ok_def by blast
  with output_at_earlier [OF _ assms(4)] show ?thesis by (fastforce simp: output_at_def tx_at_def)
qed

lemma refs_ok_multisig:
  assumes "refs_ok (tx_at (m_blocks bc @ bs)) bc" and "m_multisignatureOutputs bc a = Some v" and "i < length v"
    and "\<not> own_block bc (mu_transactionIndex (v ! i))"
  shows "\<exists>entry k. transactionByIndex (m_blocks bc) (mu_transactionIndex (v ! i)) = Some entry
    \<and> unat (mu_outputIndex (v ! i)) < length (tp_outputs (te_tx entry))
    \<and> to_amount (tp_outputs (te_tx entry) ! unat (mu_outputIndex (v ! i))) = a
    \<and> to_target (tp_outputs (te_tx entry) ! unat (mu_outputIndex (v ! i))) = OutMultisig k"
proof -
  have "v ! i \<in> set v" using assms(3) by simp
  then obtain out k where "output_at (tx_at (m_blocks bc @ bs)) (mu_transactionIndex (v ! i)) (mu_outputIndex (v ! i)) out"
      "to_amount out = a" "to_target out = OutMultisig k"
    using assms(1,2) unfolding refs_ok_def by blast
  with output_at_earlier [OF _ assms(4)] show ?thesis by (fastforce simp: output_at_def tx_at_def)
qed

lemma scan_loop_returns:
  assumes "\<forall>j \<in> set offsets. unat j < length v \<longrightarrow> transactionByIndex blocks (fst (v ! unat j)) \<noteq> None"
  shows "scan_loop blocks handle v offsets pmax collected \<noteq> None"
  using assms
proof (induction offsets arbitrary: pmax collected)
  case (Cons i offsets)
  show ?case
  proof (cases "unat i < length v")
    case True
    then obtain entry where "transactionByIndex blocks (fst (v ! unat i)) = Some entry"
      using Cons.prems by auto
    then show ?thesis using Cons True by (auto simp: Let_def split_beta split: option.split)
  qed simp
qed simp

lemma check_tx_input_returns:
  assumes refs: "refs_ok (tx_at (m_blocks bc @ bs)) bc" and own: "\<not> spends_own_block bc (InKey k)"
  shows "check_tx_input cr c now k h sig pmax bc \<noteq> None"
proof (cases "m_outputs bc (ki_amount k)")
  case None
  then show ?thesis by (simp add: check_tx_input_def scanOutputKeysForIndexes_def Let_def)
next
  case (Some v)
  have "\<forall>j \<in> set (relative_output_offsets_to_absolute (ki_outputIndexes k)).
      unat j < length v \<longrightarrow> transactionByIndex (m_blocks bc) (fst (v ! unat j)) \<noteq> None"
    using own Some refs_ok_key [OF refs Some] by (fastforce simp: spends_own_block_def list_ex_iff)
  from scan_loop_returns [OF this, of "handle_key_output c now bc" pmax "[]"] Some
  show ?thesis
    by (simp add: check_tx_input_def scanOutputKeysForIndexes_def Let_def del: not_None_eq split: option.split prod.split)
qed

lemma validateInput_returns:
  assumes refs: "refs_ok (tx_at (m_blocks bc @ bs)) bc" and own: "\<not> spends_own_block bc (InMultisig m)"
    and sig: "length sig = unat (mi_signatureCount m)"
  shows "validateInput cr c now m h sig bc \<noteq> None"
proof (cases "m_multisignatureOutputs bc (mi_amount m)")
  case None
  then show ?thesis using sig by (simp add: validateInput_def)
next
  case (Some v)
  show ?thesis
  proof (cases "unat (mi_outputIndex m) < length v")
    case False
    then show ?thesis using sig Some by (simp add: validateInput_def)
  next
    case True
    then have "\<not> own_block bc (mu_transactionIndex (v ! unat (mi_outputIndex m)))"
      using own Some by (simp add: spends_own_block_def)
    from refs_ok_multisig [OF refs Some True this] sig Some True
    show ?thesis by (auto simp: validateInput_def Let_def simp del: not_None_eq)
  qed
qed

lemma check_inputs_loop_returns:
  assumes refs: "refs_ok (tx_at (m_blocks bc @ bs)) bc"
  shows "map length sigs = map getSignaturesCount inputs \<Longrightarrow> \<not> list_ex (spends_own_block bc) inputs \<Longrightarrow>
    check_inputs_loop cr c now h bc inputs sigs pmax \<noteq> None"
proof (induction inputs arbitrary: sigs pmax)
  case (Cons i inputs)
  then obtain sig sigs' where sigs: "sigs = sig # sigs'" "length sig = getSignaturesCount i"
      "map length sigs' = map getSignaturesCount inputs" by (cases sigs) auto
  have own: "\<not> spends_own_block bc i" "\<not> list_ex (spends_own_block bc) inputs" using Cons.prems(2) by simp_all
  show ?case
  proof (cases i)
    case (InKey k)
    obtain ok p where "check_tx_input cr c now k h sig pmax bc = Some (ok, p)"
      using check_tx_input_returns [OF refs own(1) [unfolded InKey], of cr c now h sig pmax] by auto
    then show ?thesis using Cons.IH [OF sigs(3) own(2)] InKey by (simp add: sigs(1) del: not_None_eq)
  next
    case (InMultisig m)
    then obtain ok where "validateInput cr c now m h sig bc = Some ok"
      using validateInput_returns [OF refs own(1) [unfolded InMultisig], of sig cr c now h] sigs(2)
      by (auto simp: getSignaturesCount_def)
    then show ?thesis using Cons.IH [OF sigs(3) own(2)] InMultisig by (simp add: sigs(1) del: not_None_eq)
  qed (simp add: sigs(1))
qed simp

lemma checkTransactionInputs_returns:
  assumes "refs_ok (tx_at (m_blocks bc @ bs)) bc" and "ok_transaction tx"
    and "\<not> list_ex (spends_own_block bc) (tp_inputs tx)"
  shows "\<exists>ok p. checkTransactionInputs cr c now tx pmax bc = Some (ok, p)"
  using check_inputs_loop_returns [OF assms(1) _ assms(3)] assms(2)
  unfolding checkTransactionInputs_def Let_def ok_transaction_def by (metis option.exhaust surj_pair)

text \<open>On a chain without a block under construction no input refers to one.\<close>

lemma no_own_block:
  assumes refs: "refs_ok (tx_at (m_blocks bc)) bc"
  shows "\<not> spends_own_block bc i"
proof -
  have "\<not> own_block bc index" if "tx_at (m_blocks bc) index = Some tx" for index tx
    using that by (auto simp: tx_at_def transactionByIndex_def own_block_def Let_def split: if_splits)
  then have at: "\<not> own_block bc index" if "output_at (tx_at (m_blocks bc)) index n out" for index n out
    using that by (auto simp: output_at_def)
  have "\<not> own_block bc (fst (v ! j))" if "m_outputs bc a = Some v" "j < length v" for a v j
    using refs that at unfolding refs_ok_def by (metis nth_mem prod.collapse)
  moreover have "\<not> own_block bc (mu_transactionIndex (v ! j))"
    if "m_multisignatureOutputs bc a = Some v" "j < length v" for a v j
    using refs that at unfolding refs_ok_def by (metis nth_mem)
  ultimately show ?thesis
    by (auto simp: spends_own_block_def list_ex_iff split: TransactionInput.splits option.splits)
qed

text \<open>The check of an input whose ring holds an output of the block under construction throws.\<close>

lemma own_block_throws:
  assumes "tp_inputs tx = [InKey k]" and "tx_signatures tx = [sig]" and "ki_outputIndexes k = [j]"
    and "m_spent_keys bc (ki_keyImage k) = None" and "spends_own_block bc (InKey k)"
  shows "checkTransactionInputs cr c now tx pmax bc = None"
proof -
  from assms(3,5) obtain v where v: "m_outputs bc (ki_amount k) = Some v" "unat j < length v" "own_block bc (fst (v ! unat j))"
    by (auto simp: spends_own_block_def relative_output_offsets_to_absolute_def split: option.splits)
  then have "transactionByIndex (m_blocks bc) (fst (v ! unat j)) = None"
    by (simp add: transactionByIndex_def own_block_def)
  then have "scan_loop (m_blocks bc) (handle_key_output c now bc) v
      (relative_output_offsets_to_absolute (ki_outputIndexes k)) p [] = None" for p
    using v(2) assms(3) by (simp add: relative_output_offsets_to_absolute_def Let_def split_beta)
  then have "check_tx_input cr c now k h sig p bc = None" for h p
    using v(1) assms(3) by (simp add: check_tx_input_def scanOutputKeysForIndexes_def Let_def)
  then show ?thesis
    using assms(1-4) by (simp add: checkTransactionInputs_def have_tx_keyimg_as_spent_def Let_def)
qed

section \<open>Accepted inputs\<close>

text \<open>
  The rules of the chain for an input, with the amounts: a ring consists of key outputs of the chain
  that are unlocked and have the amount of the input.
\<close>

definition ring_output :: "Currency \<Rightarrow> u64 \<Rightarrow> Blockchain \<Rightarrow> u64 \<Rightarrow> u32 \<Rightarrow> PublicKey \<Rightarrow> bool" where
  "ring_output c now bc amount i key \<longleftrightarrow>
    (\<exists>v out k. m_outputs bc amount = Some v \<and> unat i < length v
      \<and> refers_to_output c now bc (fst (v ! unat i)) (snd (v ! unat i)) out
      \<and> to_amount out = amount \<and> to_target out = OutKey k \<and> ko_key k = key)"

definition input_valid ::
    "crypto_ops \<Rightarrow> Currency \<Rightarrow> u64 \<Rightarrow> Blockchain \<Rightarrow> Hash \<Rightarrow> TransactionInput \<Rightarrow> Signature list \<Rightarrow> bool" where
  "input_valid cr c now bc prefix_hash i sig \<longleftrightarrow>
    (case i of
       InKey k \<Rightarrow> m_spent_keys bc (ki_keyImage k) = None
         \<and> (\<exists>keys. keys \<noteq> []
             \<and> list_all2 (ring_output c now bc (ki_amount k)) (relative_output_offsets_to_absolute (ki_outputIndexes k)) keys
             \<and> length sig = length keys
             \<and> (UPGRADE_HEIGHT_V4 < ucast (getCurrentBlockchainHeight bc)
                 \<and> ucast (getCurrentBlockchainHeight bc) < UPGRADE_HEIGHT_V5 \<longrightarrow> 3 \<le> length keys)
             \<and> (\<not> isInCheckpointZone (getCurrentBlockchainHeight bc) bc \<longrightarrow>
                 scalarmultKey cr (ki_keyImage k) key_image_L = key_image_I
                 \<and> check_ring_signature cr prefix_hash (ki_keyImage k) keys sig))
     | InMultisig m \<Rightarrow> multisig_input_accepted cr c now bc prefix_hash m sig
     | InBase _ \<Rightarrow> False)"

lemma refers_earlier:
  "refers_to_output c now bc index n out \<Longrightarrow> \<not> own_block bc index"
  by (auto simp: refers_to_output_def transactionByIndex_def own_block_def Let_def split: if_splits)

lemma accepted_input_valid:
  assumes refs: "refs_ok (tx_at (m_blocks bc @ bs)) bc" and acc: "input_accepted cr c now bc h i sig"
  shows "input_valid cr c now bc h i sig"
proof (cases i)
  case (InKey k)
  then have "key_input_accepted cr c now bc h k sig" using acc by (simp add: input_accepted_def)
  then obtain v keys where v: "m_outputs bc (ki_amount k) = Some v"
    and members: "list_all2 (ring_member c now bc v) (relative_output_offsets_to_absolute (ki_outputIndexes k)) keys"
    and rest: "m_spent_keys bc (ki_keyImage k) = None" "keys \<noteq> []"
      "length sig = length keys" "UPGRADE_HEIGHT_V4 < ucast (getCurrentBlockchainHeight bc)
        \<and> ucast (getCurrentBlockchainHeight bc) < UPGRADE_HEIGHT_V5 \<longrightarrow> 3 \<le> length keys"
      "\<not> isInCheckpointZone (getCurrentBlockchainHeight bc) bc \<longrightarrow>
        scalarmultKey cr (ki_keyImage k) key_image_L = key_image_I
        \<and> check_ring_signature cr h (ki_keyImage k) keys sig"
    unfolding key_input_accepted_def by blast
  have "ring_output c now bc (ki_amount k) j key" if "ring_member c now bc v j key" for j key
  proof -
    from that obtain out ko where j: "unat j < length v"
      and out: "refers_to_output c now bc (fst (v ! unat j)) (snd (v ! unat j)) out" "to_target out = OutKey ko" "ko_key ko = key"
      by (auto simp: ring_member_def)
    have "to_amount out = ki_amount k"
      using refs_ok_key [OF refs v j refers_earlier [OF out(1)]] out(1) by (auto simp: refers_to_output_def)
    with v j out show ?thesis unfolding ring_output_def by blast
  qed
  with members have "list_all2 (ring_output c now bc (ki_amount k)) (relative_output_offsets_to_absolute (ki_outputIndexes k)) keys"
    by (rule list_all2_mono)
  with rest show ?thesis unfolding InKey input_valid_def by auto
qed (use acc in \<open>simp_all add: input_accepted_def input_valid_def\<close>)

end
