(* ===== verification/Chain_Undo.thy ===== *)
theory Chain_Undo
  imports Chain_References
begin

text \<open>
  What adding a block promises: a block that is added can be removed again with every container
  restored, a block that is refused leaves no trace, unless it is refused for its size, and the
  containers of the chain stay consistent with each other.
\<close>

section \<open>Removing transactions does not depend on the other containers\<close>

lemma pop_output_update: "pop_output ti n out (Ledger.more_update f l) = Ledger.more_update f (pop_output ti n out l)"
  by (cases "to_target out"; cases "m_outputs l (to_amount out)"; cases "m_multisignatureOutputs l (to_amount out)")
    (simp_all add: pop_output_def)

lemma pop_outputs_update:
  "pop_outputs ti outs n (Ledger.more_update f l) = Ledger.more_update f (pop_outputs ti outs n l)"
  by (induction n arbitrary: l) (simp_all add: pop_output_update)

lemma popTransaction_update:
  "popTransaction H tx h (Ledger.more_update f l) = map_option (Ledger.more_update f) (popTransaction H tx h l)"
  by (simp add: popTransaction_def pop_outputs_update fold_pop_input Let_def split: option.split)

lemma pop_loop_update:
  "pop_loop H txs (Ledger.more_update f l) = map_option (Ledger.more_update f) (pop_loop H txs l)"
proof (induction txs arbitrary: l)
  case (Cons x txs)
  then show ?case by (cases x) (simp add: popTransaction_update split: option.split)
qed simp

lemma popTransactions_update:
  "popTransactions H block m (Ledger.more_update f l) = map_option (Ledger.more_update f) (popTransactions H block m l)"
  by (simp add: popTransactions_def pop_loop_update popTransaction_update split: option.split)

section \<open>The loop over the transactions\<close>

lemma push_transactions_state:
  assumes "push_transactions cr F c now mh block pos sums hashes txs bc = Some r"
    and "loop_state (cn_fast_hash cr) mh bc0 block pos hashes bc" and "unat pos + length txs < 65536"
    and "list_all semantic_ok txs"
  shows "case r of InvalidTransaction bc' \<Rightarrow> bc' = bc0
    | Completed block' sums' bc' \<Rightarrow>
        loop_state (cn_fast_hash cr) mh bc0 block' (pos + of_nat (length txs)) (drop (length txs) hashes) bc'
        \<and> be_bl block' = be_bl block \<and> be_height block' = be_height block
        \<and> map te_tx (be_transactions block') = map te_tx (be_transactions block) @ txs"
  using assms
proof (induction txs arbitrary: block pos sums hashes bc)
  case Nil
  then show ?case by auto
next
  case (Cons tx txs)
  then obtain tx_id hashes' where hashes: "hashes = tx_id # hashes'" by (cases hashes) auto
  let ?H = "cn_fast_hash cr"
  let ?block = "block\<lparr>be_transactions := be_transactions block @ [\<lparr>te_tx = tx, te_global_output_indexes = []\<rparr>]\<rparr>"
  let ?ti = "\<lparr>ti_block = be_height block, ti_transaction = pos + 1\<rparr>"
  obtain blob fee inputs_ok p where
      eqs: "toBinaryArray out_Transaction tx = Some blob" "getTransactionFee_or_zero F c tx (be_height block) = Some fee"
        "checkTransactionInputs cr c now tx None bc = Some (inputs_ok, p)"
    using Cons.prems(1) hashes by (auto split: option.splits)
  show ?case
  proof (cases "bh_majorVersion (be_bl block) = 1 \<and> 1 < tp_version tx \<or> \<not> inputs_ok
           \<or> \<not> check_tx_outputs cr c tx (be_height block)")
    case True
    then have "map_option InvalidTransaction (popTransactions ?H block mh bc) = Some r" using Cons.prems(1) hashes eqs by auto
    then show ?thesis using Cons.prems(2) by (auto simp: loop_state_def)
  next
    case False
    then have ok: inputs_ok by blast
    obtain pr block' bc' where push: "pushTransaction ?H ?block tx_id ?ti bc = (pr, block', bc')"
      by (cases "pushTransaction ?H ?block tx_id ?ti bc")
    have small: "Suc (unat pos) < 65536" and sem: "semantic_ok tx" "list_all semantic_ok txs" using Cons.prems(3,4) by auto
    note st = loop_state_step [OF Cons.prems(2) [unfolded hashes] eqs(3) [unfolded eqTrueI [OF ok]] sem(1) small push]
    then have pr: "pr = Some True" by blast
    obtain interest where interest: "calculateTotalTransactionInterest F c tx (be_height block') = Some interest"
      and rest: "push_transactions cr F c now mh block' (pos + 1)
          \<lparr>bt_cumulative_size = bt_cumulative_size sums + of_nat (length blob),
           bt_fee_summary = bt_fee_summary sums + fee,
           bt_interestSummary = bt_interestSummary sums + interest\<rparr> hashes' txs bc' = Some r"
      using Cons.prems(1) hashes eqs False push pr by (auto simp: Let_def split: option.splits)
    have pos: "unat (pos + 1) = Suc (unat pos)" using small by (simp add: unat_add_exact)
    have "loop_state ?H mh bc0 block' (pos + 1) hashes' bc'" and "unat (pos + 1) + length txs < 65536"
      using st Cons.prems(3) pos by simp_all
    from Cons.IH [OF rest this sem(2)]
    show ?thesis using st by (auto simp: algebra_simps hashes split: loop_result.splits)
  qed
qed

section \<open>The miner transaction\<close>

lemma prevalidated_inputs:
  "prevalidate_miner_transaction cr c b height = Some True \<Longrightarrow>
    \<exists>i. tp_inputs (bl_baseTransaction b) = [InBase i] \<and> bi_blockIndex i = height"
  by (cases "tp_inputs (bl_baseTransaction b)")
    (auto simp: prevalidate_miner_transaction_def Let_def split: TransactionInput.splits if_splits)

lemma header_prevalidated:
  "check_block_header cr c now b h bvc bc = Some (Some d, bvc') \<Longrightarrow>
    prevalidate_miner_transaction cr c b (of_nat (length (m_blocks bc))) = Some True
    \<and> bvc' = bvc \<and> \<not> hasBlock h (m_blockIndex bc) \<and> Blockchain_getTailId bc = Some (bh_previousBlockHash b)"
  by (auto simp: check_block_header_def Let_def split: if_splits option.splits bool.splits)

lemma header_refused:
  "check_block_header cr c now b h bvc bc = Some (None, bvc') \<Longrightarrow>
    \<not> bv_added_to_main_chain bvc \<Longrightarrow> \<not> bv_added_to_main_chain bvc'"
  by (auto simp: check_block_header_def Let_def split: if_splits option.splits bool.splits)

text \<open>
  A block whose transactions have passed the checks of the pool: they and their hashes are new
  to the chain and different from each other, and 16 bits count them and their outputs.
\<close>

definition block_ok :: "(u8 list \<Rightarrow> Hash) \<Rightarrow> Block \<Rightarrow> Transaction list \<Rightarrow> 'a Ledger_scheme \<Rightarrow> bool" where
  "block_ok H b txs l \<longleftrightarrow> distinct (miner_hash H b # bl_transactionHashes b)
    \<and> list_all (\<lambda>h. m_transactionMap l h = None) (miner_hash H b # bl_transactionHashes b)
    \<and> list_all semantic_ok txs \<and> length txs < 65536 \<and> length (tp_outputs (bl_baseTransaction b)) \<le> 65536"

lemma push_miner:
  assumes ok: "block_ok H b txs bc" and wf: "ledger_wf bc"
    and inputs: "tp_inputs (bl_baseTransaction b) = [InBase i]"
    and push: "pushTransaction H (initial_entry b bc) (miner_hash H b)
      \<lparr>ti_block = be_height (initial_entry b bc), ti_transaction = 0\<rparr> bc = (r, block, bc')"
  shows "r = Some True \<and> loop_state H (miner_hash H b) bc block 0 (bl_transactionHashes b) bc'
    \<and> be_bl block = b \<and> be_height block = of_nat (length (m_blocks bc))
    \<and> map te_tx (be_transactions block) = [bl_baseTransaction b]"
proof -
  let ?ti = "\<lparr>ti_block = be_height (initial_entry b bc), ti_transaction = 0\<rparr> :: TransactionIndex"
  have "checkMultisignatureInputsDiff (bl_baseTransaction b)"
    using inputs by (simp add: checkMultisignatureInputsDiff_def)
  then have "\<exists>block' l'. pushTransaction H (initial_entry b bc) (miner_hash H b) ?ti bc = (Some True, block', l')"
    unfolding pushTransaction_succeeds_iff Let_def using ok inputs by (simp add: initial_entry_def block_ok_def)
  with push have r: "r = Some True" by simp
  note push = push [unfolded r]
  have undo: "popTransaction H (bl_baseTransaction b) (miner_hash H b) bc' = Some bc"
    using wf ok inputs by (intro pop_push_transaction [OF push]) (simp_all add: initial_entry_def block_ok_def unused_def)
  note blk = pushTransaction_block [OF push, unfolded initial_entry_def, simplified]
  obtain e where e: "be_transactions block = [e]" using arg_cong [OF blk(3), of length] by (auto simp: length_Suc_conv)
  have "popTransactions H block (miner_hash H b) bc' = Some bc"
    using undo blk(1) by (simp add: popTransactions_one [OF e])
  moreover have "\<forall>h \<in> set (bl_transactionHashes b). m_transactionMap bc' h = None"
    using ok pushTransaction_map [OF push] by (auto simp: block_ok_def list_all_iff)
  ultimately have "loop_state H (miner_hash H b) bc block 0 (bl_transactionHashes b) bc'"
    unfolding loop_state_def
    using ok pushTransaction_wf [OF push wf] pushTransaction_more [OF push] e blk(1) by (simp add: block_ok_def)
  then show ?thesis using r blk by simp
qed

section \<open>What a call of pushBlock did\<close>

lemma complete_block_cases:
  assumes "complete_block cr c b d mh bvc block sums bc = Some (r, bvc', bc')"
  obtains (oversized) "\<not> r" and "bc' = bc"
      and "checkCumulativeBlockSize c (bt_cumulative_size sums) (ucast (be_height block)) = Some False"
  | (refused) "\<not> r" and "popTransactions (cn_fast_hash cr) block mh bc = Some bc'"
  | (added) e where "r" and "bvc' = bvc\<lparr>bv_added_to_main_chain := True\<rparr>"
      and "finish_block cr c d block sums (getCoinsInCirculation bc) e bc = Some bc'"
  using assms unfolding complete_block_def Let_def by (auto split: option.splits bool.splits prod.splits)

lemma pushBlock_cases:
  assumes push: "pushBlock cr F c now b txs h bvc bc = Some (r, bvc', bc')"
    and ok: "block_ok (cn_fast_hash cr) b txs bc" and wf: "ledger_wf bc"
  defines "H \<equiv> cn_fast_hash cr" and "mh \<equiv> miner_hash (cn_fast_hash cr) b"
  obtains (refused) "\<not> r" and "bc' = bc"
  | (completed) d block0 bc0 block sums bc1 where
      "check_block_header cr c now b h bvc bc = Some (Some d, bvc)"
    and "pushTransaction H (initial_entry b bc) mh \<lparr>ti_block = be_height (initial_entry b bc), ti_transaction = 0\<rparr> bc
      = (Some True, block0, bc0)"
    and "push_transactions cr F c now mh block0 0 (initial_totals b) (bl_transactionHashes b) txs bc0
      = Some (Completed block sums bc1)"
    and "loop_state H mh bc block (of_nat (length txs)) (drop (length txs) (bl_transactionHashes b)) bc1"
    and "be_bl block = b" and "be_height block = of_nat (length (m_blocks bc))"
    and "map te_tx (be_transactions block) = bl_baseTransaction b # txs"
    and "complete_block cr c b d mh bvc block sums bc1 = Some (r, bvc', bc')"
proof -
  let ?ti = "\<lparr>ti_block = be_height (initial_entry b bc), ti_transaction = 0\<rparr> :: TransactionIndex"
  consider (no) bvc1 where "check_block_header cr c now b h bvc bc = Some (None, bvc1)"
    | (yes) d where "check_block_header cr c now b h bvc bc = Some (Some d, bvc)"
  proof (cases "check_block_header cr c now b h bvc bc")
    case None
    then show thesis using push by (simp add: pushBlock_def)
  next
    case (Some x)
    then show thesis using header_prevalidated [of cr c now b h bvc bc] no yes by (cases x; cases "fst x") auto
  qed
  then show thesis
  proof cases
    case no
    then have "r = False \<and> bc' = bc" using push by (simp add: pushBlock_def)
    then show ?thesis using refused by blast
  next
    case yes
    obtain i where inputs: "tp_inputs (bl_baseTransaction b) = [InBase i]"
      using prevalidated_inputs header_prevalidated [OF yes] by blast
    obtain pr block0 bc0 where p0: "pushTransaction H (initial_entry b bc) mh ?ti bc = (pr, block0, bc0)"
      by (cases "pushTransaction H (initial_entry b bc) mh ?ti bc")
    note miner = push_miner [OF ok wf inputs p0 [unfolded H_def mh_def], folded H_def mh_def]
    obtain res where loop: "push_transactions cr F c now mh block0 0 (initial_totals b)
        (bl_transactionHashes b) txs bc0 = Some res"
      using push yes p0 miner
      by (cases "push_transactions cr F c now mh block0 0 (initial_totals b) (bl_transactionHashes b) txs bc0")
        (simp_all add: pushBlock_def Let_def H_def mh_def)
    have state: "case res of InvalidTransaction bc' \<Rightarrow> bc' = bc
      | Completed block' sums' bc' \<Rightarrow>
          loop_state H mh bc block' (0 + of_nat (length txs)) (drop (length txs) (bl_transactionHashes b)) bc'
          \<and> be_bl block' = be_bl block0 \<and> be_height block' = be_height block0
          \<and> map te_tx (be_transactions block') = map te_tx (be_transactions block0) @ txs"
      unfolding H_def
      using miner ok by (intro push_transactions_state [OF loop]) (simp_all add: block_ok_def H_def)
    show ?thesis
    proof (cases res)
      case (InvalidTransaction bc2)
      then show ?thesis using push yes p0 miner loop state refused by (simp add: pushBlock_def Let_def H_def mh_def)
    next
      case (Completed block sums bc1)
      then have "complete_block cr c b d mh bvc block sums bc1 = Some (r, bvc', bc')"
        using push yes p0 miner loop by (simp add: pushBlock_def Let_def H_def mh_def)
      then show ?thesis using completed yes p0 miner loop state Completed by simp
    qed
  qed
qed

section \<open>The last steps of pushBlock\<close>

lemma update_detectors_cases:
  assumes "update_detectors f bc = Some bc'"
  obtains v2 v3 v4 v7 v8 where "f (m_upgradeDetectorV2 bc) = Some v2" "f (m_upgradeDetectorV3 bc) = Some v3"
    "f (m_upgradeDetectorV4 bc) = Some v4" "f (m_upgradeDetectorV7 bc) = Some v7" "f (m_upgradeDetectorV8 bc) = Some v8"
    "bc' = bc\<lparr>m_upgradeDetectorV2 := v2, m_upgradeDetectorV3 := v3, m_upgradeDetectorV4 := v4,
        m_upgradeDetectorV7 := v7, m_upgradeDetectorV8 := v8\<rparr>"
  using assms by (auto simp: update_detectors_def split: option.splits)

definition block_version :: "BlockEntry \<Rightarrow> u8 \<times> u8" where
  "block_version b = (bh_majorVersion (be_bl b), bh_minorVersion (be_bl b))"

lemma chain_versions_map: "chain_versions bc = map block_version (m_blocks bc)"
  by (simp add: chain_versions_def block_version_def)

text \<open>The ledger of the one chain with the other containers of the other chain.\<close>

definition with_ledger :: "Blockchain \<Rightarrow> Blockchain \<Rightarrow> Blockchain" where
  "with_ledger bc bc' = Ledger.more_update (\<lambda>_. Ledger.more bc') bc"

lemma with_ledger_sel [simp]:
  "m_spent_keys (with_ledger bc bc') = m_spent_keys bc" "m_outputs (with_ledger bc bc') = m_outputs bc"
  "m_multisignatureOutputs (with_ledger bc bc') = m_multisignatureOutputs bc"
  "m_transactionMap (with_ledger bc bc') = m_transactionMap bc" "m_paymentIdIndex (with_ledger bc bc') = m_paymentIdIndex bc"
  "Ledger.more (with_ledger bc bc') = Ledger.more bc'"
  by (simp_all add: with_ledger_def)

lemmas with_ledger_chain [simp] = chain_frame [OF with_ledger_sel(6)]

lemma finish_block_ok:
  assumes "finish_block cr c d block sums coins e bc = Some bc'"
  obtains blk deposit x where
      "be_bl blk = be_bl block" and "be_height blk = be_height block" and "be_transactions blk = be_transactions block"
    and "m_blocks bc' = m_blocks bc @ [blk]"
    and "m_blockIndex bc' = snd (BlockIndex_push (snd (get_block_hash (cn_fast_hash cr) (be_bl block))) (m_blockIndex bc))"
    and "m_timestampIndex bc' = TimestampBlocksIndex_add (bh_timestamp (be_bl block))
      (snd (get_block_hash (cn_fast_hash cr) (be_bl block))) (m_timestampIndex bc)"
    and "GeneratedTransactionsIndex_add (be_bl block) (m_generatedTransactionsIndex bc) = Some (x, m_generatedTransactionsIndex bc')"
    and "push_pair deposit (m_depositIndex bc) = Some (m_depositIndex bc')"
    and "push_version c (block_version blk) (chain_versions bc, m_upgradeDetectorV2 bc)
      = Some (chain_versions bc', m_upgradeDetectorV2 bc')"
    and "push_version c (block_version blk) (chain_versions bc, m_upgradeDetectorV3 bc)
      = Some (chain_versions bc', m_upgradeDetectorV3 bc')"
    and "push_version c (block_version blk) (chain_versions bc, m_upgradeDetectorV4 bc)
      = Some (chain_versions bc', m_upgradeDetectorV4 bc')"
    and "push_version c (block_version blk) (chain_versions bc, m_upgradeDetectorV7 bc)
      = Some (chain_versions bc', m_upgradeDetectorV7 bc')"
    and "push_version c (block_version blk) (chain_versions bc, m_upgradeDetectorV8 bc)
      = Some (chain_versions bc', m_upgradeDetectorV8 bc')"
    and "bc' = with_ledger bc bc'" and "m_checkpoints bc' = m_checkpoints bc"
proof -
  define blk where "blk = block\<lparr>be_block_cumulative_size := bt_cumulative_size sums,
           be_cumulative_difficulty := d + (if m_blocks bc = [] then 0 else be_cumulative_difficulty (last (m_blocks bc))),
           be_already_generated_coins := coins + of_int e + bt_interestSummary sums\<rparr>"
  obtain bc1 bc2 bc3 where 1: "pushBlock_entry (cn_fast_hash cr) blk bc = Some bc1"
    and 2: "pushToDepositIndex blk (bt_interestSummary sums) bc1 = Some bc2"
    and 3: "update_detectors (blockPushed c (chain_versions bc2)) bc2 = Some bc3"
    and 4: "bc' = update_next_comulative_size_limit c bc3"
    using assms unfolding finish_block_def Let_def blk_def [symmetric]
    by (auto split: option.splits)
  obtain x g where g: "GeneratedTransactionsIndex_add (be_bl blk) (m_generatedTransactionsIndex bc) = Some (x, g)"
    and bc1: "bc1 = bc\<lparr>m_blocks := m_blocks bc @ [blk],
           m_blockIndex := snd (BlockIndex_push (snd (get_block_hash (cn_fast_hash cr) (be_bl blk))) (m_blockIndex bc)),
           m_timestampIndex := TimestampBlocksIndex_add (bh_timestamp (be_bl blk))
             (snd (get_block_hash (cn_fast_hash cr) (be_bl blk))) (m_timestampIndex bc),
           m_generatedTransactionsIndex := g\<rparr>"
    using 1 by (auto simp: pushBlock_entry_def Let_def split: option.splits if_splits)
  obtain deposit dep where dep: "push_pair deposit (m_depositIndex bc) = Some dep" and bc2: "bc2 = bc1\<lparr>m_depositIndex := dep\<rparr>"
    using 2 bc1 by (auto simp: pushToDepositIndex_def push_pair_def Let_def)
  have versions: "chain_versions bc2 = chain_versions bc @ [block_version blk]"
    by (simp add: chain_versions_map bc1 bc2)
  obtain lim where bc': "bc' = bc3\<lparr>m_current_block_cumul_sz_limit := lim\<rparr>"
    using 4 by (simp add: update_next_comulative_size_limit_def Let_def)
  obtain v2 v3 v4 v7 v8 where det: "blockPushed c (chain_versions bc2) (m_upgradeDetectorV2 bc2) = Some v2"
      "blockPushed c (chain_versions bc2) (m_upgradeDetectorV3 bc2) = Some v3"
      "blockPushed c (chain_versions bc2) (m_upgradeDetectorV4 bc2) = Some v4"
      "blockPushed c (chain_versions bc2) (m_upgradeDetectorV7 bc2) = Some v7"
      "blockPushed c (chain_versions bc2) (m_upgradeDetectorV8 bc2) = Some v8"
    and bc3: "bc3 = bc2\<lparr>m_upgradeDetectorV2 := v2, m_upgradeDetectorV3 := v3, m_upgradeDetectorV4 := v4,
        m_upgradeDetectorV7 := v7, m_upgradeDetectorV8 := v8\<rparr>"
    using 3 by (rule update_detectors_cases)
  have versions': "chain_versions bc' = chain_versions bc @ [block_version blk]"
    by (simp add: chain_versions_map bc' bc3 bc1 bc2)
  note all = bc' bc3 bc2 bc1
  show ?thesis
  proof (rule that [of blk x deposit])
    show "bc' = with_ledger bc bc'" by (rule Blockchain.equality) (simp_all add: all)
  qed (use g dep det in \<open>simp_all add: versions versions' push_version_def\<close>, simp_all add: all blk_def)
qed

section \<open>The invariant of the chain\<close>

definition block_id :: "(u8 list \<Rightarrow> Hash) \<Rightarrow> BlockEntry \<Rightarrow> Hash" where
  "block_id H b = snd (get_block_hash H (be_bl b))"

definition detectors :: "Blockchain \<Rightarrow> UpgradeDetector list" where
  "detectors bc = [m_upgradeDetectorV2 bc, m_upgradeDetectorV3 bc, m_upgradeDetectorV4 bc,
    m_upgradeDetectorV7 bc, m_upgradeDetectorV8 bc]"

text \<open>
  The entries of the ledger refer to outputs of the blocks, the block at each height has this height
  and the hash of the block before it, the block index lists the hashes, and the other indices have
  one entry per block.
\<close>

definition linked :: "(u8 list \<Rightarrow> Hash) \<Rightarrow> BlockEntry list \<Rightarrow> bool" where
  "linked H blocks \<longleftrightarrow> (\<forall>i < length blocks. be_height (blocks ! i) = of_nat i
    \<and> bh_previousBlockHash (be_bl (blocks ! i)) = (if i = 0 then 0 else block_id H (blocks ! (i - 1))))"

definition chain_inv :: "(u8 list \<Rightarrow> Hash) \<Rightarrow> Currency \<Rightarrow> Blockchain \<Rightarrow> bool" where
  "chain_inv H c bc \<longleftrightarrow> ledger_wf bc \<and> refs_ok (tx_at (m_blocks bc)) bc \<and> length (m_blocks bc) < 2 ^ 32 - 1
    \<and> linked H (m_blocks bc) \<and> m_blockIndex bc = map (block_id H) (m_blocks bc) \<and> distinct (m_blockIndex bc)
    \<and> snd ` set (m_timestampIndex bc) \<subseteq> set (m_blockIndex bc)
    \<and> gt_inv (m_generatedTransactionsIndex bc)
    \<and> length (gt_index (m_generatedTransactionsIndex bc)) = length (m_blocks bc)
    \<and> (\<exists>bs. m_depositIndex bc = index_of bs \<and> length bs = length (m_blocks bc))
    \<and> list_all (\<lambda>d. ud_inv c 0 (chain_versions bc, d)) (detectors bc)"

definition room :: "Blockchain \<Rightarrow> bool" where
  "room bc \<longleftrightarrow> length (m_blocks bc) + 1 < 2 ^ 32 - 1"

lemma room_detectors:
  "chain_inv H c bc \<Longrightarrow> room bc \<Longrightarrow> list_all (\<lambda>d. ud_inv c (Suc 0) (chain_versions bc, d)) (detectors bc)"
  unfolding chain_inv_def room_def by (simp add: list_all_iff ud_inv_def chain_versions_map)

lemma linked_snoc:
  "linked H blocks \<Longrightarrow> be_height b = of_nat (length blocks) \<Longrightarrow>
    bh_previousBlockHash (be_bl b) = (if blocks = [] then 0 else block_id H (last blocks)) \<Longrightarrow> linked H (blocks @ [b])"
  by (auto simp: linked_def nth_append last_conv_nth less_Suc_eq)

lemma sizes_agree_map:
  "m_blockIndex bc = map f (m_blocks bc) \<Longrightarrow> length (m_blocks bc) < 2 ^ 32 \<Longrightarrow> sizes_agree bc"
  unfolding sizes_agree_def BlockIndex_size_def
  by (intro unat_eqI) (simp add: unat_ucast_nat unat_of_nat)

lemma pushed_refs:
  assumes miner: "pushTransaction H (initial_entry b bc) mh
      \<lparr>ti_block = be_height (initial_entry b bc), ti_transaction = 0\<rparr> bc = (Some True, block0, bc0)"
    and loop: "push_transactions cr F c now mh block0 0 sums (bl_transactionHashes b) txs bc0 = Some (Completed block sums' bc1)"
    and refs: "refs_ok (tx_at (m_blocks bc)) bc" and len: "length (m_blocks bc) < 2 ^ 32" and ok: "block_ok H b txs bc"
  shows "refs_ok (tx_at (m_blocks bc @ [block])) bc1"
proof -
  let ?e = "initial_entry b bc"
  have "tx_at (m_blocks bc) \<subseteq>\<^sub>m tx_at (m_blocks bc @ [?e])" by (auto simp: map_le_def tx_at_old)
  then have refs0: "refs_ok (tx_at (m_blocks bc @ [?e])) bc" using refs refs_ok_mono by blast
  have "refs_ok (tx_at (m_blocks bc @ [?e])) bc0"
    by (rule pushTransaction_refs [OF miner refs0])
      (use ok len in \<open>simp_all add: initial_entry_def tx_at_new block_ok_def\<close>)
  moreover note blk = pushTransaction_block [OF miner]
  have "tx_at (m_blocks bc @ [?e]) \<subseteq>\<^sub>m tx_at (m_blocks bc @ [block0])"
    using blk(3) by (intro tx_at_extend [of _ _ "[]"]) simp
  ultimately have "refs_ok (tx_at (m_blocks bc @ [block0])) bc0" using refs_ok_mono by blast
  moreover have "length (be_transactions block0) = Suc (unat (0 :: u16))"
    using arg_cong [OF blk(3), of length] by (simp add: initial_entry_def)
  moreover have "list_all (\<lambda>tx. length (tp_outputs tx) \<le> 65536) txs"
    using ok by (auto simp: block_ok_def semantic_ok_def list_all_iff)
  ultimately show ?thesis
    using push_transactions_refs [OF loop] blk(2) len ok by (simp add: block_ok_def initial_entry_def)
qed

text \<open>The state after a successful \<open>pushBlock\<close>, seen from the containers.\<close>

lemma added_block:
  assumes push: "pushBlock cr F c now b txs h bvc bc = Some (True, bvc', bc')"
    and ok: "block_ok (cn_fast_hash cr) b txs bc" and inv: "chain_inv (cn_fast_hash cr) c bc" and room: "room bc"
    and h: "h = snd (get_block_hash (cn_fast_hash cr) b)"
  defines "H \<equiv> cn_fast_hash cr"
  obtains blk deposit where
      "be_bl blk = b" and "map te_tx (be_transactions blk) = bl_baseTransaction b # txs"
    and "\<And>f. popTransactions H blk (miner_hash H b) (Ledger.more_update f bc')
      = Some (with_ledger bc (Ledger.more_update f bc'))"
    and "ledger_wf bc'" and "refs_ok (tx_at (m_blocks bc')) bc'" and "m_blocks bc' = m_blocks bc @ [blk]" and "linked H (m_blocks bc')"
    and "m_blockIndex bc' = m_blockIndex bc @ [h]" and "h \<notin> set (m_blockIndex bc)"
    and "m_timestampIndex bc' = TimestampBlocksIndex_add (bh_timestamp b) h (m_timestampIndex bc)"
    and "gt_inv (m_generatedTransactionsIndex bc')"
    and "length (gt_index (m_generatedTransactionsIndex bc')) = Suc (length (m_blocks bc))"
    and "GeneratedTransactionsIndex_remove b (m_generatedTransactionsIndex bc') = Some (True, m_generatedTransactionsIndex bc)"
    and "push_pair deposit (m_depositIndex bc) = Some (m_depositIndex bc')"
    and "list_all2 (\<lambda>d d'. push_version c (block_version blk) (chain_versions bc, d) = Some (chain_versions bc', d'))
      (detectors bc) (detectors bc')"
    and "m_checkpoints bc' = m_checkpoints bc" and "bvc' = bvc\<lparr>bv_added_to_main_chain := True\<rparr>"
proof -
  note i = inv [unfolded chain_inv_def]
  from pushBlock_cases [OF push ok] i obtain d block0 bc0 block sums bc1 where
      header: "check_block_header cr c now b h bvc bc = Some (Some d, bvc)"
    and miner: "pushTransaction H (initial_entry b bc) (miner_hash H b)
      \<lparr>ti_block = be_height (initial_entry b bc), ti_transaction = 0\<rparr> bc = (Some True, block0, bc0)"
    and loop: "push_transactions cr F c now (miner_hash H b) block0 0 (initial_totals b) (bl_transactionHashes b) txs bc0
      = Some (Completed block sums bc1)"
    and state: "loop_state H (miner_hash H b) bc block (of_nat (length txs)) (drop (length txs) (bl_transactionHashes b)) bc1"
    and block: "be_bl block = b" "be_height block = of_nat (length (m_blocks bc))"
      "map te_tx (be_transactions block) = bl_baseTransaction b # txs"
    and complete: "complete_block cr c b d (miner_hash H b) bvc block sums bc1 = Some (True, bvc', bc')"
    unfolding H_def by (metis (no_types, lifting))
  from complete obtain e where bvc': "bvc' = bvc\<lparr>bv_added_to_main_chain := True\<rparr>"
    and finish: "finish_block cr c d block sums (getCoinsInCirculation bc1) e bc1 = Some bc'"
    by (cases rule: complete_block_cases) auto
  note st = state [unfolded loop_state_def]
  have "Ledger.more bc1 = Ledger.more bc" using st by simp
  note same = chain_frame [OF this]
  have same_versions: "chain_versions bc1 = chain_versions bc" by (simp add: chain_versions_def same)
  note head = header_prevalidated [OF header]
  obtain bi where bi: "tp_inputs (bl_baseTransaction b) = [InBase bi]" "bi_blockIndex bi = of_nat (length (m_blocks bc))"
    using prevalidated_inputs head by blast
  have new: "h \<notin> set (m_blockIndex bc)" using head by (simp add: hasBlock_def)
  from finish obtain blk deposit x where fin:
      "be_bl blk = be_bl block" "be_height blk = be_height block" "be_transactions blk = be_transactions block"
      "m_blocks bc' = m_blocks bc1 @ [blk]"
      "m_blockIndex bc' = snd (BlockIndex_push (snd (get_block_hash H (be_bl block))) (m_blockIndex bc1))"
      "m_timestampIndex bc' = TimestampBlocksIndex_add (bh_timestamp (be_bl block))
        (snd (get_block_hash H (be_bl block))) (m_timestampIndex bc1)"
      "GeneratedTransactionsIndex_add (be_bl block) (m_generatedTransactionsIndex bc1) = Some (x, m_generatedTransactionsIndex bc')"
      "push_pair deposit (m_depositIndex bc1) = Some (m_depositIndex bc')"
      "push_version c (block_version blk) (chain_versions bc1, m_upgradeDetectorV2 bc1)
        = Some (chain_versions bc', m_upgradeDetectorV2 bc')"
      "push_version c (block_version blk) (chain_versions bc1, m_upgradeDetectorV3 bc1)
        = Some (chain_versions bc', m_upgradeDetectorV3 bc')"
      "push_version c (block_version blk) (chain_versions bc1, m_upgradeDetectorV4 bc1)
        = Some (chain_versions bc', m_upgradeDetectorV4 bc')"
      "push_version c (block_version blk) (chain_versions bc1, m_upgradeDetectorV7 bc1)
        = Some (chain_versions bc', m_upgradeDetectorV7 bc')"
      "push_version c (block_version blk) (chain_versions bc1, m_upgradeDetectorV8 bc1)
        = Some (chain_versions bc', m_upgradeDetectorV8 bc')"
      "bc' = with_ledger bc1 bc'" "m_checkpoints bc' = m_checkpoints bc1"
    unfolding H_def by (rule finish_block_ok)
  note fin = fin [unfolded block same same_versions, folded h [folded H_def]]
  have len: "unat (of_nat (length (m_blocks bc)) :: u32) = length (m_blocks bc)"
    using i by (intro unat_of_nat_less) simp
  have base: "base_height b = Some (bi_blockIndex bi)" using bi by (simp add: base_height_def)
  have gtlen: "unat (bi_blockIndex bi) = length (gt_index (m_generatedTransactionsIndex bc))"
    using bi(2) len i by simp
  have gt: "gt_inv (m_generatedTransactionsIndex bc)" using i by blast
  obtain g where g: "GeneratedTransactionsIndex_add b (m_generatedTransactionsIndex bc) = Some (True, g)"
    using gt_add_ok(1) [OF gt base gtlen] by blast
  then have gadd: "GeneratedTransactionsIndex_add b (m_generatedTransactionsIndex bc) = Some (True, m_generatedTransactionsIndex bc')"
    using fin(7) by simp
  have pop: "popTransactions H blk (miner_hash H b) (Ledger.more_update f bc') = Some (with_ledger bc (Ledger.more_update f bc'))" for f
  proof -
    have "popTransactions H blk (miner_hash H b) bc' = popTransactions H block (miner_hash H b) (with_ledger bc1 bc')"
      using fin(1,3,14) block by (simp add: popTransactions_cong [of blk block])
    also have "\<dots> = Some (with_ledger bc bc')"
      unfolding with_ledger_def popTransactions_update using st by simp
    finally show ?thesis unfolding popTransactions_update by (simp add: with_ledger_def o_def)
  qed
  have wf: "ledger_wf bc'"
    using st fin(14) by (metis ledger_wf_def with_ledger_sel(2,3))
  have "refs_ok (tx_at (m_blocks bc @ [block])) bc1"
    using pushed_refs [OF miner loop _ _ ok [folded H_def]] i by (simp add: H_def)
  moreover have "tx_at (m_blocks bc @ [block]) \<subseteq>\<^sub>m tx_at (m_blocks bc')"
    unfolding fin(4) using fin(3) by (intro tx_at_extend [of _ _ "[]"]) simp
  ultimately have "refs_ok (tx_at (m_blocks bc')) bc1" by (rule refs_ok_mono)
  then have refs: "refs_ok (tx_at (m_blocks bc')) bc'"
    using fin(14) by (metis refs_ok_cong with_ledger_sel(2,3))
  have tail: "bh_previousBlockHash b = (if m_blocks bc = [] then 0 else block_id H (last (m_blocks bc)))"
    using head i by (auto simp: Blockchain_getTailId_def BlockIndex_getTailId_def last_map H_def split: if_splits)
  have lnk: "linked H (m_blocks bc')"
    unfolding fin(4) using i tail fin(1,2) block by (intro linked_snoc) (simp_all add: H_def)
  show thesis
    by (rule that [of blk deposit])
      (use fin block pop wf refs lnk new gadd gt_add_remove [OF gt gadd] gt_add_ok(2) [OF gt base gtlen gadd] i bvc' in
        \<open>simp_all add: BlockIndex_push_def detectors_def\<close>)
qed

lemma added_block_inv:
  assumes push: "pushBlock cr F c now b txs h bvc bc = Some (True, bvc', bc')"
    and ok: "block_ok (cn_fast_hash cr) b txs bc" and inv: "chain_inv (cn_fast_hash cr) c bc" and room: "room bc"
    and h: "h = snd (get_block_hash (cn_fast_hash cr) b)"
  shows "chain_inv (cn_fast_hash cr) c bc'"
proof -
  note i = inv [unfolded chain_inv_def]
  show ?thesis
  proof (rule added_block [OF assms])
    fix blk deposit
    assume a: "be_bl blk = b" "ledger_wf bc'" "m_blocks bc' = m_blocks bc @ [blk]" "linked (cn_fast_hash cr) (m_blocks bc')"
      "m_blockIndex bc' = m_blockIndex bc @ [h]" "h \<notin> set (m_blockIndex bc)"
      "m_timestampIndex bc' = TimestampBlocksIndex_add (bh_timestamp b) h (m_timestampIndex bc)"
      "gt_inv (m_generatedTransactionsIndex bc')"
      "length (gt_index (m_generatedTransactionsIndex bc')) = Suc (length (m_blocks bc))"
      "push_pair deposit (m_depositIndex bc) = Some (m_depositIndex bc')"
      "list_all2 (\<lambda>d d'. push_version c (block_version blk) (chain_versions bc, d) = Some (chain_versions bc', d'))
        (detectors bc) (detectors bc')" and refs: "refs_ok (tx_at (m_blocks bc')) bc'"
    obtain bs where bs: "m_depositIndex bc = index_of bs" "length bs = length (m_blocks bc)" using i by blast
    have "m_depositIndex bc' = index_of (bs @ [deposit])" using push_pair_index_of(1) a(10) bs(1) by metis
    then have "\<exists>bs. m_depositIndex bc' = index_of bs \<and> length bs = length (m_blocks bc')"
      using bs(2) a(3) by (intro exI [of _ "bs @ [deposit]"]) simp
    moreover have "list_all (\<lambda>d. ud_inv c 0 (chain_versions bc', d)) (detectors bc')"
      using a(11) room_detectors [OF inv room] unfolding list_all_length list_all2_conv_all_nth by (metis version_undo.push_inv)
    moreover have "snd ` set (m_timestampIndex bc') \<subseteq> set (m_blockIndex bc')"
      using i by (auto simp: a TimestampBlocksIndex_add_def set_mm_emplace)
    moreover have "block_id (cn_fast_hash cr) blk = h" by (simp add: block_id_def a(1) h)
    moreover have "distinct (m_blockIndex bc)" using i by blast
    ultimately show ?thesis using a refs i room unfolding chain_inv_def room_def by simp
  qed
qed

lemma added_block_undo:
  assumes push: "pushBlock cr F c now b txs h bvc bc = Some (True, bvc', bc')"
    and ok: "block_ok (cn_fast_hash cr) b txs bc" and inv: "chain_inv (cn_fast_hash cr) c bc" and room: "room bc"
    and h: "h = snd (get_block_hash (cn_fast_hash cr) b)"
    and pool: "saveTransactions add_tx txs (of_nat (length (m_blocks bc')))
      (bc'\<lparr>m_current_block_cumul_sz_limit := lim\<rparr>) pool = Some pool'"
  shows "popBlock add_tx (cn_fast_hash cr) c h (bc'\<lparr>m_current_block_cumul_sz_limit := lim\<rparr>, pool)
    = Some (bc\<lparr>m_current_block_cumul_sz_limit := lim\<rparr>, pool')"
proof (rule added_block [OF push ok inv room h])
  let ?H = "cn_fast_hash cr"
  define bcx where "bcx = bc'\<lparr>m_current_block_cumul_sz_limit := lim\<rparr>"
  have bcx: "bcx = Ledger.more_update (\<lambda>_. Ledger.more bcx) bc'" by (rule Blockchain.equality) (simp_all add: bcx_def flip: with_ledger_def)
  note i = inv [unfolded chain_inv_def]
  fix blk deposit
  assume blk: "be_bl blk = b" "map te_tx (be_transactions blk) = bl_baseTransaction b # txs"
    and pops: "\<And>f. popTransactions ?H blk (miner_hash ?H b) (Ledger.more_update f bc')
      = Some (with_ledger bc (Ledger.more_update f bc'))"
    and blocks: "m_blocks bc' = m_blocks bc @ [blk]"
    and index: "m_blockIndex bc' = m_blockIndex bc @ [h]" "h \<notin> set (m_blockIndex bc)"
    and times: "m_timestampIndex bc' = TimestampBlocksIndex_add (bh_timestamp b) h (m_timestampIndex bc)"
    and gt: "GeneratedTransactionsIndex_remove b (m_generatedTransactionsIndex bc') = Some (True, m_generatedTransactionsIndex bc)"
    and deposit: "push_pair deposit (m_depositIndex bc) = Some (m_depositIndex bc')"
    and dets: "list_all2 (\<lambda>d d'. push_version c (block_version blk) (chain_versions bc, d) = Some (chain_versions bc', d'))
        (detectors bc) (detectors bc')"
    and points: "m_checkpoints bc' = m_checkpoints bc"
  have pop: "popTransactions ?H blk (miner_hash ?H b) bcx = Some (with_ledger bc bcx)" using pops bcx by metis
  have ne: "be_transactions blk \<noteq> []" and txs: "map te_tx (tl (be_transactions blk)) = txs"
    using blk(2) by (auto simp: map_tl)
  have erase: "TimestampBlocksIndex_remove (bh_timestamp b) h (m_timestampIndex bc') = (True, m_timestampIndex bc)"
    unfolding times TimestampBlocksIndex_add_def TimestampBlocksIndex_remove_def
    using i index(2) by (intro mm_erase_emplace) auto
  define bc2 where "bc2 = (with_ledger bc bcx)\<lparr>m_timestampIndex := m_timestampIndex bc,
    m_generatedTransactionsIndex := m_generatedTransactionsIndex bc\<rparr>"
  have containers: "pop_containers ?H h bcx = Some bc2"
    using pop gt erase by (simp add: pop_containers_def blocks blk(1) bc2_def bcx_def)
  have dinv: "deposit_inv (Suc 0) (m_depositIndex bc)" using i room by (auto simp: deposit_inv_def room_def)
  have dep: "DepositIndex_popBlock (m_depositIndex bc2) = Some (m_depositIndex bc)"
    using deposit_undo.pop_push [OF dinv deposit] by (simp add: bc2_def bcx_def pop_pair_def)
  define bc3 where "bc3 = bc2\<lparr>m_depositIndex := m_depositIndex bc, m_blocks := m_blocks bc, m_blockIndex := m_blockIndex bc\<rparr>"
  have "sizes_agree bc3" using i by (intro sizes_agree_map [where f = "block_id ?H"]) (simp_all add: bc3_def)
  then have popped: "pop_last_block (bc2\<lparr>m_depositIndex := m_depositIndex bc\<rparr>) = Some bc3"
    by (simp add: pop_last_block_def BlockIndex_pop_def bc2_def bc3_def bcx_def blocks index(1) Let_def)
  have vers: "chain_versions bc3 = chain_versions bc" "chain_versions bc' = chain_versions bc @ [block_version blk]"
    by (simp_all add: chain_versions_map bc3_def blocks)
  have restored: "blockPopped c (chain_versions bc) d' = Some d"
    if "ud_inv c (Suc 0) (chain_versions bc, d)"
      and "push_version c (block_version blk) (chain_versions bc, d) = Some (chain_versions bc', d')" for d d'
    using version_undo.pop_push [OF that] by (auto simp: pop_version_def vers)
  have popped_dets: "list_all2 (\<lambda>d d'. blockPopped c (chain_versions bc) d' = Some d) (detectors bc) (detectors bc')"
    using dets room_detectors [OF inv room] restored unfolding list_all2_conv_all_nth list_all_length by blast
  have "update_detectors (blockPopped c (chain_versions bc)) bc3
      = Some (bc\<lparr>m_current_block_cumul_sz_limit := lim\<rparr>)"
  proof -
    have "update_detectors (blockPopped c (chain_versions bc)) bc3 =
        Some (bc3\<lparr>m_upgradeDetectorV2 := m_upgradeDetectorV2 bc, m_upgradeDetectorV3 := m_upgradeDetectorV3 bc,
          m_upgradeDetectorV4 := m_upgradeDetectorV4 bc, m_upgradeDetectorV7 := m_upgradeDetectorV7 bc,
          m_upgradeDetectorV8 := m_upgradeDetectorV8 bc\<rparr>)"
      using popped_dets by (simp add: update_detectors_def detectors_def bc3_def bc2_def bcx_def)
    also have "\<dots> = Some (bc\<lparr>m_current_block_cumul_sz_limit := lim\<rparr>)"
      by (intro arg_cong [where f = Some] Blockchain.equality) (simp_all add: bc3_def bc2_def bcx_def points)
    finally show ?thesis .
  qed
  then show ?thesis
    using pool ne txs containers dep popped unfolding bcx_def [symmetric]
    by (simp add: popBlock_def blocks vers Let_def) (simp add: bcx_def blocks vers)
qed

section \<open>Refused blocks\<close>

definition block_size :: "Block \<Rightarrow> Transaction list \<Rightarrow> u64" where
  "block_size b txs = snd (getObjectBinarySize out_Transaction (bl_baseTransaction b))
    + (\<Sum>tx\<leftarrow>txs. of_nat (length (the (toBinaryArray out_Transaction tx))))"

lemma push_transactions_totals:
  assumes "push_transactions cr F c now mh block pos sums hashes txs bc = Some (Completed block' sums' bc')"
  shows "bt_cumulative_size sums' = bt_cumulative_size sums
      + (\<Sum>tx\<leftarrow>txs. of_nat (length (the (toBinaryArray out_Transaction tx))))
    \<and> dom (m_transactionMap bc) \<subseteq> dom (m_transactionMap bc')"
  using assms
proof (induction txs arbitrary: block pos sums hashes bc)
  case (Cons tx txs)
  then obtain tx_id hashes' where hashes: "hashes = tx_id # hashes'" by (cases hashes) auto
  obtain blob fee inputs_ok p where
      eqs: "toBinaryArray out_Transaction tx = Some blob" "getTransactionFee_or_zero F c tx (be_height block) = Some fee"
        "checkTransactionInputs cr c now tx None bc = Some (inputs_ok, p)"
    using Cons.prems hashes by (auto split: option.splits)
  obtain r block1 bc1 interest where
      push: "pushTransaction (cn_fast_hash cr)
        (block\<lparr>be_transactions := be_transactions block @ [\<lparr>te_tx = tx, te_global_output_indexes = []\<rparr>]\<rparr>)
        tx_id \<lparr>ti_block = be_height block, ti_transaction = pos + 1\<rparr> bc = (Some r, block1, bc1)"
    and rest: "push_transactions cr F c now mh block1 (pos + 1)
          \<lparr>bt_cumulative_size = bt_cumulative_size sums + of_nat (length blob),
           bt_fee_summary = bt_fee_summary sums + fee,
           bt_interestSummary = bt_interestSummary sums + interest\<rparr> hashes' txs bc1 = Some (Completed block' sums' bc')"
    using Cons.prems hashes eqs by (auto simp: Let_def split: option.splits if_splits prod.splits)
  have "dom (m_transactionMap bc) \<subseteq> dom (m_transactionMap bc1)"
    using push pushTransaction_map push_failed_unchanged by (cases r) fastforce+
  with Cons.IH [OF rest] eqs(1) show ?case by (auto simp: algebra_simps)
qed simp

lemma refused_cases:
  assumes push: "pushBlock cr F c now b txs h bvc bc = Some (False, bvc', bc')"
    and ok: "block_ok (cn_fast_hash cr) b txs bc" and wf: "ledger_wf bc"
  shows "bc' = bc \<or>
    checkCumulativeBlockSize c (block_size b txs) (ucast (of_nat (length (m_blocks bc)) :: u32)) = Some False
    \<and> m_transactionMap bc' (miner_hash (cn_fast_hash cr) b) \<noteq> None"
  using push ok wf
proof (cases rule: pushBlock_cases)
  case refused
  then show ?thesis by simp
next
  case (completed d block0 bc0 block sums bc1)
  from completed(8) show ?thesis
  proof (cases rule: complete_block_cases)
    case oversized
    have "bt_cumulative_size sums = block_size b txs" and "dom (m_transactionMap bc0) \<subseteq> dom (m_transactionMap bc1)"
      using push_transactions_totals [OF completed(3)] by (simp_all add: block_size_def initial_totals_def)
    moreover have "m_transactionMap bc0 (miner_hash (cn_fast_hash cr) b) \<noteq> None"
      using pushTransaction_map [OF completed(2)] by simp
    ultimately show ?thesis using oversized completed(6) by auto
  next
    case refused
    then show ?thesis using completed(4) by (simp add: loop_state_def)
  qed simp
qed

section \<open>Reachable chains\<close>

text \<open>The empty storage, as the constructor of \<open>Blockchain\<close> leaves it.\<close>

definition Blockchain_create :: "Checkpoints \<Rightarrow> Blockchain" where
  "Blockchain_create checkpoints =
    \<lparr>m_spent_keys = Map.empty, m_outputs = Map.empty, m_multisignatureOutputs = Map.empty,
     m_transactionMap = Map.empty, m_paymentIdIndex = {#}, m_blocks = [], m_blockIndex = [],
     m_depositIndex = DepositIndex_empty, m_timestampIndex = [],
     m_generatedTransactionsIndex = GeneratedTransactionsIndex_empty,
     m_upgradeDetectorV2 = UpgradeDetector_create 2, m_upgradeDetectorV3 = UpgradeDetector_create 3,
     m_upgradeDetectorV4 = UpgradeDetector_create 4, m_upgradeDetectorV7 = UpgradeDetector_create 7,
     m_upgradeDetectorV8 = UpgradeDetector_create 8,
     m_current_block_cumul_sz_limit = 0, m_checkpoints = checkpoints\<rparr>"

lemma create_inv: "chain_inv H c (Blockchain_create cp)"
  by (auto simp: chain_inv_def Blockchain_create_def ledger_wf_def refs_ok_def linked_def gt_inv_def
      GeneratedTransactionsIndex_empty_def detectors_def ud_inv_def UpgradeDetector_create_def chain_versions_def
      intro: exI [of _ "[]"] index_of_Nil [symmetric])

text \<open>Chains that grew block by block; the size limit, which no container depends on, is arbitrary.\<close>

inductive grown :: "crypto_ops \<Rightarrow> 'f float_ops \<Rightarrow> Currency \<Rightarrow> Blockchain \<Rightarrow> bool" for cr F c where
  grown_start: "grown cr F c ((Blockchain_create cp)\<lparr>m_current_block_cumul_sz_limit := lim\<rparr>)"
| grown_push: "grown cr F c bc \<Longrightarrow> room bc \<Longrightarrow> block_ok (cn_fast_hash cr) b txs bc \<Longrightarrow>
    pushBlock cr F c now b txs (snd (get_block_hash (cn_fast_hash cr) b)) bvc bc = Some (True, bvc', bc') \<Longrightarrow>
    grown cr F c (bc'\<lparr>m_current_block_cumul_sz_limit := lim\<rparr>)"

lemma chain_inv_limit [simp]: "chain_inv H c (bc\<lparr>m_current_block_cumul_sz_limit := lim\<rparr>) = chain_inv H c bc"
  by (simp add: chain_inv_def ledger_wf_def refs_ok_def detectors_def chain_versions_map)

lemma grown_inv: "grown cr F c bc \<Longrightarrow> chain_inv (cn_fast_hash cr) c bc"
  by (induction rule: grown.induct) (auto intro: create_inv added_block_inv)

lemma grown_limit: "grown cr F c bc \<Longrightarrow> grown cr F c (bc\<lparr>m_current_block_cumul_sz_limit := lim\<rparr>)"
  by (erule grown.cases) (auto intro: grown.intros)

lemma grown_pop:
  assumes "grown cr F c bc" and pop: "popBlock add_tx (cn_fast_hash cr) c (block_id (cn_fast_hash cr) (last (m_blocks bc))) (bc, pool)
      = Some (bc', pool')"
  shows "grown cr F c bc'"
  using assms(1)
proof (cases rule: grown.cases)
  case (grown_start cp lim)
  then have "bc' = bc" using pop by (simp add: popBlock_def Blockchain_create_def)
  then show ?thesis using assms(1) by simp
next
  case (grown_push bc0 b txs now bvc bvc' bc1 lim)
  note inv = grown_inv [OF grown_push(2)]
  show ?thesis
  proof (rule added_block [OF grown_push(5,4) inv grown_push(3) refl])
    fix blk deposit
    assume blk: "be_bl blk = b" "map te_tx (be_transactions blk) = bl_baseTransaction b # txs"
      and blocks: "m_blocks bc1 = m_blocks bc0 @ [blk]"
    have id: "block_id (cn_fast_hash cr) (last (m_blocks bc)) = snd (get_block_hash (cn_fast_hash cr) b)"
      by (simp add: grown_push(1) blocks block_id_def blk)
    have "map te_tx (tl (be_transactions blk)) = txs" using blk(2) by (simp add: map_tl)
    then obtain pool1 where "saveTransactions add_tx txs (of_nat (length (m_blocks bc1))) bc pool = Some pool1"
      using pop by (auto simp: popBlock_def grown_push(1) blocks split: if_splits option.splits)
    from added_block_undo [OF grown_push(5,4) inv grown_push(3) refl this [unfolded grown_push(1)]]
    have "bc' = bc0\<lparr>m_current_block_cumul_sz_limit := lim\<rparr>"
      using pop unfolding id by (simp add: grown_push(1))
    then show ?thesis using grown_limit [OF grown_push(2)] by simp
  qed
qed

text \<open>
  The steps of the storage: a call of \<open>pushBlock\<close> on a block the pool has checked that is not over the size limit,
  and a call of \<open>popBlock\<close> on the last block.
\<close>

inductive chain_step ::
    "crypto_ops \<Rightarrow> 'f float_ops \<Rightarrow> Currency \<Rightarrow> (Transaction \<Rightarrow> u32 \<Rightarrow> Blockchain \<Rightarrow> 'pool \<Rightarrow> bool \<times> 'pool) \<Rightarrow>
      Blockchain \<Rightarrow> Blockchain \<Rightarrow> bool" for cr F c add_tx where
  step_push: "room bc \<Longrightarrow> block_ok (cn_fast_hash cr) b txs bc \<Longrightarrow>
    checkCumulativeBlockSize c (block_size b txs) (ucast (of_nat (length (m_blocks bc)) :: u32)) = Some True \<Longrightarrow>
    pushBlock cr F c now b txs (snd (get_block_hash (cn_fast_hash cr) b)) bvc bc = Some (r, bvc', bc') \<Longrightarrow>
    chain_step cr F c add_tx bc bc'"
| step_pop: "popBlock add_tx (cn_fast_hash cr) c (block_id (cn_fast_hash cr) (last (m_blocks bc))) (bc, pool)
      = Some (bc', pool') \<Longrightarrow> chain_step cr F c add_tx bc bc'"

lemma grown_step:
  assumes "chain_step cr F c add_tx bc bc'" and grown: "grown cr F c bc"
  shows "grown cr F c bc'"
  using assms(1)
proof (cases rule: chain_step.cases)
  case (step_push b txs now bvc r bvc')
  note inv = grown_inv [OF grown]
  show ?thesis
  proof (cases r)
    case True
    then have "grown cr F c (bc'\<lparr>m_current_block_cumul_sz_limit := m_current_block_cumul_sz_limit bc'\<rparr>)"
      using step_push by (intro grown_push [OF grown]) simp_all
    then show ?thesis by simp
  next
    case False
    have "bc' = bc"
      using refused_cases [of cr F c now b txs _ bvc bc bvc' bc'] step_push False inv by (auto simp: chain_inv_def)
    then show ?thesis using grown by simp
  qed
next
  case (step_pop pool pool')
  then show ?thesis by (rule grown_pop [OF grown])
qed

lemma grown_steps: "(chain_step cr F c add_tx)\<^sup>*\<^sup>* bc bc' \<Longrightarrow> grown cr F c bc \<Longrightarrow> grown cr F c bc'"
  by (induction rule: rtranclp_induct) (auto intro: grown_step)

section \<open>Rolling back to a height\<close>

text \<open>
  \<open>removeLastBlock\<close> keeps the ledger, the blocks and the indices by block in step, and leaves the deposit index and
  the upgrade detectors.
\<close>

definition same_main :: "Blockchain \<Rightarrow> Blockchain \<Rightarrow> bool" where
  "same_main x bc \<longleftrightarrow> Ledger.truncate x = Ledger.truncate bc \<and> m_blocks x = m_blocks bc \<and> m_blockIndex x = m_blockIndex bc
    \<and> m_timestampIndex x = m_timestampIndex bc \<and> m_generatedTransactionsIndex x = m_generatedTransactionsIndex bc"

lemma truncate_eq_iff:
  fixes x bc :: Blockchain
  shows "Ledger.truncate x = Ledger.truncate bc \<longleftrightarrow> m_spent_keys x = m_spent_keys bc \<and> m_outputs x = m_outputs bc
    \<and> m_multisignatureOutputs x = m_multisignatureOutputs bc \<and> m_transactionMap x = m_transactionMap bc
    \<and> m_paymentIdIndex x = m_paymentIdIndex bc"
  by (simp add: Ledger.truncate_def)

lemma same_ledger_update:
  assumes "Ledger.truncate x = Ledger.truncate (bc :: Blockchain)"
  shows "x = Ledger.more_update (\<lambda>_. Ledger.more x) bc"
  unfolding with_ledger_def [symmetric] using assms
  by (intro Blockchain.equality) (simp_all add: truncate_eq_iff)

lemma grown_remove:
  assumes "grown cr F c bc" and "m_blocks bc \<noteq> []" and same: "same_main x bc"
  obtains x' bc' where "removeLastBlock (cn_fast_hash cr) x = Some (True, x')" and "same_main x' bc'"
    and "grown cr F c bc'" and "m_blocks bc' = butlast (m_blocks bc)"
    and "m_depositIndex x' = m_depositIndex x" and "detectors x' = detectors x"
  using assms(1)
proof (cases rule: grown.cases)
  case (grown_start cp lim)
  then show ?thesis using assms(2) by (simp add: Blockchain_create_def)
next
  case (grown_push bc0 b txs now bvc bvc' bc1 lim)
  note inv = grown_inv [OF grown_push(2)]
  note i = inv [unfolded chain_inv_def]
  let ?H = "cn_fast_hash cr" and ?h = "snd (get_block_hash (cn_fast_hash cr) b)"
  show ?thesis
  proof (rule added_block [OF grown_push(5,4) inv grown_push(3) refl])
    fix blk deposit
    assume blk: "be_bl blk = b" "map te_tx (be_transactions blk) = bl_baseTransaction b # txs"
      and pops: "\<And>f. popTransactions ?H blk (miner_hash ?H b) (Ledger.more_update f bc1)
        = Some (with_ledger bc0 (Ledger.more_update f bc1))"
      and blocks: "m_blocks bc1 = m_blocks bc0 @ [blk]" and linked: "linked ?H (m_blocks bc1)"
      and index: "m_blockIndex bc1 = m_blockIndex bc0 @ [?h]" "?h \<notin> set (m_blockIndex bc0)"
      and times: "m_timestampIndex bc1 = TimestampBlocksIndex_add (bh_timestamp b) ?h (m_timestampIndex bc0)"
      and gt: "GeneratedTransactionsIndex_remove b (m_generatedTransactionsIndex bc1) = Some (True, m_generatedTransactionsIndex bc0)"
    note same = same [unfolded same_main_def grown_push(1), simplified]
    have "Ledger.truncate x = Ledger.truncate bc1" using same by (simp add: truncate_eq_iff)
    note x = same_ledger_update [OF this]
    have pop: "popTransactions ?H blk (miner_hash ?H b) x = Some (with_ledger bc0 x)" using pops x by metis
    have n: "length (m_blockIndex bc0) = length (m_blocks bc0)" "length (m_blocks bc0) < 2 ^ 32" using i by auto
    have "be_height blk = of_nat (length (m_blocks bc0))"
      using linked unfolding linked_def blocks by (metis length_append_singleton lessI nth_append_length)
    then have "be_height (last (m_blocks x)) = of_nat (length (m_blocks bc0))" using same blocks by simp
    moreover have "m_blockIndex x = m_blockIndex bc0 @ [?h]" using same index(1) by simp
    moreover have "unat (of_nat (length (m_blocks bc0)) :: u32) = length (m_blocks bc0)"
      using n(2) by (intro unat_of_nat_less) simp
    moreover have "unat (of_nat (Suc (length (m_blocks bc0))) :: u32) = Suc (length (m_blocks bc0))"
      using grown_push(3) unfolding room_def by (intro unat_of_nat_less) simp
    ultimately have id: "getBlockIdByHeight (be_height (last (m_blocks x))) x = Some ?h"
      using n(1) unfolding getBlockIdByHeight_def BlockIndex_getBlockId_def BlockIndex_size_def word_less_nat_alt
      by (simp add: nth_append del: of_nat_Suc)
    have "m_timestampIndex x = mm_emplace (bh_timestamp b) ?h (m_timestampIndex bc0)"
      using same times unfolding TimestampBlocksIndex_add_def by metis
    moreover have "snd ` set (m_timestampIndex bc0) \<subseteq> set (m_blockIndex bc0)" using i by blast
    then have "(bh_timestamp b, ?h) \<notin> set (m_timestampIndex bc0)" using index(2) by force
    ultimately have erase: "TimestampBlocksIndex_remove (bh_timestamp b) ?h (m_timestampIndex x) = (True, m_timestampIndex bc0)"
      unfolding TimestampBlocksIndex_remove_def by (metis mm_erase_emplace)
    define x1 where "x1 = (with_ledger bc0 x)\<lparr>m_timestampIndex := m_timestampIndex bc0,
      m_generatedTransactionsIndex := m_generatedTransactionsIndex bc0\<rparr>"
    have last: "last (m_blocks x) = blk" "m_blocks x \<noteq> []" using same blocks by simp_all
    have "m_generatedTransactionsIndex x = m_generatedTransactionsIndex bc1" using same by simp
    then have containers: "pop_containers ?H ?h x = Some x1"
      using pop gt erase by (simp add: pop_containers_def last(1) blk(1) x1_def)
    define x2 where "x2 = x1\<lparr>m_blocks := m_blocks bc0, m_blockIndex := m_blockIndex bc0\<rparr>"
    have "sizes_agree x2" using i by (intro sizes_agree_map [where f = "block_id ?H"]) (simp_all add: x2_def)
    moreover have xi: "m_blockIndex x = m_blockIndex bc0 @ [?h]" and xb: "m_blocks x = m_blocks bc0 @ [blk]"
      using same index(1) blocks by simp_all
    ultimately have "pop_last_block x1 = Some x2"
      using xi xb by (simp add: pop_last_block_def BlockIndex_pop_def x1_def x2_def Let_def)
    then have "removeLastBlock ?H x = Some (True, x2)"
      using last(2) containers id by (simp add: removeLastBlock_def)
    moreover have "same_main x2 bc0" by (simp add: same_main_def truncate_eq_iff x2_def x1_def)
    moreover have "m_blocks bc0 = butlast (m_blocks bc)" by (simp add: grown_push(1) blocks)
    moreover have "m_depositIndex x2 = m_depositIndex x" "detectors x2 = detectors x"
      by (simp_all add: x2_def x1_def detectors_def)
    ultimately show ?thesis using grown_push(2) by (intro that [of x2 bc0])
  qed
qed

lemma rollback_loop_grown:
  assumes "grown cr F c bc" and "same_main x bc" and "0 < n"
  shows "\<exists>x' bc'. rollback_loop (cn_fast_hash cr) n x = Some (True, x') \<and> same_main x' bc' \<and> grown cr F c bc'
    \<and> m_blocks bc' = take n (m_blocks bc) \<and> m_depositIndex x' = m_depositIndex x \<and> detectors x' = detectors x"
  using assms
proof (induction "length (m_blocks bc)" arbitrary: bc x rule: less_induct)
  case less
  have eq: "m_blocks x = m_blocks bc" using less.prems(2) by (simp add: same_main_def)
  show ?case
  proof (cases "n < length (m_blocks bc)")
    case False
    then show ?thesis using less.prems eq by (intro exI [of _ x] exI [of _ bc]) (simp add: rollback_loop.simps)
  next
    case True
    then have "m_blocks bc \<noteq> []" by auto
    from grown_remove [OF less.prems(1) this less.prems(2)] obtain x1 bc1 where
        step: "removeLastBlock (cn_fast_hash cr) x = Some (True, x1)" "same_main x1 bc1" "grown cr F c bc1"
          "m_blocks bc1 = butlast (m_blocks bc)" "m_depositIndex x1 = m_depositIndex x" "detectors x1 = detectors x" .
    have "length (m_blocks bc1) < length (m_blocks bc)" using step(4) True by simp
    from less.hyps [OF this step(3,2) less.prems(3)] obtain x' bc' where
        "rollback_loop (cn_fast_hash cr) n x1 = Some (True, x')" "same_main x' bc'" "grown cr F c bc'"
        "m_blocks bc' = take n (m_blocks bc1)" "m_depositIndex x' = m_depositIndex x1" "detectors x' = detectors x1"
      by blast
    moreover have "take n (butlast (m_blocks bc)) = take n (m_blocks bc)"
      using True by (rule take_butlast)
    ultimately show ?thesis
      using step True eq by (intro exI [of _ x'] exI [of _ bc']) (simp add: rollback_loop.simps)
  qed
qed

section \<open>Reachable states\<close>

lemma reachable_grown:
  assumes "(chain_step cr F c add_tx)\<^sup>*\<^sup>* (Blockchain_create cp) bc"
  shows "grown cr F c bc"
proof -
  have "grown cr F c (Blockchain_create cp)"
    using grown_start [where cp = cp and lim = "m_current_block_cumul_sz_limit (Blockchain_create cp)"] by simp
  then show ?thesis using assms grown_steps by blast
qed

lemmas reachable_inv = grown_inv [OF reachable_grown]

section \<open>The states in which inputs are checked\<close>

text \<open>
  The inputs of a transaction are checked on a chain that whole blocks were added to and removed
  from, and by \<open>pushBlock\<close> after the miner transaction and the transactions \<open>txs\<close> of a block have been
  added; the block under construction is then the last argument but one.
\<close>

inductive checking_state ::
    "crypto_ops \<Rightarrow> 'f float_ops \<Rightarrow> Currency \<Rightarrow> (Transaction \<Rightarrow> u32 \<Rightarrow> Blockchain \<Rightarrow> 'pool \<Rightarrow> bool \<times> 'pool) \<Rightarrow>
      Checkpoints \<Rightarrow> BlockEntry list \<Rightarrow> Blockchain \<Rightarrow> bool" for cr F c add_tx cp where
  between_blocks: "(chain_step cr F c add_tx)\<^sup>*\<^sup>* (Blockchain_create cp) bc \<Longrightarrow> checking_state cr F c add_tx cp [] bc"
| within_block: "(chain_step cr F c add_tx)\<^sup>*\<^sup>* (Blockchain_create cp) bc0 \<Longrightarrow>
    block_ok (cn_fast_hash cr) b txs bc0 \<Longrightarrow>
    check_block_header cr c now b (snd (get_block_hash (cn_fast_hash cr) b)) bvc bc0 = Some (Some d, bvc') \<Longrightarrow>
    pushTransaction (cn_fast_hash cr) (initial_entry b bc0) (miner_hash (cn_fast_hash cr) b)
      \<lparr>ti_block = be_height (initial_entry b bc0), ti_transaction = 0\<rparr> bc0 = (Some r, block1, bc1) \<Longrightarrow>
    push_transactions cr F c now (miner_hash (cn_fast_hash cr) b) block1 0 (initial_totals b) (bl_transactionHashes b) txs bc1
      = Some (Completed block sums bc) \<Longrightarrow>
    checking_state cr F c add_tx cp [block] bc"

lemma checking_refs:
  assumes "checking_state cr F c add_tx cp bs bc"
  shows "refs_ok (tx_at (m_blocks bc @ bs)) bc"
  using assms
proof cases
  case between_blocks
  then show ?thesis using reachable_inv [of cr F c add_tx cp bc] by (simp add: chain_inv_def)
next
  case (within_block bc0 b txs now bvc d bvc' r block1 bc1 block sums)
  let ?H = "cn_fast_hash cr"
  have inv: "chain_inv ?H c bc0" by (rule reachable_inv [OF within_block(2)])
  then have wf: "ledger_wf bc0" and refs: "refs_ok (tx_at (m_blocks bc0)) bc0" and len: "length (m_blocks bc0) < 2 ^ 32"
    by (simp_all add: chain_inv_def)
  obtain i where "tp_inputs (bl_baseTransaction b) = [InBase i]"
    using prevalidated_inputs header_prevalidated [OF within_block(4)] by blast
  note miner = push_miner [OF within_block(3) wf this within_block(5)]
  then have r: "r = True" and state: "loop_state ?H (miner_hash ?H b) bc0 block1 0 (bl_transactionHashes b) bc1" by auto
  have "Ledger.more bc = Ledger.more bc0"
    using push_transactions_state [OF within_block(6) state] within_block(3) by (simp add: block_ok_def loop_state_def)
  then have "m_blocks bc = m_blocks bc0" by (rule chain_frame(1))
  with pushed_refs [OF within_block(5) [unfolded r] within_block(6) refs len within_block(3)] within_block(1)
  show ?thesis by simp
qed

end
