(* ===== verification/Chain_Properties.thy ===== *)
theory Chain_Properties
  imports Chain_Undo
begin

text \<open>
  The properties of the main chain as a whole, with the first block on an empty chain as the
  concrete input at which they hold. The parameters are those of the main network, except that an
  output may be spent up to 20 blocks before it is unlocked.
\<close>

definition example_currency :: Currency where
  "example_currency = mainnet\<lparr>m_lockedTxAllowedDeltaBlocks := 20\<rparr>"

definition example_crypto :: crypto_ops where
  "example_crypto = \<lparr>cn_fast_hash = (\<lambda>bs. of_nat (length bs)), cn_slow_hash = (\<lambda>_ _. 0), check_key = (\<lambda>_. True),
    check_signature = (\<lambda>_ _ _. True), scalarmultKey = (\<lambda>_ _. 1), check_ring_signature = (\<lambda>_ _ _ _. True)\<rparr>"

definition example_miner :: Transaction where
  "example_miner = \<lparr>tp_version = 1, tp_unlockTime = 10, tp_inputs = [InBase \<lparr>bi_blockIndex = 0\<rparr>],
    tp_outputs = [\<lparr>to_amount = 5000000, to_target = OutKey \<lparr>ko_key = 7\<rparr>\<rparr>], tp_extra = [], tx_signatures = []\<rparr>"

definition example_block :: Block where
  "example_block = \<lparr>bh_majorVersion = 1, bh_minorVersion = 0, bh_nonce = 70, bh_timestamp = 1527078920,
    bh_previousBlockHash = 0, bl_baseTransaction = example_miner, bl_transactionHashes = []\<rparr>"

definition example_chain :: Blockchain where
  "example_chain = Blockchain_create \<lparr>cp_testnet = False, cp_points = []\<rparr>"

lemma example_hashes:
  "snd (get_block_hash (cn_fast_hash example_crypto) example_block) = 77"
  "miner_hash (cn_fast_hash example_crypto) example_block = 44"
  by code_simp+

lemma example_header:
  "check_block_header example_crypto example_currency 2000000000 example_block 77 bvc_initial example_chain
    = Some (Some 1, bvc_initial)"
  by code_simp

lemma example_size: "bt_cumulative_size (initial_totals example_block) = 44"
  "checkCumulativeBlockSize example_currency 44 0 = Some True" "block_size example_block [] = 44"
  by code_simp+

lemma example_reward: "validate_miner_transaction example_currency example_block 0 44 0 0 example_chain = Some (True, 5000000, 5000000)"
  by code_simp

lemma example_detectors:
  "v \<in> {2, 3, 4, 7, 8} \<Longrightarrow> blockPushed example_currency [(1, 0)] (UpgradeDetector_create v) = Some (UpgradeDetector_create v)"
  by (auto simp: blockPushed_def currency_undefined_def upgradeHeight_def UpgradeDetector_create_def UNDEF_HEIGHT_def
      previous_version_def example_currency_def)

lemma example_fields:
  "m_blocks example_chain = []" "m_blockIndex example_chain = []" "m_depositIndex example_chain = DepositIndex_empty"
  "m_timestampIndex example_chain = []" "m_generatedTransactionsIndex example_chain = GeneratedTransactionsIndex_empty"
  "m_upgradeDetectorV2 example_chain = UpgradeDetector_create 2" "m_upgradeDetectorV3 example_chain = UpgradeDetector_create 3"
  "m_upgradeDetectorV4 example_chain = UpgradeDetector_create 4" "m_upgradeDetectorV7 example_chain = UpgradeDetector_create 7"
  "m_upgradeDetectorV8 example_chain = UpgradeDetector_create 8" "m_transactionMap example_chain = Map.empty"
  by (simp_all add: example_chain_def Blockchain_create_def)

lemma example_ok: "block_ok (cn_fast_hash example_crypto) example_block [] example_chain" "room example_chain"
  "chain_inv (cn_fast_hash example_crypto) example_currency example_chain" "ledger_wf example_chain"
proof -
  show "block_ok (cn_fast_hash example_crypto) example_block [] example_chain"
    by (simp add: block_ok_def example_block_def example_miner_def example_fields)
  show "room example_chain" by (simp add: room_def example_fields)
  show "chain_inv (cn_fast_hash example_crypto) example_currency example_chain" by (simp add: example_chain_def create_inv)
  then show "ledger_wf example_chain" by (simp add: chain_inv_def)
qed

lemma example_deposit:
  "be_transactions block = [e] \<Longrightarrow> te_tx e = example_miner \<Longrightarrow>
    pushToDepositIndex block 0 bc = map_option (\<lambda>d. bc\<lparr>m_depositIndex := d\<rparr>) (DepositIndex_pushBlock 0 0 (m_depositIndex bc))"
  by (simp add: pushToDepositIndex_def deposit_of_inputs_def deposit_of_outputs_def example_miner_def)

lemma example_finish:
  assumes "Ledger.more bc = Ledger.more example_chain" and "be_bl block = example_block" and "be_transactions block = [e]"
    and "te_tx e = example_miner"
  shows "\<exists>bc'. finish_block example_crypto example_currency 1 block (initial_totals example_block) 0 5000000 bc = Some bc'"
proof -
  note same = chain_frame [OF assms(1), unfolded example_fields]
  have "GeneratedTransactionsIndex_add example_block GeneratedTransactionsIndex_empty
      = Some (True, \<lparr>gt_index = [(0, 1)], gt_lastGeneratedTxNumber = 1\<rparr>)" by code_simp
  moreover have "DepositIndex_pushBlock 0 0 DepositIndex_empty = Some \<lparr>di_index = [], di_blockCount = 1\<rparr>" by code_simp
  moreover have "block_version (block\<lparr>be_block_cumulative_size := x, be_cumulative_difficulty := y, be_already_generated_coins := z\<rparr>) = (1, 0)"
    for x y z by (simp add: block_version_def assms(2) example_block_def)
  moreover have "bt_interestSummary (initial_totals example_block) = 0" by (simp add: initial_totals_def)
  ultimately show ?thesis
    using example_detectors
    by (simp add: finish_block_def pushBlock_entry_def example_deposit [OF _ assms(4)] assms(2,3) same Let_def sizes_agree_def
        BlockIndex_push_def BlockIndex_size_def update_detectors_def chain_versions_map)
qed

lemma example_miner_pushed:
  obtains block bc e where
      "pushTransaction (cn_fast_hash example_crypto) (initial_entry example_block example_chain)
        (miner_hash (cn_fast_hash example_crypto) example_block)
        \<lparr>ti_block = be_height (initial_entry example_block example_chain), ti_transaction = 0\<rparr> example_chain = (Some True, block, bc)"
    and "be_bl block = example_block" and "be_height block = 0" and "be_transactions block = [e]"
    and "te_tx e = example_miner" and "Ledger.more bc = Ledger.more example_chain"
    and "m_outputs bc = [5000000 \<mapsto> [(\<lparr>ti_block = 0, ti_transaction = 0\<rparr>, 0)]]" and "m_spent_keys bc = Map.empty"
proof -
  let ?H = "cn_fast_hash example_crypto"
  let ?ti = "\<lparr>ti_block = be_height (initial_entry example_block example_chain), ti_transaction = 0\<rparr> :: TransactionIndex"
  obtain r block bc where push: "pushTransaction ?H (initial_entry example_block example_chain) (miner_hash ?H example_block) ?ti example_chain
      = (r, block, bc)" by (cases "pushTransaction ?H (initial_entry example_block example_chain) (miner_hash ?H example_block) ?ti example_chain")
  have "tp_inputs (bl_baseTransaction example_block) = [InBase \<lparr>bi_blockIndex = 0\<rparr>]"
    by (simp add: example_block_def example_miner_def)
  from push_miner [OF example_ok(1,4) this push] have m: "r = Some True" "be_bl block = example_block" "be_height block = 0"
      "map te_tx (be_transactions block) = [bl_baseTransaction example_block]" "Ledger.more bc = Ledger.more example_chain"
    by (simp_all add: loop_state_def example_fields)
  obtain e where "be_transactions block = [e]" "te_tx e = example_miner"
    using m(4) by (auto simp: example_block_def map_eq_Cons_conv)
  moreover have "m_outputs bc = [5000000 \<mapsto> [(\<lparr>ti_block = 0, ti_transaction = 0\<rparr>, 0)]]" "m_spent_keys bc = Map.empty"
    unfolding pushTransaction_ok(6) [OF push [unfolded m(1)]]
    by (simp_all add: initial_entry_def example_block_def example_miner_def example_fields push_output_def at_or_new_def
        Let_def example_chain_def Blockchain_create_def)
  ultimately show thesis using that push m by simp
qed

lemma example_push:
  "\<exists>bc'. pushBlock example_crypto integer_floats example_currency 2000000000 example_block [] 77 bvc_initial example_chain
      = Some (True, bvc_initial\<lparr>bv_added_to_main_chain := True\<rparr>, bc')
    \<and> (\<exists>blk e. m_blocks bc' = [blk] \<and> be_transactions blk = [e] \<and> te_tx e = example_miner)
    \<and> m_outputs bc' = [5000000 \<mapsto> [(\<lparr>ti_block = 0, ti_transaction = 0\<rparr>, 0)]] \<and> m_spent_keys bc' = Map.empty"
proof (rule example_miner_pushed)
  let ?H = "cn_fast_hash example_crypto"
  fix block bc e
  assume push: "pushTransaction ?H (initial_entry example_block example_chain) (miner_hash ?H example_block)
        \<lparr>ti_block = be_height (initial_entry example_block example_chain), ti_transaction = 0\<rparr> example_chain = (Some True, block, bc)"
    and m: "be_bl block = example_block" "be_height block = 0" "be_transactions block = [e]"
      "te_tx e = example_miner" "Ledger.more bc = Ledger.more example_chain"
    and ledger: "m_outputs bc = [5000000 \<mapsto> [(\<lparr>ti_block = 0, ti_transaction = 0\<rparr>, 0)]]" "m_spent_keys bc = Map.empty"
  obtain bc' where fin: "finish_block example_crypto example_currency 1 block (initial_totals example_block) 0 5000000 bc = Some bc'"
    using example_finish [OF m(5,1,3,4)] by blast
  have blocks: "m_blocks bc = []" using chain_frame(1) [OF m(5)] by (simp add: example_fields)
  obtain blk where "be_transactions blk = [e]" "m_blocks bc' = [blk]" "bc' = with_ledger bc bc'"
    by (rule finish_block_ok [OF fin]) (use m(3) blocks in simp)
  then have state: "\<exists>blk e. m_blocks bc' = [blk] \<and> be_transactions blk = [e] \<and> te_tx e = example_miner"
      "m_outputs bc' = [5000000 \<mapsto> [(\<lparr>ti_block = 0, ti_transaction = 0\<rparr>, 0)]]" "m_spent_keys bc' = Map.empty"
    using m(4) ledger with_ledger_sel(1,2) [of bc bc'] by auto
  have "validate_miner_transaction example_currency example_block 0 44 0 0 bc = Some (True, 5000000, 5000000)"
    using example_reward by (simp add: validate_miner_transaction_def get_last_n_blocks_sizes_def blocks example_fields)
  moreover have "bt_fee_summary (initial_totals example_block) = 0" by (simp add: initial_totals_def)
  ultimately have "complete_block example_crypto example_currency example_block 1 (miner_hash ?H example_block) bvc_initial block
      (initial_totals example_block) bc = Some (True, bvc_initial\<lparr>bv_added_to_main_chain := True\<rparr>, bc')"
    using fin example_size by (simp add: complete_block_def getCoinsInCirculation_def blocks m(2))
  then have "pushBlock example_crypto integer_floats example_currency 2000000000 example_block [] 77 bvc_initial example_chain
      = Some (True, bvc_initial\<lparr>bv_added_to_main_chain := True\<rparr>, bc')"
    using push by (simp add: pushBlock_def example_header Let_def)
  with state show ?thesis by blast
qed

text \<open>The same block where it is over the limit.\<close>

definition small_blocks :: Currency where "small_blocks = example_currency\<lparr>m_maxBlockSizeInitial := 10\<rparr>"

lemma small_blocks_header:
  "check_block_header example_crypto small_blocks 2000000000 example_block 77 bvc_initial example_chain
    = Some (Some 1, bvc_initial)" "checkCumulativeBlockSize small_blocks 44 0 = Some False"
  by code_simp+

lemma example_oversized:
  "\<exists>bc'. pushBlock example_crypto integer_floats small_blocks 2000000000 example_block [] 77 bvc_initial example_chain
    = Some (False, bvc_initial\<lparr>bv_verification_failed := True\<rparr>, bc') \<and> bc' \<noteq> example_chain"
proof (rule example_miner_pushed)
  let ?H = "cn_fast_hash example_crypto"
  fix block bc e
  assume push: "pushTransaction ?H (initial_entry example_block example_chain) (miner_hash ?H example_block)
        \<lparr>ti_block = be_height (initial_entry example_block example_chain), ti_transaction = 0\<rparr> example_chain = (Some True, block, bc)"
    and m: "be_height block = 0"
  have "complete_block example_crypto small_blocks example_block 1 (miner_hash ?H example_block) bvc_initial block
      (initial_totals example_block) bc = Some (False, bvc_initial\<lparr>bv_verification_failed := True\<rparr>, bc)"
    using small_blocks_header example_size by (simp add: complete_block_def m)
  moreover have "m_transactionMap bc (miner_hash ?H example_block) \<noteq> m_transactionMap example_chain (miner_hash ?H example_block)"
    using pushTransaction_map [OF push] by (simp add: example_fields)
  then have "bc \<noteq> example_chain" by auto
  ultimately show ?thesis
    using push by (simp add: pushBlock_def small_blocks_header Let_def)
qed

lemma example_step:
  "\<exists>bc blk e. chain_step example_crypto integer_floats example_currency (\<lambda>tx h bc pool. (True, tx # pool)) example_chain bc
    \<and> m_blocks bc = [blk] \<and> be_transactions blk = [e] \<and> te_tx e = example_miner
    \<and> m_outputs bc = [5000000 \<mapsto> [(\<lparr>ti_block = 0, ti_transaction = 0\<rparr>, 0)]] \<and> m_spent_keys bc = Map.empty"
proof -
  obtain bc' blk e where push: "pushBlock example_crypto integer_floats example_currency 2000000000 example_block [] 77 bvc_initial example_chain
      = Some (True, bvc_initial\<lparr>bv_added_to_main_chain := True\<rparr>, bc')"
    and "m_blocks bc' = [blk]" "be_transactions blk = [e]" "te_tx e = example_miner"
      "m_outputs bc' = [5000000 \<mapsto> [(\<lparr>ti_block = 0, ti_transaction = 0\<rparr>, 0)]]" "m_spent_keys bc' = Map.empty"
    using example_push by blast
  moreover have "chain_step example_crypto integer_floats example_currency (\<lambda>tx h bc pool. (True, tx # pool)) example_chain bc'"
    using push [folded example_hashes(1)] example_ok(1,2)
    by (intro step_push [where b = example_block and txs = "[]"]) (simp_all add: example_size example_fields)
  ultimately show ?thesis by blast
qed

section \<open>Properties\<close>

text \<open>
  C4. A block that \<open>pushBlock\<close> adds to a consistent chain is removed by \<open>popBlock\<close>, which restores every
  container of the storage except the limit on the size of the next block, and hands the transactions to the pool.
\<close>

theorem block_push_pop:
  assumes "pushBlock cr F c now b txs (snd (get_block_hash (cn_fast_hash cr) b)) bvc bc = Some (True, bvc', bc')"
    and "block_ok (cn_fast_hash cr) b txs bc" and "chain_inv (cn_fast_hash cr) c bc" and "room bc"
    and "saveTransactions add_tx txs (of_nat (length (m_blocks bc'))) bc' pool = Some pool'"
  shows "chain_inv (cn_fast_hash cr) c bc' \<and> length (m_blocks bc') = Suc (length (m_blocks bc))
    \<and> popBlock add_tx (cn_fast_hash cr) c (snd (get_block_hash (cn_fast_hash cr) b)) (bc', pool)
      = Some (bc\<lparr>m_current_block_cumul_sz_limit := m_current_block_cumul_sz_limit bc'\<rparr>, pool')"
  using added_block_inv [OF assms(1-4) refl]
    added_block_undo [OF assms(1-4) refl, of add_tx "m_current_block_cumul_sz_limit bc'" pool pool'] assms(5)
    added_block [OF assms(1-4) refl, of "length (m_blocks bc') = Suc (length (m_blocks bc))"] by simp

theorem block_push_pop_witness:
  "\<exists>bvc' bc'. pushBlock example_crypto integer_floats example_currency 2000000000 example_block [] 77 bvc_initial example_chain
      = Some (True, bvc', bc') \<and> length (m_blocks bc') = 1
    \<and> popBlock (\<lambda>tx h bc pool. (True, tx # pool)) (cn_fast_hash example_crypto) example_currency 77 (bc', [])
      = Some (example_chain\<lparr>m_current_block_cumul_sz_limit := m_current_block_cumul_sz_limit bc'\<rparr>, [])"
proof -
  obtain bvc' bc' where push: "pushBlock example_crypto integer_floats example_currency 2000000000 example_block [] 77 bvc_initial example_chain
      = Some (True, bvc', bc')"
    using example_push by blast
  have "saveTransactions (\<lambda>tx h bc pool. (True, tx # pool)) [] (of_nat (length (m_blocks bc'))) bc' [] = Some []"
    by (simp add: saveTransactions_def)
  from block_push_pop [OF push [folded example_hashes(1)] example_ok(1,3,2) this] push
  show ?thesis by (auto simp: example_hashes example_fields)
qed

text \<open>
  C9. A block that \<open>pushBlock\<close> refuses leaves the storage exactly as it was, unless
  the block is refused for its cumulative size. In that case the source returns without taking the
  transactions back: the miner transaction of the refused block stays in the transaction map.
\<close>

theorem refused_block_leaves_chain:
  assumes push: "pushBlock cr F c now b txs h bvc bc = Some (False, bvc', bc')"
    and ok: "block_ok (cn_fast_hash cr) b txs bc" and wf: "ledger_wf bc"
  shows "bc' = bc \<or>
    checkCumulativeBlockSize c (block_size b txs) (ucast (of_nat (length (m_blocks bc)) :: u32)) = Some False
    \<and> m_transactionMap bc' (miner_hash (cn_fast_hash cr) b) \<noteq> None"
  using refused_cases [OF assms] .

theorem refused_block_leaves_chain_witness:
  "\<exists>bc'. pushBlock example_crypto integer_floats small_blocks 2000000000 example_block [] 77 bvc_initial example_chain
      = Some (False, bvc_initial\<lparr>bv_verification_failed := True\<rparr>, bc') \<and> m_transactionMap bc' 44 \<noteq> None"
proof -
  obtain bc' where push: "pushBlock example_crypto integer_floats small_blocks 2000000000 example_block [] 77 bvc_initial example_chain
      = Some (False, bvc_initial\<lparr>bv_verification_failed := True\<rparr>, bc')" and ne: "bc' \<noteq> example_chain"
    using example_oversized by blast
  show ?thesis
    using refused_block_leaves_chain [OF push example_ok(1,4)] push ne by (auto simp: example_hashes)
qed

text \<open>
  C5. Every state the storage reaches from the empty one by adding and removing
  blocks is consistent: the blocks are linked by their hashes and have the heights of their
  positions, every entry of the output containers refers to an output of the right type and amount,
  the block index lists the hashes without repetition, and the indices of timestamps, generated
  transactions, deposits and upgrade votes match the blocks.
\<close>

theorem reachable_chain_consistent:
  assumes "(chain_step cr F c add_tx)\<^sup>*\<^sup>* (Blockchain_create cp) bc"
  shows "chain_inv (cn_fast_hash cr) c bc"
  using assms by (rule reachable_inv)

theorem reachable_chain_consistent_witness:
  "\<exists>bc. (chain_step example_crypto integer_floats example_currency (\<lambda>tx h bc pool. (True, tx # pool)))\<^sup>*\<^sup>* example_chain bc
    \<and> length (m_blocks bc) = 1 \<and> chain_inv (cn_fast_hash example_crypto) example_currency bc"
proof -
  obtain bc where step: "chain_step example_crypto integer_floats example_currency (\<lambda>tx h bc pool. (True, tx # pool)) example_chain bc"
    and one: "length (m_blocks bc) = 1"
    using example_step by force
  then have "(chain_step example_crypto integer_floats example_currency (\<lambda>tx h bc pool. (True, tx # pool)))\<^sup>*\<^sup>*
      (Blockchain_create \<lparr>cp_testnet = False, cp_points = []\<rparr>) bc"
    by (simp add: example_chain_def r_into_rtranclp)
  from reachable_chain_consistent [OF this] step one show ?thesis by blast
qed

text \<open>A transaction that spends the output of the example block.\<close>

definition spending_tx :: Transaction where
  "spending_tx = \<lparr>tp_version = 1, tp_unlockTime = 0,
    tp_inputs = [InKey \<lparr>ki_amount = 5000000, ki_outputIndexes = [0], ki_keyImage = 11\<rparr>],
    tp_outputs = [\<lparr>to_amount = 3, to_target = OutKey \<lparr>ko_key = 8\<rparr>\<rparr>], tp_extra = [], tx_signatures = [[1]]\<rparr>"

lemma example_spent:
  obtains bc where "checking_state example_crypto integer_floats example_currency (\<lambda>tx h bc pool. (True, tx # pool))
      \<lparr>cp_testnet = False, cp_points = []\<rparr> [] bc"
    and "length (m_blocks bc) = 1"
    and "checkTransactionInputs example_crypto example_currency 0 spending_tx None bc = Some (True, None)"
proof -
  obtain bc blk e where step: "chain_step example_crypto integer_floats example_currency (\<lambda>tx h bc pool. (True, tx # pool)) example_chain bc"
    and bc: "m_blocks bc = [blk]" "be_transactions blk = [e]" "te_tx e = example_miner"
      "m_outputs bc = [5000000 \<mapsto> [(\<lparr>ti_block = 0, ti_transaction = 0\<rparr>, 0)]]" "m_spent_keys bc = Map.empty"
    using example_step by blast
  from step have "checking_state example_crypto integer_floats example_currency (\<lambda>tx h bc pool. (True, tx # pool))
      \<lparr>cp_testnet = False, cp_points = []\<rparr> [] bc"
    by (intro between_blocks) (simp add: example_chain_def r_into_rtranclp)
  moreover have "is_tx_spendtime_unlocked example_currency 0 10 bc"
    by (simp add: is_tx_spendtime_unlocked_def getCurrentBlockchainHeight_def bc(1) example_currency_def)
  then have "checkTransactionInputs example_crypto example_currency 0 spending_tx None bc = Some (True, None)"
    by (simp add: checkTransactionInputs_def spending_tx_def have_tx_keyimg_as_spent_def bc check_tx_input_def
        scanOutputKeysForIndexes_def relative_output_offsets_to_absolute_def transactionByIndex_def example_miner_def
        handle_key_output_def example_crypto_def key_image_I_def getCurrentBlockchainHeight_def Let_def UPGRADE_HEIGHT_V4_def)
  ultimately show thesis using that bc(1) by simp
qed

text \<open>
  C6. When \<open>checkTransactionInputs\<close> accepts a transaction, on a chain that whole
  blocks were added to and removed from or inside \<open>pushBlock\<close> on such a chain, each of its inputs
  passes the rules of the chain with its own signatures. The key image of a key input is unspent,
  and its ring is not empty and consists of unlocked key outputs of the chain that have the amount
  of the input; it has a signature for each output, and at least three outputs between the upgrade
  heights 4 and 5. A multisignature input refers to an unspent, unlocked output of the same amount and
  term, whose deposit has matured. Outside the checkpoint zone, and only there, the ring signature
  is valid, the key image is in the right subgroup, and a multisignature input has as many valid
  signatures of distinct keys, in order, as the output requires.
\<close>

theorem accepted_inputs_sound:
  assumes "checking_state cr F c add_tx cp bs bc" and "checkTransactionInputs cr c now tx pmax bc = Some (True, pmax')"
  shows "list_all2 (input_valid cr c now bc
      (snd (getObjectHash (cn_fast_hash cr) out_TransactionPrefix (TransactionPrefix.truncate tx))))
    (tp_inputs tx) (take (length (tp_inputs tx)) (tx_signatures tx))"
  using checkTransactionInputs_sound [OF assms(2)] accepted_input_valid [OF checking_refs [OF assms(1)]]
  by (rule list_all2_mono)

theorem accepted_inputs_sound_witness:
  "\<exists>bc. length (m_blocks bc) = 1
    \<and> checkTransactionInputs example_crypto example_currency 0 spending_tx None bc = Some (True, None)
    \<and> list_all2 (input_valid example_crypto example_currency 0 bc
        (snd (getObjectHash (cn_fast_hash example_crypto) out_TransactionPrefix (TransactionPrefix.truncate spending_tx))))
      (tp_inputs spending_tx) [[1]]"
proof (rule example_spent)
  fix bc
  assume state: "checking_state example_crypto integer_floats example_currency (\<lambda>tx h bc pool. (True, tx # pool))
      \<lparr>cp_testnet = False, cp_points = []\<rparr> [] bc" and one: "length (m_blocks bc) = 1"
    and check: "checkTransactionInputs example_crypto example_currency 0 spending_tx None bc = Some (True, None)"
  from accepted_inputs_sound [OF state check] one check show ?thesis
    by (intro exI [of _ bc]) (simp add: spending_tx_def)
qed

text \<open>
  C10. Well-formed data does not get stuck: the check of the inputs of a
  transaction that was read from bytes returns a verdict, on every chain that whole blocks were added
  to and removed from. None of the assertions on signature counts and on the type and amount of a
  referenced output fails, and no vector is read outside its bounds. Inside \<open>pushBlock\<close> on such a chain
  the same holds for every transaction, except one that refers to an output of the block that is
  being added. The states that a block refused for its size leaves behind are not covered.
\<close>

theorem parsed_transaction_checked:
  assumes "checking_state cr F c add_tx cp bs bc" and "fromBinaryArray in_Transaction ba = Some tx"
  shows "(\<exists>ok p. checkTransactionInputs cr c now tx pmax bc = Some (ok, p))
    \<or> bs \<noteq> [] \<and> list_ex (spends_own_block bc) (tp_inputs tx)"
proof -
  note refs = checking_refs [OF assms(1)]
  have "\<not> list_ex (spends_own_block bc) (tp_inputs tx)" if "bs = []"
    using no_own_block [of bc] refs that by (simp add: list_ex_iff)
  moreover have "ok_transaction tx" using assms(2) transaction_codec.binary_array_iff by blast
  ultimately show ?thesis using checkTransactionInputs_returns [OF refs] by blast
qed

theorem parsed_transaction_checked_witness:
  "\<exists>bc ok p. length (m_blocks bc) = 1
    \<and> checkTransactionInputs example_crypto example_currency 0 spending_tx None bc = Some (ok, p)"
proof (rule example_spent)
  fix bc
  assume state: "checking_state example_crypto integer_floats example_currency (\<lambda>tx h bc pool. (True, tx # pool))
      \<lparr>cp_testnet = False, cp_points = []\<rparr> [] bc" and one: "length (m_blocks bc) = 1"
  have "ok_transaction spending_tx"
    by (simp add: ok_transaction_def ok_prefix_def spending_tx_def ok_input_def ok_target_def getSignaturesCount_def)
  moreover have "toBinaryArray out_Transaction spending_tx \<noteq> None" by code_simp
  ultimately obtain ba where "fromBinaryArray in_Transaction ba = Some spending_tx"
    using transaction_codec.binary_array_iff by blast
  from parsed_transaction_checked [OF state this] one show ?thesis by blast
qed

text \<open>
  C11. On every chain the storage reaches, \<open>rollbackBlockchainTo\<close> ends, succeeds and
  cuts the chain after the requested height, with the ledger of the shorter chain. The deposit
  index and the upgrade detectors, which it does not touch, stay those of the longer chain.
\<close>

theorem rollback_returns:
  assumes "(chain_step cr F c add_tx)\<^sup>*\<^sup>* (Blockchain_create cp) bc"
  shows "\<exists>bc' short. rollbackBlockchainTo (cn_fast_hash cr) height bc = Some (True, bc')
    \<and> m_blocks bc' = take (Suc (unat height)) (m_blocks bc)
    \<and> same_main bc' short \<and> chain_inv (cn_fast_hash cr) c short
    \<and> m_depositIndex bc' = m_depositIndex bc \<and> detectors bc' = detectors bc"
proof -
  have grown: "grown cr F c bc" by (rule reachable_grown [OF assms])
  have self: "same_main bc bc" by (simp add: same_main_def)
  show ?thesis
  proof (cases "length (m_blocks bc) \<le> unat height")
    case True
    then show ?thesis using self grown_inv [OF grown]
      by (intro exI [of _ bc] exI [of _ bc]) (simp add: rollbackBlockchainTo_def)
  next
    case False
    then have "unat height + 1 < 2 ^ 32" using grown_inv [OF grown] by (simp add: chain_inv_def)
    then have h: "unat (height + 1) = Suc (unat height)" using unat_add_exact [of height 1] by simp
    from rollback_loop_grown [OF grown self, of "Suc (unat height)"] obtain x' bc' where
        r: "rollback_loop (cn_fast_hash cr) (Suc (unat height)) bc = Some (True, x')" "same_main x' bc'" "grown cr F c bc'"
          "m_blocks bc' = take (Suc (unat height)) (m_blocks bc)" "m_depositIndex x' = m_depositIndex bc"
          "detectors x' = detectors bc"
      by auto
    have "m_blocks x' = take (Suc (unat height)) (m_blocks bc)" using r(2,4) by (simp add: same_main_def)
    then show ?thesis using False r grown_inv [OF r(3)]
      by (intro exI [of _ x'] exI [of _ bc']) (simp add: rollbackBlockchainTo_def h)
  qed
qed

theorem rollback_returns_witness:
  "\<exists>bc bc'. length (m_blocks bc) = 1 \<and> rollbackBlockchainTo (cn_fast_hash example_crypto) 0 bc = Some (True, bc')
    \<and> m_blocks bc' = m_blocks bc"
proof -
  obtain bc where step: "chain_step example_crypto integer_floats example_currency (\<lambda>tx h bc pool. (True, tx # pool)) example_chain bc"
    and one: "length (m_blocks bc) = 1"
    using example_step by force
  then have "(chain_step example_crypto integer_floats example_currency (\<lambda>tx h bc pool. (True, tx # pool)))\<^sup>*\<^sup>*
      (Blockchain_create \<lparr>cp_testnet = False, cp_points = []\<rparr>) bc"
    by (simp add: example_chain_def r_into_rtranclp)
  from rollback_returns [OF this, of 0] one show ?thesis by auto
qed

text \<open>
  C12. A miner transaction that passes both checks of \<open>pushBlock\<close> pays out the block
  reward and at most 10 units more, counted without overflow; conversely any such amount passes the second check.
\<close>

theorem miner_reward_rule:
  assumes "prevalidate_miner_transaction cr c b height = Some True"
    and "getBlockReward c (medianValue (get_last_n_blocks_sizes (unat (m_rewardBlocksWindow c)) bc)) size_n coins fee height
      = Some (Some (reward, emission))"
  shows "validate_miner_transaction c b height size_n coins fee bc = Some (True, reward, emission) \<longleftrightarrow>
    unat reward \<le> (\<Sum>out\<leftarrow>tp_outputs (bl_baseTransaction b). unat (to_amount out))
    \<and> (\<Sum>out\<leftarrow>tp_outputs (bl_baseTransaction b). unat (to_amount out)) \<le> unat reward + 10"
proof -
  let ?minted = "fold (\<lambda>o1 acc. acc + to_amount o1) (tp_outputs (bl_baseTransaction b)) 0 :: u64"
  have "check_outs_overflow (bl_baseTransaction b)"
    using assms(1) by (auto simp: prevalidate_miner_transaction_def Let_def split: if_splits TransactionInput.splits option.splits)
  then have "(\<Sum>out\<leftarrow>tp_outputs (bl_baseTransaction b). unat (to_amount out)) < 2 ^ 64"
    by (simp add: check_outs_overflow_def outs_overflow_loop_iff)
  then have "unat ?minted = (\<Sum>out\<leftarrow>tp_outputs (bl_baseTransaction b). unat (to_amount out))"
    using fold_amounts [of 0] by simp
  moreover have "validate_miner_transaction c b height size_n coins fee bc = Some (True, reward, emission) \<longleftrightarrow>
      \<not> (reward < ?minted \<and> 10 < ?minted - reward) \<and> \<not> ?minted < reward"
    using assms(2) by (auto simp: validate_miner_transaction_def Let_def)
  ultimately show ?thesis using reward_tolerance [of reward ?minted] by simp
qed

theorem miner_reward_rule_witness:
  "validate_miner_transaction example_currency example_block 0 44 0 0 example_chain = Some (True, 5000000, 5000000)
    \<and> (\<Sum>out\<leftarrow>tp_outputs (bl_baseTransaction example_block). unat (to_amount out)) \<le> unat (5000000 :: u64) + 10"
proof -
  have "prevalidate_miner_transaction example_crypto example_currency example_block 0 = Some True" by code_simp
  moreover have "getBlockReward example_currency (medianValue (get_last_n_blocks_sizes (unat (m_rewardBlocksWindow example_currency)) example_chain)) 44 0 0 0
      = Some (Some (5000000, 5000000))"
    by (simp add: get_last_n_blocks_sizes_def example_fields medianValue_def) code_simp
  ultimately show ?thesis
    using miner_reward_rule [of example_crypto example_currency example_block 0 example_chain 44 0 0 5000000 5000000] example_reward by simp
qed

end
