(* ===== verification/Alternative_Chains.thy ===== *)
theory Alternative_Chains
  imports Chain_Undo
begin

text \<open>
  Alternative blocks and the choice between chains: \<open>addNewBlock\<close>, \<open>handle_alternative_block\<close>,
  \<open>switch_to_alternative_blockchain\<close>, \<open>rollback_blockchain_switching\<close> and
  \<open>get_next_difficulty_for_alternative_chain\<close> of \<open>src/CryptoNoteCore/Blockchain.cpp\<close>. The state adds the
  alternative blocks and the index of orphaned blocks to the main chain. The pool, the clock and the
  answers of the DNS servers belong to the environment. An exception (also one that the source catches and reports as a refusal), a failing assertion or an access
  to an element that is missing is \<open>None\<close>; messages to observers and the saving of the chain are left out.
\<close>

record Storage =
  st_main :: Blockchain
  m_alternative_chains :: "Hash \<rightharpoonup> BlockEntry"
  m_orthanBlocksIndex :: OrphanBlocksIndex

record ('f, 'pool) node_env =
  ne_crypto :: crypto_ops
  ne_floats :: "'f float_ops"
  ne_currency :: Currency
  ne_now :: u64
  ne_add_tx :: "Transaction \<Rightarrow> u32 \<Rightarrow> Blockchain \<Rightarrow> 'pool \<Rightarrow> bool \<times> 'pool"
  ne_take_tx :: "Hash \<Rightarrow> 'pool \<Rightarrow> Transaction option \<times> 'pool"
  ne_find_tx :: "Hash \<Rightarrow> 'pool \<Rightarrow> Transaction option"
  ne_dns :: "(u32 \<times> string) list"

abbreviation ne_hash :: "('f, 'pool) node_env \<Rightarrow> u8 list \<Rightarrow> Hash" where
  "ne_hash env \<equiv> cn_fast_hash (ne_crypto env)"

definition block_hash :: "(u8 list \<Rightarrow> Hash) \<Rightarrow> Block \<Rightarrow> Hash" where
  "block_hash H b = snd (get_block_hash H b)"

section \<open>Transactions and sizes\<close>

fun getBlockchainTransactions :: "Hash list \<Rightarrow> Blockchain \<Rightarrow> (Transaction list \<times> Hash list) option" where
  "getBlockchainTransactions [] bc = Some ([], [])"
| "getBlockchainTransactions (tx_id # ids) bc =
    (case m_transactionMap bc tx_id of
       None \<Rightarrow> map_option (\<lambda>(txs, missed). (txs, tx_id # missed)) (getBlockchainTransactions ids bc)
     | Some index \<Rightarrow>
         (case transactionByIndex (m_blocks bc) index of
            None \<Rightarrow> None
          | Some entry \<Rightarrow> map_option (\<lambda>(txs, missed). (te_tx entry # txs, missed)) (getBlockchainTransactions ids bc)))"

text \<open>\<open>getTransactions\<close> with the pool: what the chain does not have is looked up there.\<close>

definition getTransactions ::
    "(Hash \<Rightarrow> 'pool \<Rightarrow> Transaction option) \<Rightarrow> Hash list \<Rightarrow> Blockchain \<Rightarrow> 'pool \<Rightarrow> (Transaction list \<times> Hash list) option" where
  "getTransactions find_tx txs_ids bc pool =
    map_option (\<lambda>(txs, poolTxIds).
        (txs @ List.map_filter (\<lambda>h. find_tx h pool) poolTxIds, filter (\<lambda>h. find_tx h pool = None) poolTxIds))
      (getBlockchainTransactions txs_ids bc)"

definition getBlockCumulativeSize ::
    "(Hash \<Rightarrow> 'pool \<Rightarrow> Transaction option) \<Rightarrow> Block \<Rightarrow> Blockchain \<Rightarrow> 'pool \<Rightarrow> (bool \<times> u64) option" where
  "getBlockCumulativeSize find_tx block bc pool =
    map_option (\<lambda>(blockTxs, missedTxs).
        (missedTxs = [], fold (\<lambda>tx n. n + snd (getObjectBinarySize out_Transaction tx)) blockTxs
          (snd (getObjectBinarySize out_Transaction (bl_baseTransaction block)))))
      (getTransactions find_tx (bl_transactionHashes block) bc pool)"

definition haveBlock :: "Hash \<Rightarrow> Storage \<Rightarrow> bool" where
  "haveBlock h s \<longleftrightarrow> hasBlock h (m_blockIndex (st_main s)) \<or> m_alternative_chains s h \<noteq> None"

section \<open>The difficulty of an alternative block\<close>

text \<open>The algorithm that the version of the next main block selects.\<close>

definition difficulty_for_version :: "Currency \<Rightarrow> Blockchain \<Rightarrow> u64 list \<Rightarrow> u64 list \<Rightarrow> u64 option" where
  "difficulty_for_version c bc timestamps commulative_difficulties =
    (let block_index = of_nat (length (m_blocks bc)) :: u64;
         block_major_version = get_block_major_version_for_height c (block_index + 1) bc in
     if 8 \<le> block_major_version then nextDifficultyLWMA1 c timestamps commulative_difficulties block_index
     else if 4 \<le> block_major_version then nextDifficultyLWMA3 timestamps commulative_difficulties
     else nextDifficulty c block_major_version (ucast block_index) timestamps commulative_difficulties)"

text \<open>
  The entries whose timestamps and difficulties count: the last blocks of the main chain below the
  alternative chain, without the genesis block, and then the alternative chain, or the last part of a long
  alternative chain. \<open>Some None\<close> is the internal error, for which the source returns difficulty 0.
\<close>

definition alternative_window ::
    "nat \<Rightarrow> BlockEntry list \<Rightarrow> BlockEntry list \<Rightarrow> u32 \<Rightarrow> BlockEntry list option option" where
  "alternative_window n blocks entries height =
    (if length entries < n then
       let main_chain_stop_offset = unat (if entries = [] then height else be_height (hd entries));
           main_chain_count = n - min n (length entries);
           main_chain_count = min main_chain_count main_chain_stop_offset;
           main_chain_start_offset = main_chain_stop_offset - main_chain_count;
           main_chain_start_offset = (if main_chain_start_offset = 0 then 1 else main_chain_start_offset) in
       if main_chain_start_offset < main_chain_stop_offset \<and> length blocks < main_chain_stop_offset then None
       else
         let lower = map (\<lambda>i. blocks ! i) [main_chain_start_offset ..< main_chain_stop_offset] in
         if \<not> length entries + length lower \<le> n then Some None
         else Some (Some (lower @ entries))
     else if n = 0 then (if entries = [] then Some (Some []) else None)
     else Some (Some (drop (length entries - n) entries)))"

definition get_next_difficulty_for_alternative_chain ::
    "Currency \<Rightarrow> Hash list \<Rightarrow> u32 \<Rightarrow> Storage \<Rightarrow> u64 option" where
  "get_next_difficulty_for_alternative_chain c alt_chain height s =
    (let bc = st_main s;
         BlockMajorVersion = getBlockMajorVersionForHeight c (of_nat (length (m_blocks bc))) bc in
     case those (map (m_alternative_chains s) alt_chain) of
       None \<Rightarrow> None
     | Some entries \<Rightarrow>
         (case alternative_window (unat (difficultyBlocksCountByBlockVersion c BlockMajorVersion)) (m_blocks bc) entries height of
            None \<Rightarrow> None
          | Some None \<Rightarrow> Some 0
          | Some (Some window) \<Rightarrow>
              difficulty_for_version c bc (map (\<lambda>e. bh_timestamp (be_bl e)) window) (map be_cumulative_difficulty window)))"

section \<open>Switching between chains\<close>

text \<open>The loops that pop blocks, last first; the popped blocks are collected in the order of the chain.\<close>

fun disconnect_chain ::
    "('f, 'pool) node_env \<Rightarrow> nat \<Rightarrow> Block list \<Rightarrow> Storage \<times> 'pool \<Rightarrow> (Block list \<times> Storage \<times> 'pool) option" where
  "disconnect_chain env 0 disconnected s = Some (disconnected, s)"
| "disconnect_chain env (Suc n) disconnected (s, pool) =
    (let b = be_bl (last (m_blocks (st_main s))) in
     case popBlock (ne_add_tx env) (ne_hash env) (ne_currency env) (block_hash (ne_hash env) b) (st_main s, pool) of
       None \<Rightarrow> None
     | Some (main, pool) \<Rightarrow> disconnect_chain env n (b # disconnected) (s\<lparr>st_main := main\<rparr>, pool))"

text \<open>The loops that push blocks on top; the result holds the blocks from the first refused one on.\<close>

fun connect_chain ::
    "('f, 'pool) node_env \<Rightarrow> u32 \<Rightarrow> Block list \<Rightarrow> Storage \<times> 'pool \<Rightarrow> (Block list \<times> Storage \<times> 'pool) option" where
  "connect_chain env height [] s = Some ([], s)"
| "connect_chain env height (b # blocks) (s, pool) =
    (let height = height + 1 in
     case pushBlock_pool (ne_add_tx env) (ne_take_tx env) (ne_crypto env) (ne_floats env) (ne_currency env) (ne_now env)
         b (block_hash (ne_hash env) b) bvc_initial height (st_main s, pool) of
       None \<Rightarrow> None
     | Some (r, bvc, main, pool) \<Rightarrow>
         let s = s\<lparr>st_main := main\<rparr> in
         if \<not> (r \<and> bv_added_to_main_chain bvc) then Some (b # blocks, s, pool)
         else connect_chain env height blocks (s, pool))"

text \<open>With \<open>rollback_height\<close> 0 or an empty chain the unsigned loop counter never falls below the bound.\<close>

definition rollback_blockchain_switching ::
    "('f, 'pool) node_env \<Rightarrow> Block list \<Rightarrow> nat \<Rightarrow> Storage \<times> 'pool \<Rightarrow> (bool \<times> Storage \<times> 'pool) option" where
  "rollback_blockchain_switching env original_chain rollback_height s =
    (let n = length (m_blocks (st_main (fst s))) in
     if rollback_height = 0 \<or> n = 0 then None
     else
       case disconnect_chain env (n - rollback_height) [] s of
         None \<Rightarrow> None
       | Some (_, s) \<Rightarrow>
           map_option (\<lambda>(rest, s). (rest = [], s)) (connect_chain env (of_nat rollback_height - 1) original_chain s))"

text \<open>Removing blocks from the alternative blocks and from the index of orphaned blocks.\<close>

fun drop_alternatives :: "(u8 list \<Rightarrow> Hash) \<Rightarrow> Hash list \<Rightarrow> Storage \<Rightarrow> Storage option" where
  "drop_alternatives H [] s = Some s"
| "drop_alternatives H (h # hashes) s =
    (case m_alternative_chains s h of
       None \<Rightarrow> None
     | Some e \<Rightarrow>
         (case OrphanBlocksIndex_remove H (be_bl e) (m_orthanBlocksIndex s) of
            None \<Rightarrow> None
          | Some (_, index) \<Rightarrow>
              drop_alternatives H hashes
                (s\<lparr>m_orthanBlocksIndex := index, m_alternative_chains := (m_alternative_chains s)(h := None)\<rparr>)))"

text \<open>The blocks that left the main chain become alternative blocks; \<open>handle\<close> is the recursive call.\<close>

fun store_old_chain ::
    "(Block \<Rightarrow> Hash \<Rightarrow> block_verification_context \<Rightarrow> Storage \<times> 'pool \<Rightarrow>
        (bool \<times> block_verification_context \<times> Storage \<times> 'pool) option) \<Rightarrow>
      (u8 list \<Rightarrow> Hash) \<Rightarrow> Block list \<Rightarrow> Storage \<times> 'pool \<Rightarrow> (bool \<times> Storage \<times> 'pool) option" where
  "store_old_chain handle H [] s = Some (True, s)"
| "store_old_chain handle H (b # blocks) s =
    (case handle b (block_hash H b) bvc_initial s of
       None \<Rightarrow> None
     | Some (r, _, s) \<Rightarrow> if \<not> r then Some (False, s) else store_old_chain handle H blocks s)"

text \<open>Every transaction of the main chain above the fork has to be in the alternative chain.\<close>

definition keeps_transactions :: "BlockEntry list \<Rightarrow> BlockEntry list \<Rightarrow> bool" where
  "keeps_transactions old new \<longleftrightarrow>
    list_all (\<lambda>tx_hash. tx_hash \<in> set (concat (map (\<lambda>e. bl_transactionHashes (be_bl e)) new)))
      (concat (map (\<lambda>e. bl_transactionHashes (be_bl e)) old))"

definition switch_to_alternative_blockchain ::
    "(Block \<Rightarrow> Hash \<Rightarrow> block_verification_context \<Rightarrow> Storage \<times> 'pool \<Rightarrow>
        (bool \<times> block_verification_context \<times> Storage \<times> 'pool) option) \<Rightarrow>
      ('f, 'pool) node_env \<Rightarrow> Hash list \<Rightarrow> bool \<Rightarrow> Storage \<times> 'pool \<Rightarrow> (bool \<times> Storage \<times> 'pool) option" where
  "switch_to_alternative_blockchain handle env alt_chain discard_disconnected_chain sp =
    (case sp of (s, pool) \<Rightarrow>
     if alt_chain = [] then Some (False, s, pool)
     else
       case those (map (m_alternative_chains s) alt_chain) of
         None \<Rightarrow> None
       | Some entries \<Rightarrow>
           let split_height = be_height (hd entries);
               main = st_main s;
               n = length (m_blocks main) in
           if \<not> unat split_height < n then Some (False, s, pool)
           else if split_height = 0 then None
           else if \<not> keeps_transactions (drop (unat split_height) (m_blocks main)) entries then Some (False, s, pool)
           else if \<not> list_all (\<lambda>e. checkBlockVersion (ne_currency env) (be_bl e) main) entries then Some (False, s, pool)
           else
             case disconnect_chain env (n - unat split_height) [] (s, pool) of
               None \<Rightarrow> None
             | Some (disconnected, sp) \<Rightarrow>
                 (case connect_chain env (split_height - 1) (map be_bl entries) sp of
                    None \<Rightarrow> None
                  | Some (rest, sp) \<Rightarrow>
                      if rest \<noteq> [] then
                        (case rollback_blockchain_switching env disconnected (unat split_height) sp of
                           None \<Rightarrow> None
                         | Some (_, s, pool) \<Rightarrow>
                             map_option (\<lambda>s. (False, s, pool))
                               (drop_alternatives (ne_hash env) (drop (length alt_chain - length rest) alt_chain) s))
                      else
                        (case (if discard_disconnected_chain then Some (True, sp)
                               else store_old_chain handle (ne_hash env) disconnected sp) of
                           None \<Rightarrow> None
                         | Some (False, sp) \<Rightarrow>
                             map_option (\<lambda>(_, sp). (False, sp))
                               (rollback_blockchain_switching env disconnected (unat split_height) sp)
                         | Some (True, s, pool) \<Rightarrow>
                             map_option (\<lambda>s. (True, s, pool)) (drop_alternatives (ne_hash env) alt_chain s))))"

section \<open>Alternative blocks\<close>

text \<open>
  The loop that follows the previous hashes through the alternative blocks: the hashes in the order of
  the chain and the timestamps from the newest block on. On a cycle it does not end.
\<close>

partial_function (option) alt_chain_loop ::
    "(Hash \<rightharpoonup> BlockEntry) \<Rightarrow> Hash \<Rightarrow> Hash list \<Rightarrow> u64 list \<Rightarrow> (Hash list \<times> u64 list) option" where
  "alt_chain_loop alts h alt_chain timestamps =
    (case alts h of
       None \<Rightarrow> Some (alt_chain, timestamps)
     | Some e \<Rightarrow> alt_chain_loop alts (bh_previousBlockHash (be_bl e)) (h # alt_chain) (timestamps @ [bh_timestamp (be_bl e)]))"

declare alt_chain_loop.simps [code]

text \<open>The connection to the main chain with the timestamps completed from it; \<open>Some None\<close> is a refusal.\<close>

definition connection_timestamps ::
    "(u8 list \<Rightarrow> Hash) \<Rightarrow> Currency \<Rightarrow> Hash list \<Rightarrow> u64 list \<Rightarrow> Block \<Rightarrow> Storage \<Rightarrow> u64 list option option" where
  "connection_timestamps H c alt_chain timestamps b s =
    (let main = st_main s in
     case alt_chain of
       [] \<Rightarrow>
         (case getBlockHeight (bh_previousBlockHash b) (m_blockIndex main) of
            None \<Rightarrow> Some None
          | Some mainPrevHeight \<Rightarrow>
              Some (Some (snd (complete_timestamps_vector c (ucast mainPrevHeight) timestamps main))))
     | front # _ \<Rightarrow>
         (case m_alternative_chains s front of
            None \<Rightarrow> None
          | Some bei \<Rightarrow>
              if \<not> unat (be_height bei) < length (m_blocks main) then Some None
              else if be_height bei = 0 then None
              else if block_hash H (be_bl (m_blocks main ! (unat (be_height bei) - 1))) \<noteq> bh_previousBlockHash (be_bl bei)
              then Some None
              else Some (Some (snd (complete_timestamps_vector c (ucast (be_height bei - 1)) timestamps main)))))"

text \<open>
  What an alternative block builds on: height and cumulative difficulty of its parent, which is an
  alternative block or a block of the main chain.
\<close>

definition alternative_parent :: "Block \<Rightarrow> Storage \<Rightarrow> (u32 \<times> u64) option" where
  "alternative_parent b s =
    (case m_alternative_chains s (bh_previousBlockHash b) of
       Some p \<Rightarrow> Some (be_height p, be_cumulative_difficulty p)
     | None \<Rightarrow>
         (case getBlockHeight (bh_previousBlockHash b) (m_blockIndex (st_main s)) of
            None \<Rightarrow> None
          | Some h \<Rightarrow>
              if unat h < length (m_blocks (st_main s))
              then Some (h, be_cumulative_difficulty (m_blocks (st_main s) ! unat h)) else None))"

text \<open>
  The checks of a block with a known parent and its insertion. The left result is a refusal, the right
  one the alternative chain with the block, its entry, whether it is at a checkpoint, and the new state.
\<close>

definition add_alternative ::
    "('f, 'pool) node_env \<Rightarrow> Block \<Rightarrow> Hash \<Rightarrow> block_verification_context \<Rightarrow> Storage \<Rightarrow>
      (block_verification_context + Hash list \<times> BlockEntry \<times> bool \<times> Storage) option" where
  "add_alternative env b h bvc s =
    (let c = ne_currency env; cr = ne_crypto env; main = st_main s;
         failed = bvc\<lparr>bv_verification_failed := True\<rparr> in
     case alt_chain_loop (m_alternative_chains s) (bh_previousBlockHash b) [] [] of
       None \<Rightarrow> None
     | Some (alt_chain, timestamps) \<Rightarrow>
         (case connection_timestamps (ne_hash env) c alt_chain timestamps b s of
            None \<Rightarrow> None
          | Some None \<Rightarrow> Some (Inl bvc)
          | Some (Some timestamps) \<Rightarrow>
              if \<not> check_block_timestamp c timestamps b then Some (Inl failed)
              else
                case alternative_parent b s of
                  None \<Rightarrow> None
                | Some (parent_height, parent_difficulty) \<Rightarrow>
                    let height = parent_height + 1;
                        (checkpoint_ok, is_a_checkpoint) = check_block height h (m_checkpoints main) in
                    if \<not> checkpoint_ok then Some (Inl failed)
                    else if getMergeMiningTagFromExtra (tp_extra (bl_baseTransaction b)) \<noteq> None
                      \<and> UPGRADE_HEIGHT_V6 \<le> ucast height then Some (Inl bvc)
                    else
                      case get_next_difficulty_for_alternative_chain c alt_chain height s of
                        None \<Rightarrow> None
                      | Some current_diff \<Rightarrow>
                          if current_diff = 0 then Some (Inl bvc)
                          else if \<not> snd (checkProofOfWork (get_block_longhash (ne_hash env) (cn_slow_hash cr)) b current_diff)
                          then Some (Inl failed)
                          else
                            case prevalidate_miner_transaction cr c b height of
                              None \<Rightarrow> None
                            | Some False \<Rightarrow> Some (Inl failed)
                            | Some True \<Rightarrow>
                                let bei = \<lparr>be_bl = b, be_height = height, be_block_cumulative_size = 0,
                                      be_cumulative_difficulty = parent_difficulty + current_diff,
                                      be_already_generated_coins = 0, be_transactions = []\<rparr> in
                                if m_alternative_chains s h \<noteq> None then Some (Inl bvc)
                                else
                                  map_option (\<lambda>index. Inr (alt_chain @ [h], bei, is_a_checkpoint,
                                      s\<lparr>m_alternative_chains := (m_alternative_chains s)(h \<mapsto> bei), m_orthanBlocksIndex := index\<rparr>))
                                    (OrphanBlocksIndex_add (ne_hash env) b (m_orthanBlocksIndex s))))"

definition fetch_checkpoints :: "(u32 \<times> string) list \<Rightarrow> Storage \<Rightarrow> Storage" where
  "fetch_checkpoints records s =
    s\<lparr>st_main := (st_main s)\<lparr>m_checkpoints := load_checkpoints_from_dns records (m_checkpoints (st_main s))\<rparr>\<rparr>"

text \<open>
  A reorganisation stores the old chain with a recursive call, which could start a further
  reorganisation; the first argument bounds the depth of these calls.
\<close>

fun handle_alternative_block ::
    "nat \<Rightarrow> ('f, 'pool) node_env \<Rightarrow> Block \<Rightarrow> Hash \<Rightarrow> block_verification_context \<Rightarrow> Storage \<times> 'pool \<Rightarrow>
      (bool \<times> block_verification_context \<times> Storage \<times> 'pool) option" where
  "handle_alternative_block 0 env b h bvc sp = None"
| "handle_alternative_block (Suc depth) env b h bvc (s, pool) =
    (let c = ne_currency env;
         block_height = get_block_height b;
         failed = bvc\<lparr>bv_verification_failed := True\<rparr> in
     if block_height = 0 then Some (False, failed, s, pool)
     else
       let s = fetch_checkpoints (ne_dns env) s; main = st_main s in
       if \<not> is_alternative_block_allowed (getCurrentBlockchainHeight main) block_height (m_checkpoints main)
       then Some (False, failed, s, pool)
       else if \<not> checkBlockVersion c b main then Some (False, failed, s, pool)
       else
         case getBlockCumulativeSize (ne_find_tx env) b main pool of
           None \<Rightarrow> None
         | Some (_, cumulativeSize) \<Rightarrow>
             (case checkCumulativeBlockSize c cumulativeSize (ucast block_height) of
                None \<Rightarrow> None
              | Some False \<Rightarrow> Some (False, failed, s, pool)
              | Some True \<Rightarrow>
                  if m_alternative_chains s (bh_previousBlockHash b) = None
                    \<and> getBlockHeight (bh_previousBlockHash b) (m_blockIndex main) = None
                  then Some (True, bvc\<lparr>bv_marked_as_orphaned := True\<rparr>, s, pool)
                  else
                    case add_alternative env b h bvc s of
                      None \<Rightarrow> None
                    | Some (Inl bvc) \<Rightarrow> Some (False, bvc, s, pool)
                    | Some (Inr (alt_chain, bei, is_a_checkpoint, s)) \<Rightarrow>
                        if \<not> is_a_checkpoint \<and> m_blocks main = [] then None
                        else if is_a_checkpoint
                          \<or> be_cumulative_difficulty (last (m_blocks main)) < be_cumulative_difficulty bei
                        then map_option (\<lambda>(r, sp).
                            (r, if r then bvc\<lparr>bv_added_to_main_chain := True, bv_switched_to_alt_chain := True\<rparr> else failed, sp))
                          (switch_to_alternative_blockchain (handle_alternative_block depth env) env alt_chain
                            is_a_checkpoint (s, pool))
                        else Some (True, bvc, s, pool)))"

section \<open>New blocks\<close>

definition addNewBlock ::
    "nat \<Rightarrow> ('f, 'pool) node_env \<Rightarrow> Block \<Rightarrow> block_verification_context \<Rightarrow> Storage \<times> 'pool \<Rightarrow>
      (bool \<times> block_verification_context \<times> Storage \<times> 'pool) option" where
  "addNewBlock depth env b bvc sp =
    (case sp of (s, pool) \<Rightarrow>
      let (hashed, h) = get_block_hash (ne_hash env) b; main = st_main s in
      if \<not> hashed then Some (False, bvc\<lparr>bv_verification_failed := True\<rparr>, s, pool)
      else if haveBlock h s then Some (False, bvc\<lparr>bv_already_exists := True\<rparr>, s, pool)
      else
        case Blockchain_getTailId main of
          None \<Rightarrow> None
        | Some tail \<Rightarrow>
            if bh_previousBlockHash b \<noteq> tail
            then handle_alternative_block depth env b h (bvc\<lparr>bv_added_to_main_chain := False\<rparr>) (s, pool)
            else map_option (\<lambda>(r, bvc, main, pool). (r, bvc, s\<lparr>st_main := main\<rparr>, pool))
              (pushBlock_pool (ne_add_tx env) (ne_take_tx env) (ne_crypto env) (ne_floats env) (ne_currency env)
                (ne_now env) b h bvc (of_nat (length (m_blocks main)) + 1) (main, pool)))"

text \<open>\<open>resetAndSetGenesisBlock\<close> leaves the multisignature outputs, the deposit index and the detectors.\<close>

definition clear_storage :: "Storage \<Rightarrow> Storage" where
  "clear_storage s = \<lparr>st_main = (st_main s)\<lparr>m_blocks := [], m_blockIndex := [], m_transactionMap := Map.empty,
      m_spent_keys := Map.empty, m_outputs := Map.empty, m_paymentIdIndex := {#}, m_timestampIndex := [],
      m_generatedTransactionsIndex := GeneratedTransactionsIndex_clear (m_generatedTransactionsIndex (st_main s))\<rparr>,
    m_alternative_chains = Map.empty, m_orthanBlocksIndex = {#}\<rparr>"

definition resetAndSetGenesisBlock ::
    "nat \<Rightarrow> ('f, 'pool) node_env \<Rightarrow> Block \<Rightarrow> Storage \<times> 'pool \<Rightarrow> (bool \<times> Storage \<times> 'pool) option" where
  "resetAndSetGenesisBlock depth env b sp =
    map_option (\<lambda>(_, bvc, sp). (bv_added_to_main_chain bvc \<and> \<not> bv_verification_failed bvc, sp))
      (addNewBlock depth env b bvc_initial (clear_storage (fst sp), snd sp))"

end
