(* ===== verification/Fork_Choice.thy ===== *)
theory Fork_Choice
  imports Alternative_Chains
begin

text \<open>
  What holds of the main chain whatever the pool, the clock and the blocks are: it stays linked and in
  step with the block index through every reorganisation, and it changes only by a block on its tail or
  for a chain of greater cumulative difficulty or with a checkpoint.
\<close>

section \<open>The main chain under single operations\<close>

text \<open>Links, heights and the block index; nothing is said of the transactions.\<close>

definition main_ok :: "(u8 list \<Rightarrow> Hash) \<Rightarrow> Blockchain \<Rightarrow> bool" where
  "main_ok H bc \<longleftrightarrow> linked H (m_blocks bc) \<and> m_blockIndex bc = map (block_id H) (m_blocks bc)
    \<and> distinct (map (block_id H) (m_blocks bc))
    \<and> list_all (\<lambda>e. get_block_height (be_bl e) = be_height e) (m_blocks bc)"

lemma main_ok_cong: "m_blocks bc = m_blocks bc' \<Longrightarrow> m_blockIndex bc = m_blockIndex bc' \<Longrightarrow> main_ok H bc \<longleftrightarrow> main_ok H bc'"
  by (simp add: main_ok_def)

lemma main_ok_more: "Ledger.more bc = Ledger.more bc' \<Longrightarrow> main_ok H bc \<longleftrightarrow> main_ok H bc'"
  by (intro main_ok_cong chain_frame)

lemma prevalidated_height:
  "prevalidate_miner_transaction cr c b height = Some True \<Longrightarrow> get_block_height b = height"
  by (drule prevalidated_inputs) (auto simp: get_block_height_def)

lemma block_id_hash: "block_id H e = block_hash H (be_bl e)"
  by (simp add: block_id_def block_hash_def)

lemma push_transactions_frame:
  "push_transactions cr F c now mh block pos sums hashes txs bc = Some res \<Longrightarrow>
    (case res of InvalidTransaction bc' \<Rightarrow> Ledger.more bc' = Ledger.more bc
     | Completed block' sums' bc' \<Rightarrow> Ledger.more bc' = Ledger.more bc \<and> be_bl block' = be_bl block
         \<and> be_height block' = be_height block)"
proof (induction txs arbitrary: block pos sums hashes bc)
  case (Cons tx txs)
  then obtain tx_id hashes' where hashes: "hashes = tx_id # hashes'" by (cases hashes) auto
  let ?H = "cn_fast_hash cr"
  let ?block = "block\<lparr>be_transactions := be_transactions block @ [\<lparr>te_tx = tx, te_global_output_indexes = []\<rparr>]\<rparr>"
  let ?ti = "\<lparr>ti_block = be_height block, ti_transaction = pos + 1\<rparr>"
  obtain blob fee inputs_ok p where
      eqs: "toBinaryArray out_Transaction tx = Some blob" "getTransactionFee_or_zero F c tx (be_height block) = Some fee"
        "checkTransactionInputs cr c now tx None bc = Some (inputs_ok, p)"
    using Cons.prems hashes by (auto split: option.splits)
  show ?case
  proof (cases "bh_majorVersion (be_bl block) = 1 \<and> 1 < tp_version tx \<or> \<not> inputs_ok
           \<or> \<not> check_tx_outputs cr c tx (be_height block)")
    case True
    then have "map_option InvalidTransaction (popTransactions ?H block mh bc) = Some res" using Cons.prems hashes eqs by auto
    then show ?thesis by (auto dest: popTransactions_more)
  next
    case False
    obtain pr block' bc' where push: "pushTransaction ?H ?block tx_id ?ti bc = (pr, block', bc')"
      by (cases "pushTransaction ?H ?block tx_id ?ti bc")
    obtain ok where ok: "pr = Some ok" using Cons.prems hashes eqs False push by (cases pr) (auto simp: Let_def)
    have blk: "be_bl block' = be_bl block" "be_height block' = be_height block"
      using push pushTransaction_block [of ?H ?block tx_id ?ti bc block' bc']
        push_failed_unchanged [of ?H ?block tx_id ?ti bc block' bc'] ok by (cases ok; simp)+
    obtain interest where "push_transactions cr F c now mh block' (pos + 1)
          \<lparr>bt_cumulative_size = bt_cumulative_size sums + of_nat (length blob),
           bt_fee_summary = bt_fee_summary sums + fee,
           bt_interestSummary = bt_interestSummary sums + interest\<rparr> hashes' txs bc' = Some res"
      using Cons.prems hashes eqs False push ok by (auto simp: Let_def split: option.splits)
    from Cons.IH [OF this] show ?thesis using blk pushTransaction_more [OF push [unfolded ok]] by (simp split: loop_result.splits)
  qed
qed auto

text \<open>A refused block changes at most the containers of the transactions; an added one is appended.\<close>

lemma pushBlock_main:
  assumes push: "pushBlock cr F c now b txs (block_hash (cn_fast_hash cr) b) bvc bc = Some (r, bvc', bc')"
    and ok: "main_ok (cn_fast_hash cr) bc"
  obtains (refused) "\<not> r" and "Ledger.more bc' = Ledger.more bc"
  | (added) blk where "r" and "be_bl blk = b" and "m_blocks bc' = m_blocks bc @ [blk]"
      and "main_ok (cn_fast_hash cr) bc'" and "m_checkpoints bc' = m_checkpoints bc" and "bv_added_to_main_chain bvc'"
proof -
  let ?H = "cn_fast_hash cr"
  let ?mh = "miner_hash ?H b"
  let ?ti = "\<lparr>ti_block = be_height (initial_entry b bc), ti_transaction = 0\<rparr> :: TransactionIndex"
  obtain x bvc1 where header: "check_block_header cr c now b (block_hash ?H b) bvc bc = Some (x, bvc1)"
    using push by (cases "check_block_header cr c now b (block_hash ?H b) bvc bc") (auto simp: pushBlock_def)
  show thesis
  proof (cases x)
    case None
    then show thesis using push header refused by (simp add: pushBlock_def)
  next
    case (Some d)
    note hd = header_prevalidated [OF header [unfolded Some]]
    obtain pr block0 bc0 where p0: "pushTransaction ?H (initial_entry b bc) ?mh ?ti bc = (pr, block0, bc0)"
      by (cases "pushTransaction ?H (initial_entry b bc) ?mh ?ti bc")
    obtain pr' where pr: "pr = Some pr'" using push header Some p0 by (cases pr) (simp_all add: pushBlock_def Let_def)
    have "be_bl block0 = be_bl (initial_entry b bc) \<and> be_height block0 = be_height (initial_entry b bc)"
    proof (cases pr')
      case True
      then have "pr = Some True" using pr by simp
      from pushTransaction_block [OF p0 [unfolded this]] show ?thesis by simp
    next
      case False
      then have "pr = Some False" using pr by simp
      from push_failed_unchanged [OF p0 [unfolded this]] show ?thesis by simp
    qed
    then have b0: "be_bl block0 = b" "be_height block0 = of_nat (length (m_blocks bc))" by (simp_all add: initial_entry_def)
    note more0 = pushTransaction_more [OF p0 [unfolded pr]]
    obtain res where loop: "push_transactions cr F c now ?mh block0 0 (initial_totals b) (bl_transactionHashes b) txs bc0 = Some res"
      using push header Some p0 pr
      by (cases "push_transactions cr F c now ?mh block0 0 (initial_totals b) (bl_transactionHashes b) txs bc0")
        (simp_all add: pushBlock_def Let_def)
    note frame = push_transactions_frame [OF loop]
    show thesis
    proof (cases res)
      case (InvalidTransaction bc2)
      then have "bc' = bc2 \<and> \<not> r" using push header Some p0 pr loop by (simp add: pushBlock_def Let_def)
      then show thesis using frame more0 refused InvalidTransaction by simp
    next
      case (Completed block sums bc1)
      then have complete: "complete_block cr c b d ?mh bvc1 block sums bc1 = Some (r, bvc', bc')"
        using push header Some p0 pr loop by (simp add: pushBlock_def Let_def)
      have more1: "Ledger.more bc1 = Ledger.more bc" and blk: "be_bl block = b" "be_height block = of_nat (length (m_blocks bc))"
        using frame more0 b0 Completed by simp_all
      from complete show thesis
      proof (cases rule: complete_block_cases)
        case oversized
        show thesis by (rule refused) (use oversized more1 in simp_all)
      next
        case miner: refused
        show thesis by (rule refused) (use miner popTransactions_more [OF miner(2)] more1 in simp_all)
      next
        case (added e)
        note old = chain_frame [OF more1]
        from added(3) obtain blk where blk': "be_bl blk = b" "be_height blk = of_nat (length (m_blocks bc))"
          "m_blocks bc' = m_blocks bc @ [blk]"
          "m_blockIndex bc' = snd (BlockIndex_push (block_hash ?H b) (m_blockIndex bc))"
          "m_checkpoints bc' = m_checkpoints bc"
          by (rule finish_block_ok) (simp add: blk old block_hash_def)
        have idx: "m_blockIndex bc' = m_blockIndex bc @ [block_hash ?H b]" "block_hash ?H b \<notin> set (m_blockIndex bc)"
          using blk'(4) hd by (simp_all add: BlockIndex_push_def hasBlock_def)
        have prev: "bh_previousBlockHash b = (if m_blocks bc = [] then 0 else block_id ?H (last (m_blocks bc)))"
          using hd ok by (auto simp: main_ok_def Blockchain_getTailId_def BlockIndex_getTailId_def last_map)
        have "linked ?H (m_blocks bc')"
          using ok linked_snoc [of ?H "m_blocks bc" blk] blk'(1-3) prev by (simp add: main_ok_def)
        moreover have "get_block_height b = of_nat (length (m_blocks bc))" using prevalidated_height hd by blast
        moreover have "m_blockIndex bc = map (block_id ?H) (m_blocks bc)" using ok by (simp add: main_ok_def)
        ultimately have "main_ok ?H bc'"
          using ok idx blk'(1-3) unfolding main_ok_def by (auto simp: block_id_hash)
        then show thesis using that(2) [of blk] blk' added by simp
      qed
    qed
  qed
qed

lemma pop_containers_index:
  assumes "pop_containers H h bc = Some bc1"
  shows "m_blocks bc1 = m_blocks bc \<and> m_blockIndex bc1 = m_blockIndex bc \<and> m_checkpoints bc1 = m_checkpoints bc"
proof -
  obtain bc0 where "popTransactions H (last (m_blocks bc)) (miner_hash H (be_bl (last (m_blocks bc)))) bc = Some bc0"
    and eq: "m_blocks bc1 = m_blocks bc0 \<and> m_blockIndex bc1 = m_blockIndex bc0 \<and> m_checkpoints bc1 = m_checkpoints bc0"
    using assms by (auto simp: pop_containers_def Let_def split: option.splits)
  from chain_frame [OF popTransactions_more [OF this(1)]] eq show ?thesis by simp
qed

lemma pop_last_block_index:
  "pop_last_block bc = Some bc' \<Longrightarrow> m_blocks bc' = butlast (m_blocks bc) \<and> m_blockIndex bc' = butlast (m_blockIndex bc)
    \<and> m_checkpoints bc' = m_checkpoints bc"
  by (auto simp: pop_last_block_def BlockIndex_pop_def Let_def split: option.splits if_splits)

lemma butlast_main:
  "main_ok H bc \<Longrightarrow> m_blocks bc' = butlast (m_blocks bc) \<Longrightarrow> m_blockIndex bc' = butlast (m_blockIndex bc) \<Longrightarrow> main_ok H bc'"
  by (simp add: main_ok_def linked_def nth_butlast map_butlast distinct_butlast list_all_iff in_set_butlastD)

lemma popBlock_main:
  assumes pop: "popBlock add_tx H c h (bc, pool) = Some (bc', pool')" and ok: "main_ok H bc"
  shows "m_blocks bc' = butlast (m_blocks bc)" and "main_ok H bc'" and "m_checkpoints bc' = m_checkpoints bc"
proof -
  have eq: "m_blocks bc' = butlast (m_blocks bc) \<and> m_blockIndex bc' = butlast (m_blockIndex bc) \<and> m_checkpoints bc' = m_checkpoints bc"
  proof (cases "m_blocks bc = []")
    case True
    then show ?thesis using pop ok by (simp add: popBlock_def main_ok_def)
  next
    case False
    then obtain bc1 d bc2 where 1: "pop_containers H h bc = Some bc1"
      and 2: "pop_last_block (bc1\<lparr>m_depositIndex := d\<rparr>) = Some bc2"
      and 3: "update_detectors (blockPopped c (chain_versions bc2)) bc2 = Some bc'"
      using pop by (auto simp: popBlock_def Let_def split: option.splits if_splits)
    have "m_blocks bc' = m_blocks bc2 \<and> m_blockIndex bc' = m_blockIndex bc2 \<and> m_checkpoints bc' = m_checkpoints bc2"
      using 3 by (rule update_detectors_cases) simp
    then show ?thesis using pop_containers_index [OF 1] pop_last_block_index [OF 2] by simp
  qed
  then show "m_blocks bc' = butlast (m_blocks bc)" and "m_checkpoints bc' = m_checkpoints bc" by blast+
  show "main_ok H bc'" using butlast_main [OF ok] eq by blast
qed

lemma pushBlock_pool_main:
  assumes push: "pushBlock_pool add_tx take_tx cr F c now b (block_hash (cn_fast_hash cr) b) bvc height (bc, pool)
      = Some (r, bvc', bc', pool')"
    and ok: "main_ok (cn_fast_hash cr) bc"
  obtains (refused) "\<not> r" and "Ledger.more bc' = Ledger.more bc"
  | (added) blk where "r" and "be_bl blk = b" and "m_blocks bc' = m_blocks bc @ [blk]"
      and "main_ok (cn_fast_hash cr) bc'" and "m_checkpoints bc' = m_checkpoints bc" and "bv_added_to_main_chain bvc'"
proof -
  let ?h = "block_hash (cn_fast_hash cr) b"
  obtain loaded pool1 where load: "loadTransactions add_tx take_tx b height bc pool = Some (loaded, pool1)"
    using push by (cases "loadTransactions add_tx take_tx b height bc pool") (auto simp: pushBlock_pool_def)
  show thesis
  proof (cases loaded)
    case None
    then show thesis using push load refused by (simp add: pushBlock_pool_def)
  next
    case (Some txs)
    obtain r1 bvc1 bc1 where p: "pushBlock cr F c now b txs ?h bvc bc = Some (r1, bvc1, bc1)"
      using push load Some by (cases "pushBlock cr F c now b txs ?h bvc bc") (auto simp: pushBlock_pool_def)
    then have eq: "r = r1 \<and> bvc' = bvc1 \<and> bc' = bc1"
      using push load Some by (cases r1) (auto simp: pushBlock_pool_def)
    from p ok show thesis by (rule pushBlock_main) (use eq refused added in auto)
  qed
qed

section \<open>Chains of blocks\<close>

text \<open>The two states differ in the main chain only.\<close>

definition same_alternatives :: "Storage \<Rightarrow> Storage \<Rightarrow> bool" where
  "same_alternatives s s' \<longleftrightarrow> m_alternative_chains s' = m_alternative_chains s \<and> m_orthanBlocksIndex s' = m_orthanBlocksIndex s
    \<and> m_checkpoints (st_main s') = m_checkpoints (st_main s)"

lemma disconnect_chain_main:
  assumes "disconnect_chain env n acc (s, pool) = Some (disconnected, s', pool')"
    and "main_ok (ne_hash env) (st_main s)" and "n \<le> length (m_blocks (st_main s))"
  shows "disconnected = map be_bl (drop (length (m_blocks (st_main s)) - n) (m_blocks (st_main s))) @ acc
    \<and> m_blocks (st_main s') = take (length (m_blocks (st_main s)) - n) (m_blocks (st_main s))
    \<and> main_ok (ne_hash env) (st_main s') \<and> same_alternatives s s'"
  using assms
proof (induction n arbitrary: acc s pool)
  case 0
  then show ?case by (simp add: same_alternatives_def)
next
  case (Suc n)
  let ?main = "st_main s"
  let ?k = "length (m_blocks ?main) - Suc n"
  let ?b = "be_bl (last (m_blocks ?main))"
  obtain main1 pool1 where pop: "popBlock (ne_add_tx env) (ne_hash env) (ne_currency env) (block_hash (ne_hash env) ?b) (?main, pool)
      = Some (main1, pool1)"
    and rest: "disconnect_chain env n (?b # acc) (s\<lparr>st_main := main1\<rparr>, pool1) = Some (disconnected, s', pool')"
    using Suc.prems(1) by (auto simp: Let_def split: option.splits)
  note p = popBlock_main [OF pop Suc.prems(2)]
  have len: "length (m_blocks main1) = length (m_blocks ?main) - 1" using p(1) by simp
  note IH = Suc.IH [OF rest] p len
  have ne: "m_blocks ?main \<noteq> []" using Suc.prems(3) by auto
  have split: "m_blocks ?main = m_blocks main1 @ [last (m_blocks ?main)]" using ne p(1) by simp
  have "drop ?k (m_blocks ?main) = drop ?k (m_blocks main1) @ [last (m_blocks ?main)]"
    using Suc.prems(3) len by (subst split) simp
  moreover have "take ?k (m_blocks ?main) = take ?k (m_blocks main1)"
    using Suc.prems(3) len by (subst split) simp
  moreover have "length (m_blocks main1) - n = ?k" using len by simp
  ultimately show ?case using IH Suc.prems(3) by (simp add: same_alternatives_def)
qed

lemma connect_chain_main:
  assumes "connect_chain env height blocks (s, pool) = Some (rest, s', pool')" and "main_ok (ne_hash env) (st_main s)"
  shows "\<exists>new. m_blocks (st_main s') = m_blocks (st_main s) @ new \<and> blocks = map be_bl new @ rest
    \<and> main_ok (ne_hash env) (st_main s') \<and> same_alternatives s s'"
  using assms
proof (induction blocks arbitrary: height s pool)
  case Nil
  then show ?case by (simp add: same_alternatives_def)
next
  case (Cons b blocks)
  obtain r bvc main1 pool1 where push: "pushBlock_pool (ne_add_tx env) (ne_take_tx env) (ne_crypto env) (ne_floats env)
        (ne_currency env) (ne_now env) b (block_hash (ne_hash env) b) bvc_initial (height + 1) (st_main s, pool)
      = Some (r, bvc, main1, pool1)"
    and next_step: "(if \<not> (r \<and> bv_added_to_main_chain bvc) then Some (b # blocks, s\<lparr>st_main := main1\<rparr>, pool1)
      else connect_chain env (height + 1) blocks (s\<lparr>st_main := main1\<rparr>, pool1)) = Some (rest, s', pool')"
    using Cons.prems(1) by (auto simp: Let_def split: option.splits)
  from push Cons.prems(2) show ?case
  proof (cases rule: pushBlock_pool_main)
    case refused
    then show ?thesis
      using next_step Cons.prems(2) chain_frame [OF refused(2)] main_ok_more [OF refused(2)] by (auto simp: same_alternatives_def)
  next
    case (added blk)
    then obtain new where "m_blocks (st_main s') = m_blocks main1 @ new \<and> blocks = map be_bl new @ rest
        \<and> main_ok (ne_hash env) (st_main s') \<and> same_alternatives (s\<lparr>st_main := main1\<rparr>) s'"
      using next_step Cons.IH [of "height + 1" "s\<lparr>st_main := main1\<rparr>" pool1] by auto
    then show ?thesis using added by (intro exI [of _ "blk # new"]) (auto simp: same_alternatives_def)
  qed
qed

lemma rollback_main:
  assumes "rollback_blockchain_switching env original height (s, pool) = Some (r, s', pool')"
    and "main_ok (ne_hash env) (st_main s)"
  shows "\<exists>new rest. m_blocks (st_main s') = take height (m_blocks (st_main s)) @ new \<and> original = map be_bl new @ rest
    \<and> (r \<longleftrightarrow> rest = []) \<and> main_ok (ne_hash env) (st_main s') \<and> same_alternatives s s'"
proof -
  let ?n = "length (m_blocks (st_main s))"
  obtain popped s1 pool1 rest where d: "disconnect_chain env (?n - height) [] (s, pool) = Some (popped, s1, pool1)"
    and c: "connect_chain env (of_nat height - 1) original (s1, pool1) = Some (rest, s', pool')" and r: "r \<longleftrightarrow> rest = []"
    using assms(1) by (auto simp: rollback_blockchain_switching_def Let_def split: if_splits option.splits)
  note d' = disconnect_chain_main [OF d assms(2)]
  have "take (?n - (?n - height)) (m_blocks (st_main s)) = take height (m_blocks (st_main s))" by (cases "height \<le> ?n") simp_all
  with connect_chain_main [OF c] d' r show ?thesis by (fastforce simp: same_alternatives_def)
qed

section \<open>Reorganisations\<close>

definition alternatives_ok :: "(u8 list \<Rightarrow> Hash) \<Rightarrow> (Hash \<rightharpoonup> BlockEntry) \<Rightarrow> bool" where
  "alternatives_ok H alts \<longleftrightarrow> (\<forall>h e. alts h = Some e \<longrightarrow>
    block_hash H (be_bl e) = h \<and> get_block_height (be_bl e) = be_height e \<and> be_height e \<noteq> 0)"

definition storage_ok :: "(u8 list \<Rightarrow> Hash) \<Rightarrow> Storage \<Rightarrow> bool" where
  "storage_ok H s \<longleftrightarrow> main_ok H (st_main s) \<and> alternatives_ok H (m_alternative_chains s)"

lemma drop_alternatives_main:
  "drop_alternatives H hs s = Some s' \<Longrightarrow>
    st_main s' = st_main s \<and> (\<forall>h. m_alternative_chains s' h = (if h \<in> set hs then None else m_alternative_chains s h))"
proof (induction hs arbitrary: s)
  case (Cons h hs)
  then obtain e index x where "drop_alternatives H hs
      (s\<lparr>m_orthanBlocksIndex := index, m_alternative_chains := (m_alternative_chains s)(h := None)\<rparr>) = Some s'"
    by (auto split: option.splits)
  from Cons.IH [OF this] show ?case by auto
qed simp

lemma drop_alternatives_ok: "drop_alternatives H hs s = Some s' \<Longrightarrow> storage_ok H' s \<Longrightarrow> storage_ok H' s'"
  by (drule drop_alternatives_main) (auto simp: storage_ok_def alternatives_ok_def)

lemma same_alternatives_ok: "same_alternatives s s' \<Longrightarrow> main_ok H (st_main s') \<Longrightarrow> storage_ok H s \<Longrightarrow> storage_ok H s'"
  by (simp add: same_alternatives_def storage_ok_def)

text \<open>The contract of the recursive call: it keeps the invariant on blocks with their own hash.\<close>

definition keeps_ok ::
    "(u8 list \<Rightarrow> Hash) \<Rightarrow> (Block \<Rightarrow> Hash \<Rightarrow> block_verification_context \<Rightarrow> Storage \<times> 'pool \<Rightarrow>
        (bool \<times> block_verification_context \<times> Storage \<times> 'pool) option) \<Rightarrow> bool" where
  "keeps_ok H handle \<longleftrightarrow> (\<forall>b bvc s pool r bvc' s' pool'.
    handle b (block_hash H b) bvc (s, pool) = Some (r, bvc', s', pool') \<longrightarrow> storage_ok H s \<longrightarrow> storage_ok H s')"

lemma store_old_chain_ok:
  assumes "store_old_chain handle H blocks sp = Some (r, s', pool')" and "keeps_ok H handle" and "storage_ok H (fst sp)"
  shows "storage_ok H s'"
  using assms
proof (induction blocks arbitrary: sp)
  case (Cons b blocks)
  obtain r1 bvc1 s1 pool1 where h: "handle b (block_hash H b) bvc_initial sp = Some (r1, bvc1, s1, pool1)"
    and rest: "(if \<not> r1 then Some (False, s1, pool1) else store_old_chain handle H blocks (s1, pool1)) = Some (r, s', pool')"
    using Cons.prems(1) by (auto split: option.splits)
  have "storage_ok H s1" using h Cons.prems(2,3) unfolding keeps_ok_def by (cases sp) fastforce
  then show ?case using rest Cons.IH [of "(s1, pool1)"] Cons.prems(2) by (cases r1) auto
qed auto

lemma rollback_ok:
  "rollback_blockchain_switching env original height (s, pool) = Some (r, s', pool') \<Longrightarrow>
    storage_ok (ne_hash env) s \<Longrightarrow> storage_ok (ne_hash env) s'"
  using rollback_main [of env original height s pool r s' pool'] same_alternatives_ok
  by (fastforce simp: storage_ok_def)

lemma those_map_Some: "those (map f xs) = Some ys \<longleftrightarrow> list_all2 (\<lambda>x y. f x = Some y) xs ys"
  by (induction xs arbitrary: ys) (auto simp: list_all2_Cons1 split: option.splits)

text \<open>The course of a switch after its checks.\<close>

lemma switch_cases:
  assumes "switch_to_alternative_blockchain handle env alt_chain discard (s, pool) = Some (r, s', pool')"
  obtains (refused) "\<not> r" and "s' = s" and "pool' = pool"
  | (switched) entries disconnected s1 pool1 rest s2 pool2 where
      "those (map (m_alternative_chains s) alt_chain) = Some entries" and "entries \<noteq> []"
    and "unat (be_height (hd entries)) < length (m_blocks (st_main s))" and "be_height (hd entries) \<noteq> 0"
    and "keeps_transactions (drop (unat (be_height (hd entries))) (m_blocks (st_main s))) entries"
    and "disconnect_chain env (length (m_blocks (st_main s)) - unat (be_height (hd entries))) [] (s, pool)
      = Some (disconnected, s1, pool1)"
    and "connect_chain env (be_height (hd entries) - 1) (map be_bl entries) (s1, pool1) = Some (rest, s2, pool2)"
    and "if rest \<noteq> [] then \<not> r \<and> (\<exists>x s3. rollback_blockchain_switching env disconnected (unat (be_height (hd entries))) (s2, pool2)
            = Some (x, s3, pool') \<and> drop_alternatives (ne_hash env) (drop (length alt_chain - length rest) alt_chain) s3 = Some s')
      else \<exists>stored s3 pool3. (if discard then Some (True, s2, pool2) else store_old_chain handle (ne_hash env) disconnected (s2, pool2))
            = Some (stored, s3, pool3)
          \<and> (if stored then r \<and> pool' = pool3 \<and> drop_alternatives (ne_hash env) alt_chain s3 = Some s'
             else \<not> r \<and> (\<exists>x. rollback_blockchain_switching env disconnected (unat (be_height (hd entries))) (s3, pool3)
               = Some (x, s', pool')))"
proof (cases "alt_chain = []")
  case True
  then show thesis using assms refused by (simp add: switch_to_alternative_blockchain_def)
next
  case False
  obtain entries where e: "those (map (m_alternative_chains s) alt_chain) = Some entries"
    using assms False by (auto simp: switch_to_alternative_blockchain_def split: option.splits)
  then have ne: "entries \<noteq> []" using False by (auto simp: those_map_Some)
  let ?split = "be_height (hd entries)"
  let ?n = "length (m_blocks (st_main s))"
  show thesis
  proof (cases "unat ?split < ?n \<and> keeps_transactions (drop (unat ?split) (m_blocks (st_main s))) entries
      \<and> list_all (\<lambda>e. checkBlockVersion (ne_currency env) (be_bl e) (st_main s)) entries")
    case False
    then show thesis using assms \<open>alt_chain \<noteq> []\<close> e refused
      by (auto simp: switch_to_alternative_blockchain_def Let_def split: if_splits)
  next
    case checks: True
    then have z: "?split \<noteq> 0" using assms False e by (auto simp: switch_to_alternative_blockchain_def Let_def)
    obtain disconnected s1 pool1 where d: "disconnect_chain env (?n - unat ?split) [] (s, pool) = Some (disconnected, s1, pool1)"
      using assms False e checks z by (auto simp: switch_to_alternative_blockchain_def Let_def split: option.splits)
    obtain rest s2 pool2 where c: "connect_chain env (?split - 1) (map be_bl entries) (s1, pool1) = Some (rest, s2, pool2)"
      using assms False e checks z d by (auto simp: switch_to_alternative_blockchain_def Let_def split: option.splits)
    show thesis
    proof (rule switched [OF e ne _ z _ d c])
      show "if rest \<noteq> [] then \<not> r \<and> (\<exists>x s3. rollback_blockchain_switching env disconnected (unat ?split) (s2, pool2)
            = Some (x, s3, pool') \<and> drop_alternatives (ne_hash env) (drop (length alt_chain - length rest) alt_chain) s3 = Some s')
        else \<exists>stored s3 pool3. (if discard then Some (True, s2, pool2) else store_old_chain handle (ne_hash env) disconnected (s2, pool2))
            = Some (stored, s3, pool3)
          \<and> (if stored then r \<and> pool' = pool3 \<and> drop_alternatives (ne_hash env) alt_chain s3 = Some s'
             else \<not> r \<and> (\<exists>x. rollback_blockchain_switching env disconnected (unat ?split) (s3, pool3) = Some (x, s', pool')))"
      proof (cases "rest = []")
        case True
        let ?stored = "if discard then Some (True, s2, pool2) else store_old_chain handle (ne_hash env) disconnected (s2, pool2)"
        have eq: "(case ?stored of
            None \<Rightarrow> None
          | Some (False, sp) \<Rightarrow>
              map_option (\<lambda>(_, sp). (False, sp)) (rollback_blockchain_switching env disconnected (unat ?split) sp)
          | Some (True, s, pool) \<Rightarrow> map_option (\<lambda>s. (True, s, pool)) (drop_alternatives (ne_hash env) alt_chain s))
          = Some (r, s', pool')"
          using assms False e checks z d c True by (simp add: switch_to_alternative_blockchain_def Let_def)
        then obtain stored s3 pool3 where st: "?stored = Some (stored, s3, pool3)" by (cases ?stored) auto
        then have "if stored then r \<and> pool' = pool3 \<and> drop_alternatives (ne_hash env) alt_chain s3 = Some s'
             else \<not> r \<and> (\<exists>x. rollback_blockchain_switching env disconnected (unat ?split) (s3, pool3) = Some (x, s', pool'))"
          using eq unfolding st by (cases stored) auto
        then show ?thesis using True st by auto
      next
        case rest: False
        then show ?thesis using assms False e checks z d c
          by (auto simp: switch_to_alternative_blockchain_def Let_def split: option.splits)
      qed
    qed (use checks in simp_all)
  qed
qed

lemma switch_ok:
  assumes switch: "switch_to_alternative_blockchain handle env alt_chain discard (s, pool) = Some (r, s', pool')"
    and keeps: "keeps_ok (ne_hash env) handle" and ok: "storage_ok (ne_hash env) s"
  shows "storage_ok (ne_hash env) s'"
  using switch
proof (cases rule: switch_cases)
  case refused
  then show ?thesis using ok by simp
next
  case (switched entries disconnected s1 pool1 rest s2 pool2)
  have "main_ok (ne_hash env) (st_main s)" using ok by (simp add: storage_ok_def)
  then have "storage_ok (ne_hash env) s1" using disconnect_chain_main [OF switched(6)] ok by (auto intro: same_alternatives_ok)
  then have ok2: "storage_ok (ne_hash env) s2"
    using connect_chain_main [OF switched(7)] same_alternatives_ok [of s1 s2] storage_ok_def by blast
  show ?thesis
  proof (cases "rest = []")
    case False
    then obtain x s3 where back_out: "rollback_blockchain_switching env disconnected (unat (be_height (hd entries))) (s2, pool2) = Some (x, s3, pool')"
      and dropped: "drop_alternatives (ne_hash env) (drop (length alt_chain - length rest) alt_chain) s3 = Some s'"
      using switched(8) by auto
    show ?thesis by (rule drop_alternatives_ok [OF dropped rollback_ok [OF back_out ok2]])
  next
    case True
    then obtain stored s3 pool3 where
        st: "(if discard then Some (True, s2, pool2) else store_old_chain handle (ne_hash env) disconnected (s2, pool2)) = Some (stored, s3, pool3)"
      and fin: "if stored then r \<and> pool' = pool3 \<and> drop_alternatives (ne_hash env) alt_chain s3 = Some s'
             else \<not> r \<and> (\<exists>x. rollback_blockchain_switching env disconnected (unat (be_height (hd entries))) (s3, pool3)
               = Some (x, s', pool'))"
      using switched(8) by auto
    have "storage_ok (ne_hash env) s3"
      using st ok2 store_old_chain_ok [OF _ keeps, of disconnected "(s2, pool2)" stored s3 pool3] by (cases discard) auto
    then show ?thesis using fin rollback_ok drop_alternatives_ok by (cases stored) auto
  qed
qed

lemma add_alternative_added:
  assumes "add_alternative env b h bvc s = Some (Inr (alt_chain, bei, is_a_checkpoint, s'))"
  obtains chain timestamps parent_height parent_difficulty d index all_timestamps where
      "alt_chain_loop (m_alternative_chains s) (bh_previousBlockHash b) [] [] = Some (chain, timestamps)"
    and "alt_chain = chain @ [h]"
    and "alternative_parent b s = Some (parent_height, parent_difficulty)"
    and "check_block (parent_height + 1) h (m_checkpoints (st_main s)) = (True, is_a_checkpoint)"
    and "get_next_difficulty_for_alternative_chain (ne_currency env) chain (parent_height + 1) s = Some d" and "d \<noteq> 0"
    and "snd (checkProofOfWork (get_block_longhash (ne_hash env) (cn_slow_hash (ne_crypto env))) b d)"
    and "prevalidate_miner_transaction (ne_crypto env) (ne_currency env) b (parent_height + 1) = Some True"
    and "bei = \<lparr>be_bl = b, be_height = parent_height + 1, be_block_cumulative_size = 0,
      be_cumulative_difficulty = parent_difficulty + d, be_already_generated_coins = 0, be_transactions = []\<rparr>"
    and "m_alternative_chains s h = None"
    and "s' = s\<lparr>m_alternative_chains := (m_alternative_chains s)(h \<mapsto> bei), m_orthanBlocksIndex := index\<rparr>"
    and "connection_timestamps (ne_hash env) (ne_currency env) chain timestamps b s = Some (Some all_timestamps)"
    and "check_block_timestamp (ne_currency env) all_timestamps b"
    and "\<not> (getMergeMiningTagFromExtra (tp_extra (bl_baseTransaction b)) \<noteq> None \<and> UPGRADE_HEIGHT_V6 \<le> ucast (parent_height + 1))"
proof -
  obtain chain timestamps where 1: "alt_chain_loop (m_alternative_chains s) (bh_previousBlockHash b) [] [] = Some (chain, timestamps)"
    using assms by (auto simp: add_alternative_def Let_def split: option.splits)
  obtain ts where 2: "connection_timestamps (ne_hash env) (ne_currency env) chain timestamps b s = Some (Some ts)"
    "check_block_timestamp (ne_currency env) ts b"
    using assms 1 by (auto simp: add_alternative_def Let_def split: option.splits if_splits)
  obtain ph pd where 3: "alternative_parent b s = Some (ph, pd)"
    using assms 1 2 by (auto simp: add_alternative_def Let_def split: option.splits)
  obtain cp where 4: "check_block (ph + 1) h (m_checkpoints (st_main s)) = (True, cp)"
    using assms 1 2 3 by (cases "check_block (ph + 1) h (m_checkpoints (st_main s))")
      (auto simp: add_alternative_def Let_def split: if_splits)
  obtain d where 5: "get_next_difficulty_for_alternative_chain (ne_currency env) chain (ph + 1) s = Some d" "d \<noteq> 0"
    "snd (checkProofOfWork (get_block_longhash (ne_hash env) (cn_slow_hash (ne_crypto env))) b d)"
    using assms 1 2 3 4 by (auto simp: add_alternative_def Let_def split: if_splits option.splits)
  have merge: "\<not> (getMergeMiningTagFromExtra (tp_extra (bl_baseTransaction b)) \<noteq> None \<and> UPGRADE_HEIGHT_V6 \<le> ucast (ph + 1))"
    using assms 1 2 3 4 by (auto simp: add_alternative_def Let_def split: if_splits)
  have 6: "prevalidate_miner_transaction (ne_crypto env) (ne_currency env) b (ph + 1) = Some True"
    using assms 1 2 3 4 5 by (auto simp: add_alternative_def Let_def split: if_splits option.splits bool.splits)
  obtain index where 7: "OrphanBlocksIndex_add (ne_hash env) b (m_orthanBlocksIndex s) = Some index"
    using assms 1 2 3 4 5 6 by (auto simp: add_alternative_def Let_def split: if_splits)
  show thesis
    by (rule that [of chain timestamps ph pd d index ts, OF 1 _ 3 _ 5 6 _ _ _ 2 merge])
      (use assms 7 1 2 3 4 5 6 in \<open>auto simp: add_alternative_def Let_def split: if_splits\<close>)
qed

lemma fetch_checkpoints_sel [simp]:
  "m_blocks (st_main (fetch_checkpoints records s)) = m_blocks (st_main s)"
  "m_blockIndex (st_main (fetch_checkpoints records s)) = m_blockIndex (st_main s)"
  "m_alternative_chains (fetch_checkpoints records s) = m_alternative_chains s"
  "storage_ok H (fetch_checkpoints records s) \<longleftrightarrow> storage_ok H s"
  by (simp_all add: fetch_checkpoints_def storage_ok_def main_ok_def)

text \<open>What \<open>handle_alternative_block\<close> did: it kept both chains, or it stored the block, and then it may have switched.\<close>

lemma handle_cases:
  assumes "handle_alternative_block (Suc depth) env b h bvc (s, pool) = Some (r, bvc', s', pool')"
  obtains (kept) "s' = s \<or> s' = fetch_checkpoints (ne_dns env) s" and "pool' = pool"
  | (stored) alt_chain bei is_a_checkpoint s1 where "get_block_height b \<noteq> 0"
      and "add_alternative env b h bvc (fetch_checkpoints (ne_dns env) s) = Some (Inr (alt_chain, bei, is_a_checkpoint, s1))"
      and "if is_a_checkpoint \<or> be_cumulative_difficulty (last (m_blocks (st_main s))) < be_cumulative_difficulty bei
        then switch_to_alternative_blockchain (handle_alternative_block depth env) env alt_chain is_a_checkpoint (s1, pool)
          = Some (r, s', pool')
        else r \<and> s' = s1 \<and> pool' = pool"
proof -
  let ?s = "fetch_checkpoints (ne_dns env) s"
  let ?added = "add_alternative env b h bvc ?s"
  consider "s' = s \<or> s' = ?s" "pool' = pool"
    | (attempt) "get_block_height b \<noteq> 0"
      "(case ?added of
          None \<Rightarrow> None
        | Some (Inl bvc) \<Rightarrow> Some (False, bvc, ?s, pool)
        | Some (Inr (alt_chain, bei, is_a_checkpoint, s)) \<Rightarrow>
            if \<not> is_a_checkpoint \<and> m_blocks (st_main ?s) = [] then None
            else if is_a_checkpoint
              \<or> be_cumulative_difficulty (last (m_blocks (st_main ?s))) < be_cumulative_difficulty bei
            then map_option (\<lambda>(r, sp).
                (r, if r then bvc\<lparr>bv_added_to_main_chain := True, bv_switched_to_alt_chain := True\<rparr>
                    else bvc\<lparr>bv_verification_failed := True\<rparr>, sp))
              (switch_to_alternative_blockchain (handle_alternative_block depth env) env alt_chain is_a_checkpoint (s, pool))
            else Some (True, bvc, s, pool)) = Some (r, bvc', s', pool')"
    using assms by (simp add: Let_def split: if_splits option.splits bool.splits prod.splits)
  then show thesis
  proof cases
    case attempt
    then obtain x where x: "?added = Some x" by (cases ?added) auto
    show thesis
    proof (cases x)
      case (Inl bvc1)
      then show thesis using kept attempt x by auto
    next
      case (Inr y)
      obtain alt_chain bei cp s1 where y: "y = (alt_chain, bei, cp, s1)" by (cases y)
      show thesis
        by (rule stored [OF attempt(1) x [unfolded Inr y]]) (use attempt(2) x Inr y in \<open>auto split: if_splits\<close>)
    qed
  qed (use kept in blast)
qed

lemma add_alternative_ok:
  assumes "add_alternative env b (block_hash (ne_hash env) b) bvc s = Some (Inr (alt_chain, bei, is_a_checkpoint, s'))"
    and "storage_ok (ne_hash env) s" and "get_block_height b \<noteq> 0"
  shows "storage_ok (ne_hash env) s' \<and> st_main s' = st_main s"
  using assms(1)
proof (cases rule: add_alternative_added)
  case (1 chain timestamps parent_height parent_difficulty d index)
  then show ?thesis using assms(2,3) prevalidated_height [OF 1(8)] by (simp add: storage_ok_def alternatives_ok_def)
qed

text \<open>The bound on the depth only cuts off: a result stays the result for every greater bound.\<close>

lemma store_old_chain_mono:
  assumes "\<And>b h bvc sp. f b h bvc sp \<noteq> None \<Longrightarrow> g b h bvc sp = f b h bvc sp"
  shows "store_old_chain f H blocks sp \<noteq> None \<Longrightarrow> store_old_chain g H blocks sp = store_old_chain f H blocks sp"
proof (induction blocks arbitrary: sp)
  case (Cons b blocks)
  then obtain r bvc sp' where f: "f b (block_hash H b) bvc_initial sp = Some (r, bvc, sp')"
    by (cases "f b (block_hash H b) bvc_initial sp") auto
  then have "g b (block_hash H b) bvc_initial sp = Some (r, bvc, sp')" using assms [of b "block_hash H b" bvc_initial sp] by simp
  then show ?case using Cons.prems Cons.IH [of sp'] f by (cases r) simp_all
qed simp

lemma switch_mono:
  assumes "\<And>b h bvc sp. f b h bvc sp \<noteq> None \<Longrightarrow> g b h bvc sp = f b h bvc sp"
    and "switch_to_alternative_blockchain f env alt_chain discard (s, pool) \<noteq> None"
  shows "switch_to_alternative_blockchain g env alt_chain discard (s, pool)
    = switch_to_alternative_blockchain f env alt_chain discard (s, pool)"
proof (cases "those (map (m_alternative_chains s) alt_chain)")
  case (Some entries)
  let ?split = "unat (be_height (hd entries))"
  show ?thesis
  proof (cases "disconnect_chain env (length (m_blocks (st_main s)) - ?split) [] (s, pool)")
    case disconnected: (Some x)
    obtain blocks sp where x: "x = (blocks, sp)" by (cases x)
    show ?thesis
    proof (cases "connect_chain env (be_height (hd entries) - 1) (map be_bl entries) sp")
      case connected: (Some y)
      obtain rest sp' where y: "y = (rest, sp')" by (cases y)
      note eqs = Some disconnected connected x y
      show ?thesis
      proof (cases "store_old_chain f (ne_hash env) blocks sp'")
        case None
        then show ?thesis using assms(2) eqs by (simp add: switch_to_alternative_blockchain_def Let_def split: if_splits)
      next
        case (Some z)
        then have "store_old_chain g (ne_hash env) blocks sp' = store_old_chain f (ne_hash env) blocks sp'"
          using store_old_chain_mono [of f g "ne_hash env" blocks sp'] assms(1) by simp
        then show ?thesis using eqs by (simp add: switch_to_alternative_blockchain_def Let_def)
      qed
    qed (simp add: switch_to_alternative_blockchain_def Let_def Some disconnected x)
  qed (simp add: switch_to_alternative_blockchain_def Let_def Some)
qed (simp add: switch_to_alternative_blockchain_def)

lemma handle_Suc_depth:
  "handle_alternative_block depth env b h bvc sp \<noteq> None \<Longrightarrow>
    handle_alternative_block (Suc depth) env b h bvc sp = handle_alternative_block depth env b h bvc sp"
proof (induction depth arbitrary: b h bvc sp)
  case (Suc depth)
  obtain s pool where sp: "sp = (s, pool)" by (cases sp)
  note mono = switch_mono [of "handle_alternative_block depth env" "handle_alternative_block (Suc depth) env" env, OF Suc.IH]
  note unfold = handle_alternative_block.simps(2) sp Let_def
  show ?case
  proof (cases "add_alternative env b h bvc (fetch_checkpoints (ne_dns env) s)")
    case None
    show ?thesis unfolding unfold None option.case by (rule refl)
  next
    case (Some res)
    show ?thesis
    proof (cases res)
      case (Inl bvc')
      show ?thesis unfolding unfold Some Inl option.case sum.case by (rule refl)
    next
      case (Inr r)
      obtain alt_chain bei cp s1 where r: "r = (alt_chain, bei, cp, s1)" by (cases r)
      note cases = Some Inr r option.case sum.case prod.case
      have "switch_to_alternative_blockchain (handle_alternative_block depth env) env alt_chain cp (s1, pool) = None
          \<or> switch_to_alternative_blockchain (handle_alternative_block (Suc depth) env) env alt_chain cp (s1, pool)
            = switch_to_alternative_blockchain (handle_alternative_block depth env) env alt_chain cp (s1, pool)"
        using mono [of alt_chain cp s1 pool] by blast
      then show ?thesis
      proof
        assume none: "switch_to_alternative_blockchain (handle_alternative_block depth env) env alt_chain cp (s1, pool) = None"
        let ?size = "getBlockCumulativeSize (ne_find_tx env) b (st_main (fetch_checkpoints (ne_dns env) s)) pool"
        show ?thesis
        proof (cases ?size)
          case size: (Some n)
          obtain known n' where n: "n = (known, n')" by (cases n)
          show ?thesis
          proof (cases "checkCumulativeBlockSize (ne_currency env) n' (ucast (get_block_height b))")
            case fits: (Some y)
            show ?thesis using Suc.prems unfolding unfold cases none size n fits by (cases y; simp split: if_splits)
          qed (use Suc.prems in \<open>simp add: unfold size n split: if_splits\<close>)
        qed (use Suc.prems in \<open>simp add: unfold split: if_splits\<close>)
      next
        assume eq: "switch_to_alternative_blockchain (handle_alternative_block (Suc depth) env) env alt_chain cp (s1, pool)
            = switch_to_alternative_blockchain (handle_alternative_block depth env) env alt_chain cp (s1, pool)"
        show ?thesis unfolding unfold cases eq [unfolded unfold] eq by (rule refl)
      qed
    qed
  qed
qed simp

lemma handle_more_depth:
  assumes "handle_alternative_block depth env b h bvc sp = Some res" and "depth \<le> depth'"
  shows "handle_alternative_block depth' env b h bvc sp = Some res"
  using assms(2)
proof (induction depth' rule: dec_induct)
  case (step n)
  then show ?case using handle_Suc_depth [of n env b h bvc sp] by simp
qed (rule assms(1))

lemma handle_ok: "keeps_ok (ne_hash env) (handle_alternative_block depth env)"
proof (induction depth)
  case 0
  then show ?case by (simp add: keeps_ok_def)
next
  case (Suc depth)
  show ?case unfolding keeps_ok_def
  proof (intro allI impI)
    fix b bvc s pool r bvc' s' pool'
    assume h: "handle_alternative_block (Suc depth) env b (block_hash (ne_hash env) b) bvc (s, pool) = Some (r, bvc', s', pool')"
      and ok: "storage_ok (ne_hash env) s"
    from h show "storage_ok (ne_hash env) s'"
    proof (cases rule: handle_cases)
      case kept
      then show ?thesis using ok by auto
    next
      case (stored alt_chain bei is_a_checkpoint s1)
      have "storage_ok (ne_hash env) s1" using add_alternative_ok [OF stored(2) _ stored(1)] ok by simp
      then show ?thesis using stored(3) switch_ok [OF _ Suc] by (auto split: if_splits)
    qed
  qed
qed

text \<open>
  A switch that succeeds puts the alternative blocks on the block before the fork; one that fails leaves
  a part of the old chain and no alternative block. The recursive call may store blocks but not change
  the main chain.
\<close>

definition keeps_blocks ::
    "(Block \<Rightarrow> Hash \<Rightarrow> block_verification_context \<Rightarrow> Storage \<times> 'pool \<Rightarrow>
        (bool \<times> block_verification_context \<times> Storage \<times> 'pool) option) \<Rightarrow> bool" where
  "keeps_blocks handle \<longleftrightarrow> (\<forall>b h bvc sp r bvc' sp'. handle b h bvc sp = Some (r, bvc', sp') \<longrightarrow>
    m_blocks (st_main (fst sp')) = m_blocks (st_main (fst sp))
    \<and> m_blockIndex (st_main (fst sp')) = m_blockIndex (st_main (fst sp)))"

lemma store_old_chain_blocks:
  assumes "store_old_chain handle H blocks sp = Some (r, sp')" and "keeps_blocks handle"
  shows "m_blocks (st_main (fst sp')) = m_blocks (st_main (fst sp))
    \<and> m_blockIndex (st_main (fst sp')) = m_blockIndex (st_main (fst sp))"
  using assms
proof (induction blocks arbitrary: sp)
  case (Cons b blocks)
  obtain r1 bvc1 sp1 where h: "handle b (block_hash H b) bvc_initial sp = Some (r1, bvc1, sp1)"
    and rest: "(if \<not> r1 then Some (False, sp1) else store_old_chain handle H blocks sp1) = Some (r, sp')"
    using Cons.prems(1) by (auto split: option.splits)
  have "m_blocks (st_main (fst sp1)) = m_blocks (st_main (fst sp)) \<and> m_blockIndex (st_main (fst sp1)) = m_blockIndex (st_main (fst sp))"
    using h Cons.prems(2) unfolding keeps_blocks_def by blast
  then show ?case using rest Cons.IH [of sp1] Cons.prems(2) by (cases r1) auto
qed auto

lemma rolled_back_prefix:
  assumes "rollback_blockchain_switching env (map be_bl (drop n old)) n (s, pool) = Some (r, s', pool')"
    and "main_ok (ne_hash env) (st_main s)" and "m_blocks (st_main s) = take n old @ new" and "n \<le> length old"
  shows "prefix (map be_bl (m_blocks (st_main s'))) (map be_bl old)"
proof -
  obtain again rest where "m_blocks (st_main s') = take n (m_blocks (st_main s)) @ again"
    and "map be_bl (drop n old) = map be_bl again @ rest"
    using rollback_main [OF assms(1,2)] by blast
  moreover have "take n (m_blocks (st_main s)) = take n old" using assms(3,4) by simp
  moreover have "map be_bl old = map be_bl (take n old) @ map be_bl (drop n old)"
    by (metis append_take_drop_id map_append)
  ultimately show ?thesis by (simp add: prefix_def)
qed

lemma switch_blocks:
  assumes switch: "switch_to_alternative_blockchain handle env alt_chain discard (s, pool) = Some (r, s', pool')"
    and ok: "main_ok (ne_hash env) (st_main s)" and keeps: "discard \<or> keeps_blocks handle"
  shows "if r then \<exists>entries new. those (map (m_alternative_chains s) alt_chain) = Some entries
      \<and> m_blocks (st_main s') = take (unat (be_height (hd entries))) (m_blocks (st_main s)) @ new
      \<and> map be_bl new = map be_bl entries
      \<and> keeps_transactions (drop (unat (be_height (hd entries))) (m_blocks (st_main s))) entries
    else prefix (map be_bl (m_blocks (st_main s'))) (map be_bl (m_blocks (st_main s)))"
  using switch
proof (cases rule: switch_cases)
  case refused
  then show ?thesis by simp
next
  case (switched entries disconnected s1 pool1 rest s2 pool2)
  let ?old = "m_blocks (st_main s)"
  let ?n = "unat (be_height (hd entries))"
  have d: "disconnected = map be_bl (drop ?n ?old)" "m_blocks (st_main s1) = take ?n ?old" "main_ok (ne_hash env) (st_main s1)"
    using disconnect_chain_main [OF switched(6) ok] switched(3) by simp_all
  obtain new where new: "m_blocks (st_main s2) = take ?n ?old @ new" "map be_bl entries = map be_bl new @ rest"
      "main_ok (ne_hash env) (st_main s2)"
    using connect_chain_main [OF switched(7) d(3)] d(2) by auto
  show ?thesis
  proof (cases "rest = []")
    case False
    then obtain x s3 where "\<not> r" and out: "rollback_blockchain_switching env disconnected ?n (s2, pool2) = Some (x, s3, pool')"
      and dropped: "drop_alternatives (ne_hash env) (drop (length alt_chain - length rest) alt_chain) s3 = Some s'"
      using switched(8) by auto
    then show ?thesis
      using rolled_back_prefix [OF out [unfolded d(1)] new(3,1)] switched(3) drop_alternatives_main [OF dropped] by simp
  next
    case True
    then obtain stored s3 pool3 where
        st: "(if discard then Some (True, s2, pool2) else store_old_chain handle (ne_hash env) disconnected (s2, pool2)) = Some (stored, s3, pool3)"
      and fin: "if stored then r \<and> pool' = pool3 \<and> drop_alternatives (ne_hash env) alt_chain s3 = Some s'
             else \<not> r \<and> (\<exists>x. rollback_blockchain_switching env disconnected ?n (s3, pool3) = Some (x, s', pool'))"
      using switched(8) by auto
    have same: "m_blocks (st_main s3) = m_blocks (st_main s2)" "m_blockIndex (st_main s3) = m_blockIndex (st_main s2)"
      using st keeps store_old_chain_blocks [of handle "ne_hash env" disconnected "(s2, pool2)" stored "(s3, pool3)"]
      by (cases discard; simp)+
    show ?thesis
    proof (cases stored)
      case True
      then show ?thesis
        using fin drop_alternatives_main [of "ne_hash env" alt_chain s3 s'] same new switched(1,5) \<open>rest = []\<close> by auto
    next
      case False
      then obtain x where "\<not> r" and "rollback_blockchain_switching env disconnected ?n (s3, pool3) = Some (x, s', pool')"
        using fin by auto
      moreover have "main_ok (ne_hash env) (st_main s3)" using main_ok_cong [OF same] new(3) by blast
      ultimately show ?thesis
        using rolled_back_prefix [of env ?n ?old s3 pool3 x s' pool' new] same new(1) switched(3) d(1) by simp
    qed
  qed
qed

section \<open>New blocks\<close>

lemma addNewBlock_cases:
  assumes "addNewBlock depth env b bvc (s, pool) = Some (r, bvc', s', pool')"
  obtains (refused) "\<not> r" and "s' = s" and "pool' = pool"
  | (alternative) bvc1 where "handle_alternative_block depth env b (block_hash (ne_hash env) b) bvc1 (s, pool)
      = Some (r, bvc', s', pool')"
  | (tail) main where "pushBlock_pool (ne_add_tx env) (ne_take_tx env) (ne_crypto env) (ne_floats env) (ne_currency env)
      (ne_now env) b (block_hash (ne_hash env) b) bvc (of_nat (length (m_blocks (st_main s))) + 1) (st_main s, pool)
      = Some (r, bvc', main, pool')" and "s' = s\<lparr>st_main := main\<rparr>"
proof -
  obtain hashed where g: "get_block_hash (ne_hash env) b = (hashed, block_hash (ne_hash env) b)"
    by (cases "get_block_hash (ne_hash env) b") (simp add: block_hash_def)
  show thesis
  proof (cases "\<not> hashed \<or> haveBlock (block_hash (ne_hash env) b) s")
    case True
    then show thesis using assms g refused by (auto simp: addNewBlock_def Let_def split: if_splits)
  next
    case False
    then obtain tl where t: "Blockchain_getTailId (st_main s) = Some tl"
      using assms g by (auto simp: addNewBlock_def Let_def split: option.splits)
    show thesis
    proof (cases "bh_previousBlockHash b = tl")
      case True
      then obtain main where p: "pushBlock_pool (ne_add_tx env) (ne_take_tx env) (ne_crypto env) (ne_floats env) (ne_currency env)
          (ne_now env) b (block_hash (ne_hash env) b) bvc (of_nat (length (m_blocks (st_main s))) + 1) (st_main s, pool)
          = Some (r, bvc', main, pool')" and "s' = s\<lparr>st_main := main\<rparr>"
        using assms g t False by (auto simp: addNewBlock_def Let_def)
      then show thesis by (rule tail)
    next
      case alt: False
      then have "handle_alternative_block depth env b (block_hash (ne_hash env) b) (bvc\<lparr>bv_added_to_main_chain := False\<rparr>) (s, pool)
          = Some (r, bvc', s', pool')"
        using assms g t False by (simp add: addNewBlock_def Let_def)
      then show thesis by (rule alternative)
    qed
  qed
qed

lemma addNewBlock_ok:
  assumes "addNewBlock depth env b bvc (s, pool) = Some (r, bvc', s', pool')" and ok: "storage_ok (ne_hash env) s"
  shows "storage_ok (ne_hash env) s'"
  using assms(1)
proof (cases rule: addNewBlock_cases)
  case refused
  then show ?thesis using ok by simp
next
  case (alternative bvc1)
  then show ?thesis using handle_ok [of env depth, unfolded keeps_ok_def, rule_format] ok by simp
next
  case (tail main)
  have old: "main_ok (ne_hash env) (st_main s)" using ok by (simp add: storage_ok_def)
  from tail(1) old have "main_ok (ne_hash env) main"
  proof (cases rule: pushBlock_pool_main)
    case refused
    from main_ok_more [OF refused(2)] old show ?thesis by blast
  qed
  then show ?thesis using tail(2) ok by (simp add: storage_ok_def)
qed

lemma removeLastBlock_main:
  assumes "removeLastBlock H bc = Some (r, bc')" and ok: "main_ok H bc"
  shows "main_ok H bc'"
proof (cases "m_blocks bc = []")
  case True
  then show ?thesis using assms by (simp add: removeLastBlock_def)
next
  case False
  then obtain h bc1 where 1: "pop_containers H h bc = Some bc1" and 2: "pop_last_block bc1 = Some bc'"
    using assms by (auto simp: removeLastBlock_def split: option.splits)
  then show ?thesis using pop_containers_index [OF 1] pop_last_block_index [OF 2] butlast_main [OF ok] by simp
qed

lemma rollback_loop_main:
  assumes "rollback_loop H n bc = Some (r, bc')" and "main_ok H bc"
  shows "main_ok H bc'"
  using assms
proof (induction "length (m_blocks bc)" arbitrary: bc rule: less_induct)
  case less
  show ?case
  proof (cases "n < length (m_blocks bc)")
    case False
    then show ?thesis using less.prems by (simp add: rollback_loop.simps [of H n bc])
  next
    case True
    then obtain removed bc1 where 1: "removeLastBlock H bc = Some (removed, bc1)"
      and 2: "(if \<not> removed then Some (False, bc1) else rollback_loop H n bc1) = Some (r, bc')"
      using less.prems(1) by (auto simp: rollback_loop.simps [of H n bc] split: option.splits)
    have ok: "main_ok H bc1" using removeLastBlock_main [OF 1 less.prems(2)] .
    have "length (m_blocks bc1) < length (m_blocks bc)" using removeLastBlock_shorter [OF 1] True by simp
    then show ?thesis using less.hyps [OF _ _ ok] 2 ok by (cases removed) auto
  qed
qed

section \<open>Reachable storages\<close>

definition Storage_create :: "Checkpoints \<Rightarrow> Storage" where
  "Storage_create checkpoints = \<lparr>st_main = Blockchain_create checkpoints, m_alternative_chains = Map.empty,
    m_orthanBlocksIndex = {#}\<rparr>"

text \<open>
  The steps of a node: a new block at some time and with some answer of the DNS servers, a rollback, and
  any change of the pool between them.
\<close>

inductive storage_step :: "('f, 'pool) node_env \<Rightarrow> Storage \<times> 'pool \<Rightarrow> Storage \<times> 'pool \<Rightarrow> bool" for env where
  step_block: "addNewBlock depth (env\<lparr>ne_now := now, ne_dns := records\<rparr>) b bvc sp = Some (r, bvc', sp') \<Longrightarrow>
    storage_step env sp sp'"
| step_rollback: "rollbackBlockchainTo (ne_hash env) height (st_main s) = Some (r, main) \<Longrightarrow>
    storage_step env (s, pool) (s\<lparr>st_main := main\<rparr>, pool)"
| step_pool: "storage_step env (s, pool) (s, pool')"

lemma storage_step_ok:
  assumes "storage_step env sp sp'" and ok: "storage_ok (ne_hash env) (fst sp)"
  shows "storage_ok (ne_hash env) (fst sp')"
  using assms(1)
proof (cases rule: storage_step.cases)
  case (step_block depth records now b bvc r bvc')
  then show ?thesis
    using addNewBlock_ok [of depth "env\<lparr>ne_now := now, ne_dns := records\<rparr>" b bvc "fst sp" "snd sp" r bvc' "fst sp'" "snd sp'"] ok
    by simp
next
  case (step_rollback height s r main pool)
  then show ?thesis using ok rollback_loop_main [of "ne_hash env" "unat (height + 1)" "st_main s" r main]
    by (auto simp: rollbackBlockchainTo_def storage_ok_def split: if_splits)
qed (use ok in auto)

lemma create_ok: "storage_ok H (Storage_create cp)"
  by (simp add: storage_ok_def Storage_create_def Blockchain_create_def main_ok_def linked_def alternatives_ok_def)

lemma reachable_ok:
  assumes "(storage_step env)\<^sup>*\<^sup>* (Storage_create cp, pool0) sp"
  shows "storage_ok (ne_hash env) (fst sp)"
  using assms by (induction rule: rtranclp_induct) (auto intro: storage_step_ok simp: create_ok)
end
