(* ===== verification/Fork_Rules.thy ===== *)
theory Fork_Rules
  imports Fork_Choice
begin

text \<open>
  The rules a block has to pass before it changes the main chain, stated over the state of the chain: what
  \<open>pushBlock\<close> has checked of a block that it added to the tail, and what \<open>handle_alternative_block\<close> has
  checked of a block that it stored as an alternative block.
\<close>

section \<open>The rules\<close>

text \<open>A transaction of the block, checked on the ledger that the transactions before it leave.\<close>

definition transaction_rules :: "('f, 'pool) node_env \<Rightarrow> Block \<Rightarrow> u32 \<Rightarrow> Blockchain \<Rightarrow> Transaction \<Rightarrow> bool" where
  "transaction_rules env b height bc tx \<longleftrightarrow>
    \<not> (bh_majorVersion b = 1 \<and> 1 < tp_version tx)
    \<and> check_tx_outputs (ne_crypto env) (ne_currency env) tx height
    \<and> (\<exists>ledger p. Ledger.more ledger = Ledger.more bc
        \<and> checkTransactionInputs (ne_crypto env) (ne_currency env) (ne_now env) tx None ledger = Some (True, p))"

definition tail_rules :: "('f, 'pool) node_env \<Rightarrow> Blockchain \<Rightarrow> BlockEntry \<Rightarrow> bool" where
  "tail_rules env bc blk \<longleftrightarrow>
    (let c = ne_currency env; cr = ne_crypto env; H = ne_hash env; b = be_bl blk; h = block_hash H b;
         height = of_nat (length (m_blocks bc)) :: u32; txs = map te_tx (tl (be_transactions blk)) in
     h \<notin> set (m_blockIndex bc)
     \<and> bh_previousBlockHash b = (if m_blocks bc = [] then 0 else block_id H (last (m_blocks bc)))
     \<and> checkBlockVersion c b bc
     \<and> check_block_timestamp_main c (ne_now env) b bc
     \<and> prevalidate_miner_transaction cr c b height = Some True
     \<and> (\<exists>d. getDifficultyForNextBlock c bc = Some d \<and> d \<noteq> 0
         \<and> (if isInCheckpointZone height bc then check_block_simple height h (m_checkpoints bc)
            else snd (checkProofOfWork (get_block_longhash H (cn_slow_hash cr)) b d))
         \<and> be_cumulative_difficulty blk = d + (if m_blocks bc = [] then 0 else be_cumulative_difficulty (last (m_blocks bc))))
     \<and> be_height blk = height
     \<and> map te_tx (be_transactions blk) = bl_baseTransaction b # txs
     \<and> list_all (transaction_rules env b height bc) txs
     \<and> be_block_cumulative_size blk = block_size b txs
     \<and> checkCumulativeBlockSize c (block_size b txs) (ucast height) = Some True
     \<and> (\<exists>fees reward emissionChange.
         list_all2 (\<lambda>tx fee. getTransactionFee_or_zero (ne_floats env) c tx height = Some fee) txs fees
         \<and> validate_miner_transaction c b height (block_size b txs) (getCoinsInCirculation bc) (sum_list fees) bc
             = Some (True, reward, emissionChange)))"

definition alternative_rules ::
    "('f, 'pool) node_env \<Rightarrow> 'pool \<Rightarrow> Storage \<Rightarrow> Block \<Rightarrow> Hash list \<Rightarrow> u32 \<Rightarrow> u64 \<Rightarrow> bool" where
  "alternative_rules env pool s b alt_chain height d \<longleftrightarrow>
    (let c = ne_currency env; cr = ne_crypto env; H = ne_hash env; h = block_hash H b; main = st_main s in
     height \<noteq> 0
     \<and> is_alternative_block_allowed (getCurrentBlockchainHeight main) height (m_checkpoints main)
     \<and> checkBlockVersion c b main
     \<and> (\<exists>known size. getBlockCumulativeSize (ne_find_tx env) b main pool = Some (known, size)
         \<and> checkCumulativeBlockSize c size (ucast height) = Some True)
     \<and> (\<exists>newer timestamps. alt_chain_loop (m_alternative_chains s) (bh_previousBlockHash b) [] [] = Some (alt_chain, newer)
         \<and> connection_timestamps H c alt_chain newer b s = Some (Some timestamps)
         \<and> check_block_timestamp c timestamps b)
     \<and> fst (check_block height h (m_checkpoints main))
     \<and> \<not> (getMergeMiningTagFromExtra (tp_extra (bl_baseTransaction b)) \<noteq> None \<and> UPGRADE_HEIGHT_V6 \<le> ucast height)
     \<and> get_next_difficulty_for_alternative_chain c alt_chain height s = Some d \<and> d \<noteq> 0
     \<and> snd (checkProofOfWork (get_block_longhash H (cn_slow_hash cr)) b d)
     \<and> prevalidate_miner_transaction cr c b height = Some True
     \<and> m_alternative_chains s h = None)"

section \<open>Blocks on the tail\<close>

lemma finish_block_entry:
  assumes "finish_block cr c d block sums coins e bc = Some bc'"
  shows "m_blocks bc' = m_blocks bc @ [block\<lparr>be_block_cumulative_size := bt_cumulative_size sums,
    be_cumulative_difficulty := d + (if m_blocks bc = [] then 0 else be_cumulative_difficulty (last (m_blocks bc))),
    be_already_generated_coins := coins + of_int e + bt_interestSummary sums\<rparr>]"
proof -
  define blk where "blk = block\<lparr>be_block_cumulative_size := bt_cumulative_size sums,
    be_cumulative_difficulty := d + (if m_blocks bc = [] then 0 else be_cumulative_difficulty (last (m_blocks bc))),
    be_already_generated_coins := coins + of_int e + bt_interestSummary sums\<rparr>"
  obtain bc1 bc2 bc3 where 1: "pushBlock_entry (cn_fast_hash cr) blk bc = Some bc1"
    and 2: "pushToDepositIndex blk (bt_interestSummary sums) bc1 = Some bc2"
    and 3: "update_detectors (blockPushed c (chain_versions bc2)) bc2 = Some bc3"
    and 4: "bc' = update_next_comulative_size_limit c bc3"
    using assms unfolding finish_block_def Let_def blk_def [symmetric] by (auto split: option.splits)
  have "m_blocks bc1 = m_blocks bc @ [blk]" using 1 by (auto simp: pushBlock_entry_def Let_def split: option.splits if_splits)
  moreover have "m_blocks bc2 = m_blocks bc1" using 2 by (auto simp: pushToDepositIndex_def Let_def)
  moreover have "m_blocks bc3 = m_blocks bc2" using 3 by (rule update_detectors_cases) simp
  moreover have "m_blocks bc' = m_blocks bc3" using 4 by (simp add: update_next_comulative_size_limit_def Let_def)
  ultimately show ?thesis by (simp add: blk_def)
qed

lemma push_transactions_rules:
  assumes "push_transactions (ne_crypto env) (ne_floats env) (ne_currency env) (ne_now env) mh block pos sums hashes txs bc
      = Some (Completed block' sums' bc')"
    and "be_bl block = b" and "be_height block = height" and "Ledger.more bc = Ledger.more main"
  shows "map te_tx (be_transactions block') = map te_tx (be_transactions block) @ txs
    \<and> list_all (transaction_rules env b height main) txs
    \<and> (\<exists>fees. list_all2 (\<lambda>tx fee. getTransactionFee_or_zero (ne_floats env) (ne_currency env) tx height = Some fee) txs fees
        \<and> bt_fee_summary sums' = bt_fee_summary sums + sum_list fees)"
  using assms
proof (induction txs arbitrary: block pos sums hashes bc)
  case (Cons tx txs)
  then obtain tx_id hashes' where hashes: "hashes = tx_id # hashes'" by (cases hashes) auto
  let ?cr = "ne_crypto env"
  let ?c = "ne_currency env"
  let ?block = "block\<lparr>be_transactions := be_transactions block @ [\<lparr>te_tx = tx, te_global_output_indexes = []\<rparr>]\<rparr>"
  let ?ti = "\<lparr>ti_block = be_height block, ti_transaction = pos + 1\<rparr> :: TransactionIndex"
  obtain blob fee inputs_ok p where
      eqs: "toBinaryArray out_Transaction tx = Some blob" "getTransactionFee_or_zero (ne_floats env) ?c tx (be_height block) = Some fee"
        "checkTransactionInputs ?cr ?c (ne_now env) tx None bc = Some (inputs_ok, p)"
    using Cons.prems(1) hashes by (auto split: option.splits)
  have ok: "\<not> (bh_majorVersion (be_bl block) = 1 \<and> 1 < tp_version tx \<or> \<not> inputs_ok
      \<or> \<not> check_tx_outputs ?cr ?c tx (be_height block))"
    using Cons.prems(1) hashes eqs by (auto split: if_splits)
  obtain r block1 bc1 interest where
      push: "pushTransaction (cn_fast_hash ?cr) ?block tx_id ?ti bc = (Some r, block1, bc1)"
    and rest: "push_transactions ?cr (ne_floats env) ?c (ne_now env) mh block1 (pos + 1)
          \<lparr>bt_cumulative_size = bt_cumulative_size sums + of_nat (length blob),
           bt_fee_summary = bt_fee_summary sums + fee,
           bt_interestSummary = bt_interestSummary sums + interest\<rparr> hashes' txs bc1 = Some (Completed block' sums' bc')"
    using Cons.prems(1) hashes eqs ok by (auto simp: Let_def split: option.splits if_splits prod.splits)
  have blk: "be_bl block1 = b" "be_height block1 = height" "map te_tx (be_transactions block1) = map te_tx (be_transactions block) @ [tx]"
    using Cons.prems(2,3) push pushTransaction_block [of "cn_fast_hash ?cr" ?block tx_id ?ti bc block1 bc1]
      push_failed_unchanged [of "cn_fast_hash ?cr" ?block tx_id ?ti bc block1 bc1] by (cases r; simp)+
  have "Ledger.more bc1 = Ledger.more main" using pushTransaction_more [OF push] Cons.prems(4) by simp
  from Cons.IH [OF rest blk(1,2) this] blk(3)
  have IH: "map te_tx (be_transactions block') = (map te_tx (be_transactions block) @ [tx]) @ txs"
      "list_all (transaction_rules env b height main) txs"
      "\<exists>fees. list_all2 (\<lambda>tx fee. getTransactionFee_or_zero (ne_floats env) ?c tx height = Some fee) txs fees
        \<and> bt_fee_summary sums' = (bt_fee_summary sums + fee) + sum_list fees"
    by simp_all
  from IH(3) obtain fees where "list_all2 (\<lambda>tx fee. getTransactionFee_or_zero (ne_floats env) ?c tx height = Some fee) txs fees"
      "bt_fee_summary sums' = (bt_fee_summary sums + fee) + sum_list fees" by blast
  then have "\<exists>fees. list_all2 (\<lambda>tx fee. getTransactionFee_or_zero (ne_floats env) ?c tx height = Some fee) (tx # txs) fees
        \<and> bt_fee_summary sums' = bt_fee_summary sums + sum_list fees"
    using eqs(2) Cons.prems(3) by (intro exI [of _ "fee # fees"]) (simp add: add.assoc)
  moreover have "transaction_rules env b height main tx"
    unfolding transaction_rules_def using ok eqs(3) Cons.prems(2-4) by auto
  ultimately show ?case using IH(1,2) by simp
qed simp

lemma header_rules:
  assumes "check_block_header cr c now b h bvc bc = Some (Some d, bvc')"
  shows "h \<notin> set (m_blockIndex bc)" and "checkBlockVersion c b bc" and "check_block_timestamp_main c now b bc"
    and "getDifficultyForNextBlock c bc = Some d" and "d \<noteq> 0"
    and "if isInCheckpointZone (getCurrentBlockchainHeight bc) bc
      then check_block_simple (getCurrentBlockchainHeight bc) h (m_checkpoints bc)
      else snd (checkProofOfWork (get_block_longhash (cn_fast_hash cr) (cn_slow_hash cr)) b d)"
proof -
  note body = assms [unfolded check_block_header_def Let_def]
  show "h \<notin> set (m_blockIndex bc)" using header_prevalidated [OF assms] by (simp add: hasBlock_def)
  show "checkBlockVersion c b bc" using body by (auto split: if_splits)
  show "check_block_timestamp_main c now b bc" using body by (auto split: if_splits option.splits)
  show "getDifficultyForNextBlock c bc = Some d" "d \<noteq> 0"
    using body by (auto split: if_splits option.splits bool.splits)
  then show "if isInCheckpointZone (getCurrentBlockchainHeight bc) bc
      then check_block_simple (getCurrentBlockchainHeight bc) h (m_checkpoints bc)
      else snd (checkProofOfWork (get_block_longhash (cn_fast_hash cr) (cn_slow_hash cr)) b d)"
    using body by (auto split: if_splits option.splits bool.splits)
qed

lemma complete_block_added:
  assumes "complete_block cr c b d mh bvc block sums bc = Some (True, bvc', bc')"
  obtains reward e where "checkCumulativeBlockSize c (bt_cumulative_size sums) (ucast (be_height block)) = Some True"
    and "validate_miner_transaction c b (be_height block) (bt_cumulative_size sums) (getCoinsInCirculation bc)
      (bt_fee_summary sums) bc = Some (True, reward, e)"
    and "finish_block cr c d block sums (getCoinsInCirculation bc) e bc = Some bc'"
  using assms unfolding complete_block_def Let_def by (auto split: option.splits bool.splits prod.splits)

lemma blocks_frame:
  assumes "Ledger.more bc = Ledger.more bc'"
  shows "getCoinsInCirculation bc = getCoinsInCirculation bc'"
    and "validate_miner_transaction c b height sz coins fee bc = validate_miner_transaction c b height sz coins fee bc'"
proof -
  have blocks: "m_blocks bc = m_blocks bc'" by (rule chain_frame(1) [OF assms])
  have "getBackwardBlocksSize n acc k bc = getBackwardBlocksSize n acc k bc'" for n acc k
    unfolding getBackwardBlocksSize_def by (simp add: blocks)
  then show "validate_miner_transaction c b height sz coins fee bc = validate_miner_transaction c b height sz coins fee bc'"
    unfolding validate_miner_transaction_def get_last_n_blocks_sizes_def by (simp add: blocks)
  show "getCoinsInCirculation bc = getCoinsInCirculation bc'" by (simp add: getCoinsInCirculation_def blocks)
qed

lemma pushBlock_rules:
  assumes push: "pushBlock (ne_crypto env) (ne_floats env) (ne_currency env) (ne_now env) b txs (block_hash (ne_hash env) b) bvc bc
      = Some (True, bvc', bc')"
    and ok: "main_ok (ne_hash env) bc"
  shows "\<exists>blk. be_bl blk = b \<and> m_blocks bc' = m_blocks bc @ [blk] \<and> tail_rules env bc blk"
proof -
  let ?H = "ne_hash env"
  let ?cr = "ne_crypto env"
  let ?c = "ne_currency env"
  let ?mh = "miner_hash ?H b"
  let ?height = "of_nat (length (m_blocks bc)) :: u32"
  let ?ti = "\<lparr>ti_block = be_height (initial_entry b bc), ti_transaction = 0\<rparr> :: TransactionIndex"
  obtain d bvc1 where header: "check_block_header ?cr ?c (ne_now env) b (block_hash ?H b) bvc bc = Some (Some d, bvc1)"
    using push by (auto simp: pushBlock_def split: option.splits prod.splits)
  obtain pr block0 bc0 where p0: "pushTransaction ?H (initial_entry b bc) ?mh ?ti bc = (Some pr, block0, bc0)"
    using push header by (auto simp: pushBlock_def Let_def split: option.splits prod.splits)
  obtain block sums bc1 where
      loop: "push_transactions ?cr (ne_floats env) ?c (ne_now env) ?mh block0 0 (initial_totals b) (bl_transactionHashes b) txs bc0
        = Some (Completed block sums bc1)"
    and complete: "complete_block ?cr ?c b d ?mh bvc1 block sums bc1 = Some (True, bvc', bc')"
    using push header p0 by (auto simp: pushBlock_def Let_def split: option.splits loop_result.splits)
  have b0: "be_bl block0 = b" "be_height block0 = ?height" "map te_tx (be_transactions block0) = [bl_baseTransaction b]"
    using p0 pushTransaction_block [of ?H "initial_entry b bc" ?mh ?ti bc block0 bc0]
      push_failed_unchanged [of ?H "initial_entry b bc" ?mh ?ti bc block0 bc0]
    by (cases pr; simp add: initial_entry_def)+
  note more0 = pushTransaction_more [OF p0]
  note rules = push_transactions_rules [OF loop b0(1,2) more0]
  have frame: "Ledger.more bc1 = Ledger.more bc" "be_bl block = b" "be_height block = ?height"
    using push_transactions_frame [OF loop] more0 b0 by simp_all
  have total: "bt_cumulative_size sums = block_size b txs"
    using push_transactions_totals [OF loop] by (simp add: block_size_def initial_totals_def)
  obtain reward e where c1: "checkCumulativeBlockSize ?c (bt_cumulative_size sums) (ucast (be_height block)) = Some True"
    and c2: "validate_miner_transaction ?c b (be_height block) (bt_cumulative_size sums) (getCoinsInCirculation bc1)
      (bt_fee_summary sums) bc1 = Some (True, reward, e)"
    and fin: "finish_block ?cr ?c d block sums (getCoinsInCirculation bc1) e bc1 = Some bc'"
    using complete by (rule complete_block_added)
  define blk where "blk = block\<lparr>be_block_cumulative_size := bt_cumulative_size sums,
    be_cumulative_difficulty := d + (if m_blocks bc = [] then 0 else be_cumulative_difficulty (last (m_blocks bc))),
    be_already_generated_coins := getCoinsInCirculation bc1 + of_int e + bt_interestSummary sums\<rparr>"
  have blocks: "m_blocks bc' = m_blocks bc @ [blk]"
    using finish_block_entry [OF fin] by (simp add: blk_def chain_frame(1) [OF frame(1)])
  have txs: "map te_tx (be_transactions blk) = bl_baseTransaction b # txs" "map te_tx (tl (be_transactions blk)) = txs"
    using rules b0(3) by (simp_all add: blk_def map_tl)
  obtain fees where fees: "list_all2 (\<lambda>tx fee. getTransactionFee_or_zero (ne_floats env) ?c tx ?height = Some fee) txs fees"
      "bt_fee_summary sums = sum_list fees"
    using rules by (auto simp: initial_totals_def)
  have prev: "bh_previousBlockHash b = (if m_blocks bc = [] then 0 else block_id ?H (last (m_blocks bc)))"
    using header_prevalidated [OF header] ok by (auto simp: main_ok_def Blockchain_getTailId_def BlockIndex_getTailId_def last_map)
  have miner: "validate_miner_transaction ?c b ?height (block_size b txs) (getCoinsInCirculation bc) (sum_list fees) bc
      = Some (True, reward, e)"
    using c2 by (simp add: frame(3) total fees(2) blocks_frame [OF frame(1)])
  have "tail_rules env bc blk"
    unfolding tail_rules_def Let_def txs(2)
    using header_rules [OF header, unfolded getCurrentBlockchainHeight_def] header_prevalidated [OF header] prev txs(1) rules fees(1) miner c1 frame
    by (auto simp: blk_def total)
  moreover have "be_bl blk = b" by (simp add: blk_def frame)
  ultimately show ?thesis using blocks by blast
qed

lemma pushBlock_pool_rules:
  assumes push: "pushBlock_pool add_tx take_tx (ne_crypto env) (ne_floats env) (ne_currency env) (ne_now env) b
      (block_hash (ne_hash env) b) bvc height (bc, pool) = Some (True, bvc', bc', pool')"
    and ok: "main_ok (ne_hash env) bc"
  shows "\<exists>blk. be_bl blk = b \<and> m_blocks bc' = m_blocks bc @ [blk] \<and> tail_rules env bc blk"
proof -
  let ?p = "\<lambda>txs. pushBlock (ne_crypto env) (ne_floats env) (ne_currency env) (ne_now env) b txs (block_hash (ne_hash env) b) bvc bc"
  obtain loaded pool1 where load: "loadTransactions add_tx take_tx b height bc pool = Some (loaded, pool1)"
    using push by (cases "loadTransactions add_tx take_tx b height bc pool") (auto simp: pushBlock_pool_def)
  obtain txs where "loaded = Some txs" using push load by (cases loaded) (simp_all add: pushBlock_pool_def)
  then obtain r1 where "?p txs = Some (r1, bvc', bc')" "r1"
    using push load by (cases "?p txs"; cases "fst (the (?p txs))") (auto simp: pushBlock_pool_def)
  then show ?thesis using pushBlock_rules ok by simp
qed

section \<open>Alternative blocks\<close>

lemma handle_guards:
  assumes "handle_alternative_block (Suc depth) env b h bvc (s, pool) = Some (r, bvc', s', pool')"
    and "m_blocks (st_main s') \<noteq> m_blocks (st_main s)"
  defines "main \<equiv> st_main (fetch_checkpoints (ne_dns env) s)"
  shows "get_block_height b \<noteq> 0"
    and "is_alternative_block_allowed (getCurrentBlockchainHeight main) (get_block_height b) (m_checkpoints main)"
    and "checkBlockVersion (ne_currency env) b main"
    and "\<exists>known sz. getBlockCumulativeSize (ne_find_tx env) b main pool = Some (known, sz)
      \<and> checkCumulativeBlockSize (ne_currency env) sz (ucast (get_block_height b)) = Some True"
proof -
  let ?s = "fetch_checkpoints (ne_dns env) s"
  have new: "s' \<noteq> s" "s' \<noteq> ?s" using assms(2) by auto
  note body = assms(1) [unfolded handle_alternative_block.simps Let_def]
  show 1: "get_block_height b \<noteq> 0" using body new by (auto split: if_splits)
  show 2: "is_alternative_block_allowed (getCurrentBlockchainHeight main) (get_block_height b) (m_checkpoints main)"
    using body new 1 unfolding main_def by (auto split: if_splits)
  show 3: "checkBlockVersion (ne_currency env) b main"
    using body new 1 2 unfolding main_def by (auto split: if_splits)
  show "\<exists>known sz. getBlockCumulativeSize (ne_find_tx env) b main pool = Some (known, sz)
      \<and> checkCumulativeBlockSize (ne_currency env) sz (ucast (get_block_height b)) = Some True"
    using body new 1 2 3 unfolding main_def by (auto split: option.splits bool.splits prod.splits)
qed

lemma add_alternative_rules:
  assumes add: "add_alternative env b (block_hash (ne_hash env) b) bvc s = Some (Inr (alt_chain, bei, is_a_checkpoint, s'))"
    and allowed: "get_block_height b \<noteq> 0"
      "is_alternative_block_allowed (getCurrentBlockchainHeight (st_main s)) (get_block_height b) (m_checkpoints (st_main s))"
      "checkBlockVersion (ne_currency env) b (st_main s)"
      "\<exists>known sz. getBlockCumulativeSize (ne_find_tx env) b (st_main s) pool = Some (known, sz)
        \<and> checkCumulativeBlockSize (ne_currency env) sz (ucast (get_block_height b)) = Some True"
  obtains chain parent_height parent_difficulty d where
      "alternative_parent b s = Some (parent_height, parent_difficulty)"
    and "alternative_rules env pool s b chain (parent_height + 1) d"
    and "be_cumulative_difficulty bei = parent_difficulty + d"
    and "check_block (parent_height + 1) (block_hash (ne_hash env) b) (m_checkpoints (st_main s)) = (True, is_a_checkpoint)"
    and "st_main s' = st_main s"
  using add
proof (cases rule: add_alternative_added)
  case (1 chain timestamps parent_height parent_difficulty d index all_timestamps)
  have height: "get_block_height b = parent_height + 1" by (rule prevalidated_height [OF 1(8)])
  have "alternative_rules env pool s b chain (parent_height + 1) d"
    unfolding alternative_rules_def Let_def using 1 allowed [unfolded height] by auto
  then show thesis using that [OF 1(3)] 1(4,9,11) by simp
qed

end
