(* ===== verification/Fork_Properties.thy ===== *)
theory Fork_Properties
  imports Fork_Rules Chain_Properties
begin

text \<open>
  The properties of the choice between chains, with the first block of a node as the concrete input.
\<close>

section \<open>The difficulty of alternative blocks\<close>

lemma window_of_chain:
  assumes "split \<le> length blocks" and "0 < split" and "0 < n"
    and "split = unat (if entries = [] then height else be_height (hd entries))"
  defines "chain \<equiv> take split blocks @ entries"
  defines "offset \<equiv> length chain - min (length chain) n"
  shows "alternative_window n blocks entries height
    = Some (Some (map (\<lambda>i. chain ! i) [(if offset = 0 then 1 else offset) ..< length chain]))"
proof (cases "length entries < n")
  case True
  let ?start = "split - min (n - length entries) split"
  let ?start' = "if ?start = 0 then 1 else ?start"
  have len: "length chain = split + length entries" using assms(1) by (simp add: chain_def)
  have start: "?start' = (if offset = 0 then 1 else offset)" using True by (auto simp: offset_def len min_def)
  have lower: "map (\<lambda>i. blocks ! i) [?start' ..< split] = map (\<lambda>i. chain ! i) [?start' ..< split]"
    using assms(1) by (auto simp: chain_def nth_append)
  have upper: "entries = map (\<lambda>i. chain ! i) [split ..< length chain]"
    using assms(1) by (intro nth_equalityI) (simp_all add: chain_def nth_append)
  have "?start' \<le> split" using assms(2) by auto
  then have "[?start' ..< split] @ [split ..< length chain] = [?start' ..< length chain]"
    using upt_add_eq_append [of ?start' split "length entries"] len by simp
  then have whole: "map (\<lambda>i. blocks ! i) [?start' ..< split] @ entries = map (\<lambda>i. chain ! i) [?start' ..< length chain]"
    using lower upper by (metis map_append)
  have fits: "length entries + (split - ?start') \<le> n" using True by (auto simp: min_def)
  have "alternative_window n blocks entries height = Some (Some (map (\<lambda>i. blocks ! i) [?start' ..< split] @ entries))"
    unfolding alternative_window_def Let_def assms(4) [symmetric]
    using True assms(1) fits by (auto simp: min_absorb2)
  then show ?thesis using whole start by simp
next
  case False
  have len: "length chain = split + length entries" using assms(1) by (simp add: chain_def)
  then have offset: "offset = split + (length entries - n)" using False assms(2) by (simp add: offset_def)
  have "drop (length entries - n) entries = map (\<lambda>i. chain ! i) [offset ..< length chain]"
    using assms(1) False by (intro nth_equalityI) (simp_all add: chain_def nth_append offset)
  then show ?thesis using False assms(2,3) by (simp add: alternative_window_def offset)
qed

lemma version_of_height_blocks [simp]:
  "get_block_major_version_for_height c h (bc\<lparr>m_blocks := bs\<rparr>) = get_block_major_version_for_height c h bc"
  "getBlockMajorVersionForHeight c h' (bc\<lparr>m_blocks := bs\<rparr>) = getBlockMajorVersionForHeight c h' bc"
  by (simp_all add: get_block_major_version_for_height_def getBlockMajorVersionForHeight_def)

lemma version_of_checkpoints [simp]:
  "getBlockMajorVersionForHeight c h (bc\<lparr>m_checkpoints := cp\<rparr>) = getBlockMajorVersionForHeight c h bc"
  "get_block_major_version_for_height c h' (bc\<lparr>m_checkpoints := cp\<rparr>) = get_block_major_version_for_height c h' bc"
  by (simp_all add: get_block_major_version_for_height_def getBlockMajorVersionForHeight_def)

lemma difficulty_of_checkpoints [simp]: "difficulty_for_version c (bc\<lparr>m_checkpoints := cp\<rparr>) = difficulty_for_version c bc"
  by (simp add: difficulty_for_version_def fun_eq_iff)

lemma difficulty_of_blocks:
  "difficulty_for_version c (bc\<lparr>m_blocks := bs\<rparr>) timestamps difficulties
    = (let v = get_block_major_version_for_height c (of_nat (length bs) + 1) bc in
       if 8 \<le> v then nextDifficultyLWMA1 c timestamps difficulties (of_nat (length bs))
       else if 4 \<le> v then nextDifficultyLWMA3 timestamps difficulties
       else nextDifficulty c v (ucast (of_nat (length bs) :: u64)) timestamps difficulties)"
  by (simp add: difficulty_for_version_def Let_def)

text \<open>
  Whether the blocks after \<open>m\<close> and after \<open>n\<close> blocks get their difficulty by the same rule: it depends on the
  height only through the version and through the first blocks of version 8, which have a fixed difficulty.
\<close>

definition fixed_difficulty :: "Currency \<Rightarrow> nat \<Rightarrow> bool" where
  "fixed_difficulty c n \<longleftrightarrow> m_upgradeHeightV8 c \<le> of_nat n \<and> of_nat n < m_upgradeHeightV8 c + 60"

definition same_algorithm :: "Currency \<Rightarrow> Blockchain \<Rightarrow> nat \<Rightarrow> nat \<Rightarrow> bool" where
  "same_algorithm c bc m n \<longleftrightarrow>
    (let v = get_block_major_version_for_height c (of_nat m + 1) bc;
         w = get_block_major_version_for_height c (of_nat n + 1) bc in
     difficultyBlocksCountByBlockVersion c (getBlockMajorVersionForHeight c (of_nat m) bc)
       = difficultyBlocksCountByBlockVersion c (getBlockMajorVersionForHeight c (of_nat n) bc)
     \<and> (m = n \<or> 4 \<le> v \<and> v < 8 \<and> 4 \<le> w \<and> w < 8
        \<or> 8 \<le> v \<and> 8 \<le> w \<and> \<not> fixed_difficulty c m \<and> \<not> fixed_difficulty c n))"

lemma lwma1_height:
  "\<not> fixed_difficulty c m \<Longrightarrow> \<not> fixed_difficulty c n \<Longrightarrow>
    nextDifficultyLWMA1 c timestamps difficulties (of_nat m) = nextDifficultyLWMA1 c timestamps difficulties (of_nat n)"
  unfolding nextDifficultyLWMA1_def fixed_difficulty_def Let_def by (simp only: if_False)

lemma same_algorithm_difficulty:
  assumes "same_algorithm c bc (length (m_blocks bc)) (length bs)"
  shows "difficulty_for_version c (bc\<lparr>m_blocks := bs\<rparr>) = difficulty_for_version c bc"
proof (intro ext)
  fix timestamps difficulties
  note rule = difficulty_of_blocks [of c _ bc timestamps difficulties, unfolded Let_def]
  have old: "difficulty_for_version c bc timestamps difficulties
      = difficulty_for_version c (bc\<lparr>m_blocks := m_blocks bc\<rparr>) timestamps difficulties" by simp
  show "difficulty_for_version c (bc\<lparr>m_blocks := bs\<rparr>) timestamps difficulties = difficulty_for_version c bc timestamps difficulties"
    unfolding old rule
    using assms lwma1_height [of c "length (m_blocks bc)" "length bs" timestamps difficulties]
    by (auto simp: same_algorithm_def Let_def not_le)
qed

lemma next_difficulty_window:
  "getDifficultyForNextBlock c bc =
    (let n = unat (difficultyBlocksCountByBlockVersion c (getBlockMajorVersionForHeight c (of_nat (length (m_blocks bc))) bc));
         window = drop (max 1 (length (m_blocks bc) - n)) (m_blocks bc) in
     difficulty_for_version c bc (map (\<lambda>e. bh_timestamp (be_bl e)) window) (map be_cumulative_difficulty window))"
proof -
  have offset: "(if k - min k n = 0 then k - min k n + 1 else k - min k n) = max 1 (k - n)" for k n :: nat by auto
  have window: "map (\<lambda>i. f (bs ! i)) [k ..< length bs] = map f (drop k bs)" for f and bs :: "BlockEntry list" and k
    by (rule nth_equalityI) simp_all
  show ?thesis
    unfolding getDifficultyForNextBlock_def difficulty_for_version_def Let_def offset
      window [of "\<lambda>e. bh_timestamp (be_bl e)"] window [of be_cumulative_difficulty] ..
qed

section \<open>A first block\<close>

definition example_env :: "(nat, Transaction list) node_env" where
  "example_env = \<lparr>ne_crypto = example_crypto, ne_floats = integer_floats, ne_currency = example_currency, ne_now = 2000000000,
    ne_add_tx = (\<lambda>tx h bc pool. (True, tx # pool)), ne_take_tx = (\<lambda>h pool. (None, pool)),
    ne_find_tx = (\<lambda>h pool. None), ne_dns = []\<rparr>"

definition example_storage :: Storage where
  "example_storage = Storage_create \<lparr>cp_testnet = False, cp_points = []\<rparr>"

lemma example_added:
  obtains bvc' s' where "addNewBlock 1 example_env example_block bvc_initial (example_storage, [])
      = Some (True, bvc', s', [])" and "length (m_blocks (st_main s')) = 1"
proof -
  obtain bc' where push: "pushBlock example_crypto integer_floats example_currency 2000000000 example_block [] 77 bvc_initial example_chain
      = Some (True, bvc_initial\<lparr>bv_added_to_main_chain := True\<rparr>, bc')"
    using example_push by blast
  have "length (m_blocks bc') = 1"
    using added_block [OF push example_ok(1,3,2) example_hashes(1) [symmetric], of "length (m_blocks bc') = 1"]
    by (simp add: example_fields)
  moreover have main: "st_main example_storage = example_chain" "m_alternative_chains example_storage = Map.empty"
    by (simp_all add: example_storage_def Storage_create_def example_chain_def)
  moreover have "loadTransactions (ne_add_tx example_env) (ne_take_tx example_env) example_block 1 example_chain [] = Some (Some [], [])"
    by (simp add: loadTransactions_def example_block_def)
  moreover have "get_block_hash (cn_fast_hash example_crypto) example_block = (True, 77)"
    by code_simp
  moreover have "bh_previousBlockHash example_block = 0" by (simp add: example_block_def)
  moreover have "of_nat (length (m_blocks example_chain)) + 1 = (1 :: u32)" by (simp add: example_fields)
  ultimately have "addNewBlock 1 example_env example_block bvc_initial (example_storage, [])
      = Some (True, bvc_initial\<lparr>bv_added_to_main_chain := True\<rparr>, example_storage\<lparr>st_main := bc'\<rparr>, [])"
    using push
    by (simp add: addNewBlock_def haveBlock_def hasBlock_def example_fields Blockchain_getTailId_def pushBlock_pool_def example_env_def)
  then show thesis using that \<open>length (m_blocks bc') = 1\<close> by simp
qed

section \<open>Properties\<close>

text \<open>
  C1. Whatever blocks arrive, in whatever order, and whatever the pool, the clock and the DNS
  servers do, through reorganisations, failed reorganisations and rollbacks: the main chain is linked by
  the hashes of its blocks, each block has the height that its miner transaction names, the block index
  lists the hashes without repetition, and every alternative block is stored under its own hash with its
  own height.
\<close>

theorem reorganised_chain_linked:
  assumes "(storage_step env)\<^sup>*\<^sup>* (Storage_create cp, pool0) (s, pool)"
  shows "storage_ok (ne_hash env) s"
  using reachable_ok [OF assms] by simp

theorem reorganised_chain_linked_witness:
  "\<exists>s. (storage_step example_env)\<^sup>*\<^sup>* (example_storage, []) (s, []) \<and> length (m_blocks (st_main s)) = 1
    \<and> storage_ok (cn_fast_hash example_crypto) s"
proof (rule example_added)
  fix bvc' s'
  assume add: "addNewBlock 1 example_env example_block bvc_initial (example_storage, []) = Some (True, bvc', s', [])"
    and one: "length (m_blocks (st_main s')) = 1"
  have "example_env = example_env\<lparr>ne_now := 2000000000, ne_dns := []\<rparr>" by (simp add: example_env_def)
  then have "storage_step example_env (example_storage, []) (s', [])" using add step_block by metis
  then have "(storage_step example_env)\<^sup>*\<^sup>* (Storage_create \<lparr>cp_testnet = False, cp_points = []\<rparr>, []) (s', [])"
    by (simp add: example_storage_def r_into_rtranclp)
  from reorganised_chain_linked [OF this] this one show ?thesis
    by (auto simp: example_storage_def) (auto simp: example_env_def)
qed



text \<open>
  C3. The difficulty required of an alternative block is computed from the
  last blocks, without the genesis block, of the chain that the block extends: the main chain up to the
  fork and then the alternative blocks. The number of blocks and the algorithm are those of the main
  chain's own height. So the result is the difficulty that the alternative chain would require of the block if it were
  the main chain, whenever both heights select the same algorithm: at equal heights, within the versions
  4 to 7, and from version 8 on after its first 60 blocks.
\<close>

theorem alternative_difficulty_agrees:
  assumes "those (map (m_alternative_chains s) alt_chain) = Some entries"
    and "split = unat (if entries = [] then height else be_height (hd entries))"
    and "0 < split" and "split \<le> length (m_blocks (st_main s))"
    and "chain = take split (m_blocks (st_main s)) @ entries"
    and "n = unat (difficultyBlocksCountByBlockVersion c
      (getBlockMajorVersionForHeight c (of_nat (length (m_blocks (st_main s)))) (st_main s)))" and "0 < n"
    and "window = drop (max 1 (length chain - n)) chain"
  shows "get_next_difficulty_for_alternative_chain c alt_chain height s
      = difficulty_for_version c (st_main s) (map (\<lambda>e. bh_timestamp (be_bl e)) window) (map be_cumulative_difficulty window)
    \<and> (same_algorithm c (st_main s) (length (m_blocks (st_main s))) (length chain) \<longrightarrow>
        get_next_difficulty_for_alternative_chain c alt_chain height s
          = getDifficultyForNextBlock c ((st_main s)\<lparr>m_blocks := chain\<rparr>))"
proof -
  have offset: "(if k - min k n = 0 then 1 else k - min k n) = max 1 (k - n)" for k :: nat by auto
  have drop: "map (\<lambda>i. chain ! i) [k ..< length chain] = drop k chain" for k by (rule nth_equalityI) simp_all
  have "alternative_window n (m_blocks (st_main s)) entries height = Some (Some window)"
    using window_of_chain [OF assms(4,3,7,2)] unfolding assms(5) [symmetric] offset drop assms(8) .
  then have next_d: "get_next_difficulty_for_alternative_chain c alt_chain height s
      = difficulty_for_version c (st_main s) (map (\<lambda>e. bh_timestamp (be_bl e)) window) (map be_cumulative_difficulty window)"
    unfolding get_next_difficulty_for_alternative_chain_def Let_def assms(6) by (simp add: assms(1))
  have "getDifficultyForNextBlock c ((st_main s)\<lparr>m_blocks := chain\<rparr>)
      = difficulty_for_version c (st_main s) (map (\<lambda>e. bh_timestamp (be_bl e)) window) (map be_cumulative_difficulty window)"
    if same: "same_algorithm c (st_main s) (length (m_blocks (st_main s))) (length chain)"
  proof -
    have "unat (difficultyBlocksCountByBlockVersion c (getBlockMajorVersionForHeight c (of_nat (length chain)) (st_main s))) = n"
      using same unfolding assms(6) same_algorithm_def Let_def by simp
    then show ?thesis
      unfolding next_difficulty_window same_algorithm_difficulty [OF same] by (simp add: assms(8) Let_def)
  qed
  with next_d show ?thesis by simp
qed

theorem alternative_difficulty_agrees_witness:
  "let e = \<lparr>be_bl = example_block, be_height = 1, be_block_cumulative_size = 0, be_cumulative_difficulty = 5,
        be_already_generated_coins = 0, be_transactions = []\<rparr>;
      s = \<lparr>st_main = example_chain\<lparr>m_blocks := [e, e]\<rparr>, m_alternative_chains = [7 \<mapsto> e\<lparr>be_cumulative_difficulty := 9\<rparr>],
        m_orthanBlocksIndex = {#}\<rparr>
   in get_next_difficulty_for_alternative_chain example_currency [7] 2 s
     = getDifficultyForNextBlock example_currency ((st_main s)\<lparr>m_blocks := [e, e\<lparr>be_cumulative_difficulty := 9\<rparr>]\<rparr>)"
proof -
  define e where "e = \<lparr>be_bl = example_block, be_height = 1, be_block_cumulative_size = 0, be_cumulative_difficulty = 5,
        be_already_generated_coins = 0, be_transactions = []\<rparr>"
  define s where "s = \<lparr>st_main = example_chain\<lparr>m_blocks := [e, e]\<rparr>, m_alternative_chains = [7 \<mapsto> e\<lparr>be_cumulative_difficulty := 9\<rparr>],
        m_orthanBlocksIndex = {#}\<rparr>"
  have entries: "those (map (m_alternative_chains s) [7]) = Some [e\<lparr>be_cumulative_difficulty := 9\<rparr>]" by (simp add: s_def)
  have "difficultyBlocksCountByBlockVersion example_currency (getBlockMajorVersionForHeight example_currency (of_nat 2) example_chain) \<noteq> 0"
    by code_simp
  then have n: "0 < unat (difficultyBlocksCountByBlockVersion example_currency
      (getBlockMajorVersionForHeight example_currency (of_nat (length (m_blocks (st_main s)))) (st_main s)))"
    by (simp add: s_def unat_gt_0)
  have chain: "[e, e\<lparr>be_cumulative_difficulty := 9\<rparr>] = take 1 (m_blocks (st_main s)) @ [e\<lparr>be_cumulative_difficulty := 9\<rparr>]"
    by (simp add: s_def)
  have same: "same_algorithm example_currency (st_main s) (length (m_blocks (st_main s))) (length [e, e\<lparr>be_cumulative_difficulty := 9\<rparr>])"
    by (simp add: same_algorithm_def s_def)
  have split: "1 = unat (if [e\<lparr>be_cumulative_difficulty := 9\<rparr>] = [] then 2 else be_height (hd [e\<lparr>be_cumulative_difficulty := 9\<rparr>]))"
    by (simp add: e_def)
  have le: "1 \<le> length (m_blocks (st_main s))" by (simp add: s_def)
  have "get_next_difficulty_for_alternative_chain example_currency [7] 2 s
      = getDifficultyForNextBlock example_currency ((st_main s)\<lparr>m_blocks := [e, e\<lparr>be_cumulative_difficulty := 9\<rparr>]\<rparr>)"
    using alternative_difficulty_agrees [OF entries split zero_less_one le chain refl n refl] same by blast
  then show ?thesis by (simp add: s_def e_def Let_def)
qed

end
