(* ===== verification/Spec2Isabelle.thy ===== *)
theory Spec2Isabelle
  imports Varint Checkpoint_List Block_Index Deposit_Index Reward Interest Amounts Difficulty_Adjustment Upgrade_Detector Transaction_Extra Chain_Properties Fork_Properties
begin

text \<open>
  Verification of the consensus core of the Conceal node (\<open>conceal-core\<close>).

  \<^bold>\<open>The program.\<close> A node stores a chain of blocks. Blocks and transactions arrive as bytes, are parsed
  by the binary serializers, and are checked by the blockchain storage against the state of the
  chain: proof of work, difficulty, timestamps, versions, sizes, inputs, outputs, fees and rewards.
  An accepted block changes a dozen containers (blocks, block index, transaction map, spent key
  images, outputs by amount, deposit index, upgrade detectors, several search indexes); a block
  that leaves the main chain has to restore all of them. The development models these parts as
  functions over records that have the source's fields, and proves what makes them correct.

  \<^bold>\<open>Conventions.\<close> Fixed-width integers are words (\<open>u8\<close> to \<open>u64\<close>), so arithmetic wraps where the source
  wraps; hashes, keys and key images are 256-bit words and signatures 512-bit words. A class or
  struct is a record whose field names carry a short prefix, a variant is a datatype. A failed
  assertion, an exception, a null pointer or an access outside a vector is \<open>None\<close> or an error value.
  Log lines, locks and timing are left out. Cryptographic primitives, the clock, single-precision
  arithmetic and the transaction pool are arguments of the definitions that use them.

  \<^bold>\<open>The theories.\<close>
  \<^item> \<open>Prelude\<close>, \<open>Bytes\<close>: the shared types and lemmas on words, lists and bytes; the locales
    \<open>undo_stack\<close> (popping restores what was pushed), \<open>byte_codec\<close> and \<open>codec_pair\<close> (exact binary codecs)
    and \<open>entry_index\<close> (search indexes), each interpreted on the operations of the components below.
  \<^item> \<open>IntUtil\<close>, \<open>Difficulty\<close> (\<open>Common/int-util.h\<close>, \<open>CryptoNoteCore/Difficulty.cpp\<close>): 128-bit multiplication
    and division and the proof-of-work comparison are exact.
  \<^item> \<open>Varint\<close>, \<open>Binary_Serializer\<close>, \<open>CryptoNote_Types\<close>, \<open>CryptoNote_Serialization\<close> (\<open>Common/Varint.h\<close>,
    \<open>Common/StreamTools.cpp\<close>, \<open>Serialization/\<close>, \<open>include/CryptoNote.h\<close>,
    \<open>CryptoNoteCore/CryptoNoteSerialization.cpp\<close>): a byte string is read as a transaction or block
    exactly when it is the binary form of that value; the exceptions on writing are characterised.
  \<^item> \<open>String_Tools\<close>, \<open>ChaCha8\<close>, \<open>Transaction_Extra\<close> (\<open>Common/StringTools.cpp\<close>, \<open>crypto/chacha8.c\<close>,
    \<open>CryptoNoteCore/TransactionExtra.cpp\<close>): the stream cipher is ChaCha with eight rounds as
    defined for it, and hexadecimal text, the extra field and the encrypted messages round-trip.
  \<^item> \<open>Checkpoint_List\<close>, \<open>Block_Index\<close>, \<open>Deposit_Index\<close>, \<open>Upgrade_Detector\<close>, \<open>Blockchain_Indices\<close>
    (\<open>Checkpoints.cpp\<close>, \<open>BlockIndex.cpp\<close>, \<open>DepositIndex.cpp\<close>, \<open>UpgradeDetector.h\<close>, \<open>BlockchainIndices.cpp\<close>): what
    the lookups answer, that sparse chains let nodes find a common block, that the deposit index
    refines the list of per-block amounts, the voting rule, and that removing undoes adding.
  \<^item> \<open>Currency_Base\<close>, \<open>Reward\<close>, \<open>Interest\<close>, \<open>Amounts\<close>, \<open>Difficulty_Adjustment\<close> (\<open>Currency.cpp\<close>,
    \<open>CryptoNoteBasicImpl.cpp\<close>, \<open>CryptoNoteConfig.h\<close>): parameters of both networks, block rewards and
    emission, interest and fees, decomposition and text of amounts, and the difficulty algorithms
    with their exact values or bounds.
  \<^item> \<open>Format_Utils\<close>, \<open>Tree_Hash\<close>, \<open>Block_Hash\<close> (\<open>CryptoNoteFormatUtils.cpp\<close>, \<open>crypto/tree-hash.c\<close>): overflow
    checks and output offsets, the Merkle tree with its branches, and what a block hash commits to.
  \<^item> \<open>Chain_State\<close>, \<open>Chain_Checks\<close>, \<open>Main_Chain\<close> (\<open>Blockchain.cpp\<close>, \<open>Blockchain.h\<close>): the storage as the record
    \<open>Blockchain\<close>, an extension of the record \<open>Ledger\<close> of the containers that transactions change. Its
    operations are \<open>pushTransaction\<close>, \<open>popTransaction\<close>, the checks, \<open>pushBlock\<close>, \<open>popBlock\<close>,
    \<open>removeLastBlock\<close> and \<open>rollbackBlockchainTo\<close>.
  \<^item> \<open>Chain_References\<close>, \<open>Chain_Undo\<close>, \<open>Chain_Properties\<close>: references between containers and blocks, the
    invariant \<open>chain_inv\<close>, the step relation \<open>chain_step\<close> of adding and removing blocks, and the
    properties of the storage: undo, consistency of every reachable state, what accepted inputs
    satisfy, absence of failed assertions on parsed input, and termination of the rollback. The
    states in which inputs are checked, between blocks and inside \<open>pushBlock\<close>, are \<open>checking_state\<close>.
  \<^item> \<open>Alternative_Chains\<close>, \<open>Fork_Choice\<close>, \<open>Fork_Rules\<close>, \<open>Fork_Properties\<close> (\<open>Blockchain.cpp\<close>): the record \<open>Storage\<close> adds the
    alternative blocks to the main chain; \<open>addNewBlock\<close>, \<open>handle_alternative_block\<close>,
    \<open>switch_to_alternative_blockchain\<close> and \<open>rollback_blockchain_switching\<close> reorganise it. The step relation
    \<open>storage_step\<close> keeps the chain linked through reorganisations that succeed or fail. The main chain
    changes only by a block on its tail that satisfies \<open>tail_rules\<close>, or after a block that satisfies
    \<open>alternative_rules\<close> and whose chain has the greater cumulative difficulty or a checkpoint. The
    difficulty of an alternative block comes from its own chain, by the algorithm of the main chain's height.

  \<^bold>\<open>Bounds.\<close> Every loop is a structural recursion or has a termination proof, with two exceptions.
  \<open>alt_chain_loop\<close> follows hashes through the alternative blocks and is a partial function, \<open>None\<close> when the
  hashes form a cycle. \<open>handle_alternative_block\<close> calls itself for the blocks that leave the main chain and
  takes a bound on the depth of these calls; \<open>handle_more_depth\<close> shows that a greater bound does not
  change a result.
  Lists stand for vectors and are assumed shorter than the width of the counters that index them
  where a theorem says so: \<open>room\<close> asks that the chain has fewer than \<open>2 ^ 32 - 1\<close> blocks, \<open>block_ok\<close> that
  a block has fewer than \<open>2 ^ 16\<close> transactions and a transaction fewer than \<open>2 ^ 16\<close> outputs, the
  ranges of the source's indices, that the hashes of its transactions are distinct and new, and that its
  transactions have passed the checks the pool makes before it hands them over.

  \<^bold>\<open>Exceptions.\<close> The source catches exceptions in \<open>pushBlock\<close>, \<open>addNewBlock\<close>, \<open>handle_alternative_block\<close>,
  \<open>switch_to_alternative_blockchain\<close>, \<open>rollback_blockchain_switching\<close> and \<open>rollbackBlockchainTo\<close>, reports a
  refusal and keeps the partly changed storage. The model stops there with \<open>None\<close>, so the step
  relations \<open>chain_step\<close> and \<open>storage_step\<close> do not continue after an exception. \<open>chain_step\<close> also leaves out
  the blocks refused for their size, whose transactions stay in the containers. \<open>own_block_throws\<close>
  shows an exception inside \<open>pushBlock\<close>: a transaction that spends an output of its own block.

  \<^bold>\<open>Not modelled.\<close> The storage files and the queries of \<open>Blockchain.cpp\<close>; the
  transaction pool, which the storage reaches through operations that are arguments; networking,
  remote procedure calls, wallets, the miner's threads and the command line, which are input, output
  and scheduling; and the cryptographic primitives, which are arguments. \<open>InvestmentIndex.cpp\<close> is a
  copy of \<open>DepositIndex.cpp\<close> that the program does not use.
\<close>

end
